(* ===== verification/Prelude.thy ===== *)
theory Prelude
  imports Complex_Main "HOL-Library.Word" "HOL-Library.Log_Nat" "HOL-Library.AList"
begin

text \<open>
  What every component shares: the identifiers and machine integers of the program, Go's
  truncating division and saturating time arithmetic, Go maps as association lists behind a
  map interface, and outcomes of an operation that can panic.
\<close>

named_theorems wf_simps "unfolding equations of the well-formedness predicates"
named_theorems step_simps "equations of the operations, used to run one of them by simp"
named_theorems keeps_intros "introduction rules: an operation keeps an invariant"

subsection \<open>Identifiers, bytes and integers\<close>

text \<open>A \<open>uuid.UUID\<close> is an array of 16 bytes; \<open>uuid.Nil\<close> is the all-zero one.\<close>

type_synonym uuid = "128 word"
type_synonym byte = "8 word"
type_synonym bytes = "8 word list"

abbreviation (input) uuid_Nil :: uuid where
  "uuid_Nil \<equiv> 0"

text \<open>Go's integer division and remainder truncate towards zero.\<close>

definition go_div :: "int \<Rightarrow> int \<Rightarrow> int" where
  "go_div a b = sgn a * sgn b * (\<bar>a\<bar> div \<bar>b\<bar>)"

lemma go_div_nonneg: "0 \<le> a \<Longrightarrow> 0 < b \<Longrightarrow> go_div a b = a div b"
  by (cases "a = 0") (auto simp: go_div_def)

lemma go_div_nonneg_bounds:
  "0 \<le> a \<Longrightarrow> 0 < b \<Longrightarrow> 0 \<le> go_div a b \<and> b * go_div a b \<le> a"
  using pos_mod_sign [of b a]
  by (simp add: go_div_nonneg pos_imp_zdiv_nonneg_iff minus_mod_eq_mult_div [symmetric])

lemma go_div_mono: "0 \<le> a \<Longrightarrow> a \<le> a' \<Longrightarrow> 0 < b \<Longrightarrow> go_div a b \<le> go_div a' b"
  by (simp add: go_div_nonneg zdiv_mono1)

subsection \<open>Time\<close>

text \<open>
  A \<open>time.Time\<close> is the number of nanoseconds since the zero Time (January 1, year 1), so
  \<open>IsZero\<close> is comparison with 0; a \<open>time.Duration\<close> is a signed 64-bit number of
  nanoseconds. \<open>t.Sub(u)\<close> and \<open>time.Since\<close> saturate at the least and greatest
  Duration. \<open>time.Now()\<close> is a reading handed to each operation that takes one.
\<close>

type_synonym gotime = int
type_synonym duration = int

definition minDuration :: duration where
  "minDuration = - (2 ^ 63)"

definition maxDuration :: duration where
  "maxDuration = 2 ^ 63 - 1"

definition time_sub :: "gotime \<Rightarrow> gotime \<Rightarrow> duration" where
  "time_sub t u = max minDuration (min maxDuration (t - u))"

abbreviation (input) zero_time :: gotime where
  "zero_time \<equiv> 0"

abbreviation Millisecond :: duration where
  "Millisecond \<equiv> 1000000"

abbreviation Second :: duration where
  "Second \<equiv> 1000000000"

lemma time_sub_exact: "\<bar>t - u\<bar> < 2 ^ 63 \<Longrightarrow> time_sub t u = t - u"
  by (auto simp: time_sub_def minDuration_def maxDuration_def)

lemma time_sub_nonneg: "u \<le> t \<Longrightarrow> 0 \<le> time_sub t u"
  by (simp add: time_sub_def minDuration_def maxDuration_def)

lemma time_sub_mono: "t \<le> t' \<Longrightarrow> time_sub t u \<le> time_sub t' u"
  by (simp add: time_sub_def)

lemma time_sub_antimono: "u \<le> u' \<Longrightarrow> time_sub t u' \<le> time_sub t u"
  by (simp add: time_sub_def)

text \<open>The Unix second of a Time, \<open>t.Unix()\<close>, and \<open>time.Unix(s, 0)\<close>.\<close>

definition unix_epoch :: gotime where
  "unix_epoch = 62135596800 * 1000000000"

definition time_Unix :: "gotime \<Rightarrow> int" where
  "time_Unix t = (t - unix_epoch) div Second"

definition unix_time :: "int \<Rightarrow> gotime" where
  "unix_time s = unix_epoch + s * Second"

lemma time_Unix_unix_time [simp]: "time_Unix (unix_time s) = s"
  by (simp add: time_Unix_def unix_time_def)

lemma time_Unix_mono: "t \<le> u \<Longrightarrow> time_Unix t \<le> time_Unix u"
  by (simp add: time_Unix_def zdiv_mono1)

lemma unix_time_le: "unix_time (time_Unix t) \<le> t"
  using pos_mod_sign [of "1000000000" "t - unix_epoch"]
    div_mult_mod_eq [of "t - unix_epoch" "1000000000"]
  by (simp add: time_Unix_def unix_time_def)

lemma time_Unix_add: "time_Unix (t + k * Second) = time_Unix t + k"
proof -
  have "t + k * Second - unix_epoch = (t - unix_epoch) + k * Second" by simp
  then show ?thesis by (simp add: time_Unix_def)
qed

subsection \<open>Lists cut at a separator\<close>

lemma takeWhile_sep [simp]: "x \<notin> set xs \<Longrightarrow> takeWhile (\<lambda>y. y \<noteq> x) (xs @ x # ys) = xs"
  by (induction xs) auto

lemma dropWhile_sep [simp]: "x \<notin> set xs \<Longrightarrow> dropWhile (\<lambda>y. y \<noteq> x) (xs @ x # ys) = x # ys"
  by (induction xs) auto

lemma split_sep:
  assumes "xs @ x # ys = xs' @ x # ys'" and "x \<notin> set xs" and "x \<notin> set xs'"
  shows "xs = xs' \<and> ys = ys'"
proof -
  have "takeWhile (\<lambda>y. y \<noteq> x) (xs @ x # ys) = takeWhile (\<lambda>y. y \<noteq> x) (xs' @ x # ys')"
    by (simp only: assms(1))
  then have "xs = xs'" by (simp only: takeWhile_sep [OF assms(2)] takeWhile_sep [OF assms(3)])
  with assms(1) show ?thesis by simp
qed

lemma unat_byte [simp]: "unat (b :: byte) < 256"
  using unsigned_less [of b] by simp

lemma set_map_filter: "set (List.map_filter f xs) = {y. \<exists>x \<in> set xs. f x = Some y}"
  by (induction xs) (auto simp: map_filter_simps split: option.split)

subsection \<open>Outcomes\<close>

text \<open>
  An operation either returns or panics (a nil dereference, an index out of range): a Go
  panic that nothing recovers ends the process.
\<close>

datatype 'a go = Returns 'a | Panics string

end
