(* ===== verification/GoFloat.thy ===== *)
theory GoFloat
  imports Prelude
begin

text \<open>
  The IEEE 754 arithmetic of Go's \<open>float64\<close> and \<open>float32\<close>: a value is NaN, an infinity or
  a rational number, and an operation rounds its exact result to the nearest value of the
  format, ties to even, overflowing to an infinity. Every operation is rounded on its own
  (no fused multiply-add). The sign of a zero is not recorded: no operation the program
  uses (addition, subtraction, multiplication, comparison, conversion) can tell the two
  zeros apart except by the sign of another zero.
\<close>

subsection \<open>Rounding a rational number\<close>

text \<open>The binade of a positive number: \<open>2 powi flog2 q \<le> q < 2 powi (flog2 q + 1)\<close>.\<close>

definition flog2 :: "rat \<Rightarrow> int" where
  "flog2 q = (if 1 \<le> q then bitlen \<lfloor>q\<rfloor> - 1 else - bitlen (\<lceil>1 / q\<rceil> - 1))"

text \<open>Round half to even.\<close>

definition rne :: "rat \<Rightarrow> int" where
  "rne x = (let f = \<lfloor>x\<rfloor>; r = x - of_int f in
     if r < 1 / 2 then f else if 1 / 2 < r then f + 1 else if even f then f else f + 1)"

text \<open>
  A format has \<open>p\<close> significant bits, and the exponent of its last place is at least
  \<open>emin\<close> (the subnormal numbers).
\<close>

definition ulp_exp :: "int \<Rightarrow> int \<Rightarrow> rat \<Rightarrow> int" where
  "ulp_exp p emin q = max (flog2 \<bar>q\<bar> - (p - 1)) emin"

definition round_fmt :: "int \<Rightarrow> int \<Rightarrow> rat \<Rightarrow> rat" where
  "round_fmt p emin q =
     (if q = 0 then 0
      else (let u = 2 powi (ulp_exp p emin q) in of_int (rne (q / u)) * u))"

lemma bitlen_le_pow: "0 \<le> n \<Longrightarrow> n < 2 ^ nat (bitlen n)"
  by (cases "n = 0") (auto simp: bitlen_bounds)

lemma flog2_bounds_ge1:
  assumes "1 \<le> q"
  shows "2 powi flog2 q \<le> q" and "q < 2 powi (flog2 q + 1)"
proof -
  let ?n = "\<lfloor>q\<rfloor>"
  have n: "0 < ?n" using assms by simp
  have bl: "1 \<le> bitlen ?n" using n bitlen_eq_zero_iff [of ?n] bitlen_nonneg [of ?n] by auto
  have b: "2 ^ nat (bitlen ?n - 1) \<le> ?n" "?n < 2 ^ nat (bitlen ?n)"
    using bitlen_bounds [OF n] by auto
  have "(2::rat) powi flog2 q = of_int (2 ^ nat (bitlen ?n - 1))"
    using assms bl by (simp add: flog2_def power_int_nonneg_exp)
  also have "\<dots> \<le> of_int ?n" using b(1) by (simp only: of_int_le_iff)
  finally show "2 powi flog2 q \<le> q" by linarith
  have "q < of_int ?n + 1" by linarith
  also have "\<dots> \<le> of_int (2 ^ nat (bitlen ?n))"
    using b(2) by (metis add.commute of_int_1 of_int_add of_int_le_iff zless_imp_add1_zle)
  also have "\<dots> = (2::rat) powi (flog2 q + 1)"
    using assms bl by (simp add: flog2_def power_int_nonneg_exp)
  finally show "q < 2 powi (flog2 q + 1)" .
qed

lemma flog2_bounds_lt1:
  assumes "0 < q" and "q < 1"
  shows "2 powi flog2 q \<le> q" and "q < 2 powi (flog2 q + 1)"
proof -
  let ?c = "\<lceil>1 / q\<rceil> - 1"
  have inv: "1 < 1 / q" using assms by simp
  have c: "0 < ?c" using inv by linarith
  have bl: "1 \<le> bitlen ?c" using c bitlen_eq_zero_iff [of ?c] bitlen_nonneg [of ?c] by auto
  have b: "2 ^ nat (bitlen ?c - 1) \<le> ?c" "?c < 2 ^ nat (bitlen ?c)"
    using bitlen_bounds [OF c] by auto
  have f: "flog2 q = - bitlen ?c" using assms by (simp add: flog2_def)
  have "1 / q \<le> of_int \<lceil>1 / q\<rceil>" by simp
  also have "\<dots> \<le> of_int (2 ^ nat (bitlen ?c))" using b(2) by (simp only: of_int_le_iff)
  also have "\<dots> = (2::rat) powi bitlen ?c" using bl by (simp add: power_int_nonneg_exp)
  finally have up: "1 / q \<le> 2 powi bitlen ?c" .
  have "(2::rat) powi flog2 q = 1 / 2 powi bitlen ?c"
    by (simp add: f power_int_minus_divide)
  also have "\<dots> \<le> 1 / (1 / q)" using up inv assms by (intro divide_left_mono mult_pos_pos) auto
  finally show "2 powi flog2 q \<le> q" by simp
  have "(2::rat) powi (bitlen ?c - 1) = of_int (2 ^ nat (bitlen ?c - 1))"
    using bl by (simp add: power_int_nonneg_exp)
  also have "\<dots> \<le> of_int ?c" using b(1) by (simp only: of_int_le_iff)
  also have "\<dots> < 1 / q" by linarith
  finally have lo: "2 powi (bitlen ?c - 1) < 1 / q" .
  have "q = 1 / (1 / q)" by simp
  also have "\<dots> < 1 / 2 powi (bitlen ?c - 1)"
    using lo inv assms by (intro divide_strict_left_mono mult_pos_pos) auto
  also have "\<dots> = (2::rat) powi (flog2 q + 1)"
    by (simp add: f power_int_minus_divide [symmetric])
  finally show "q < 2 powi (flog2 q + 1)" .
qed

lemma flog2_bounds:
  assumes "0 < q"
  shows "2 powi flog2 q \<le> q" and "q < 2 powi (flog2 q + 1)"
  using flog2_bounds_ge1 [of q] flog2_bounds_lt1 [of q] assms by (cases "1 \<le> q"; simp)+

lemma flog2_mono:
  assumes "0 < x" and "x \<le> y"
  shows "flog2 x \<le> flog2 y"
proof (rule ccontr)
  assume "\<not> flog2 x \<le> flog2 y"
  then have "(2::rat) powi (flog2 y + 1) \<le> 2 powi flog2 x" by (intro power_int_increasing) auto
  with flog2_bounds(1) [of x] flog2_bounds(2) [of y] assms show False by linarith
qed

lemma flog2_less_pow:
  assumes "0 < q" and "q < 2 powi e"
  shows "flog2 q < e"
proof (rule ccontr)
  assume "\<not> flog2 q < e"
  then have "(2::rat) powi e \<le> 2 powi flog2 q" by (intro power_int_increasing) auto
  with flog2_bounds(1) [OF assms(1)] assms(2) show False by linarith
qed

lemma flog2_unique:
  assumes "2 powi e \<le> q" and "q < 2 powi (e + 1)"
  shows "flog2 q = e"
proof -
  have q: "0 < q" using zero_less_power_int [of "2::rat" e] assms(1) by linarith
  have "\<not> flog2 q < e"
    using power_int_increasing [of "flog2 q + 1" e "2::rat"] flog2_bounds(2) [OF q] assms(1) by force
  with flog2_less_pow [OF q assms(2)] show ?thesis by linarith
qed

lemma rne_of_int [simp]: "rne (of_int n) = n"
  by (simp add: rne_def)

lemma rne_cases: "rne x = \<lfloor>x\<rfloor> \<or> rne x = \<lfloor>x\<rfloor> + 1"
  by (simp add: rne_def Let_def)

lemma rne_err: "\<bar>of_int (rne x) - x\<bar> \<le> 1 / 2"
proof -
  have "of_int \<lfloor>x\<rfloor> \<le> x" "x < of_int \<lfloor>x\<rfloor> + 1" by linarith+
  then show ?thesis by (auto simp: rne_def Let_def abs_le_iff)
qed

lemma rne_near:
  assumes "\<bar>x - of_int n\<bar> < 1 / 2"
  shows "rne x = n"
proof -
  have "\<bar>of_int (rne x) - (of_int n :: rat)\<bar> < 1" using rne_err [of x] assms by linarith
  then have "\<bar>rne x - n\<bar> < 1" by linarith
  then show ?thesis by simp
qed

lemma rne_mono:
  assumes "x \<le> y"
  shows "rne x \<le> rne y"
proof (cases "\<lfloor>x\<rfloor> = \<lfloor>y\<rfloor>")
  case True
  with assms show ?thesis by (auto simp: rne_def Let_def)
next
  case False
  with assms have "\<lfloor>x\<rfloor> + 1 \<le> \<lfloor>y\<rfloor>" using floor_mono [OF assms] by linarith
  with rne_cases [of x] rne_cases [of y] show ?thesis by linarith
qed

lemma rne_minus: "rne (- x) = - rne x"
proof (cases "x \<in> \<int>")
  case True
  then obtain n where x: "x = of_int n" by (auto elim: Ints_cases)
  have "- x = of_int (- n)" by (simp add: x)
  then show ?thesis by (simp only: x rne_of_int)
next
  case False
  let ?f = "\<lfloor>x\<rfloor>"
  have fl: "\<lfloor>- x\<rfloor> = - ?f - 1" using False by (simp add: floor_minus ceiling_altdef) (metis Ints_of_int)
  have "x \<noteq> of_int ?f" using False by (metis Ints_of_int)
  then have "of_int ?f < x" "x < of_int ?f + 1" by linarith+
  then show ?thesis by (auto simp: rne_def Let_def fl)
qed

subsection \<open>Formats: the laws of rounding\<close>

text \<open>
  What holds of rounding in every format: it is odd, monotone, exact on the numbers of the
  format, and off by at most half a unit in the last place.
\<close>

locale float_format =
  fixes p :: int and emin :: int
  assumes prec: "1 < p"
begin

lemma round_zero [simp]: "round_fmt p emin 0 = 0"
  by (simp add: round_fmt_def)

lemma round_minus: "round_fmt p emin (- q) = - round_fmt p emin q"
  by (simp add: round_fmt_def ulp_exp_def Let_def rne_minus)

lemma round_upper:
  assumes "q \<noteq> 0" and "q \<le> of_int n * 2 powi ulp_exp p emin q"
  shows "round_fmt p emin q \<le> of_int n * 2 powi ulp_exp p emin q"
proof -
  let ?u = "2 powi ulp_exp p emin q :: rat"
  have "q / ?u \<le> of_int n" using assms(2) by (simp add: pos_divide_le_eq)
  then have "rne (q / ?u) \<le> n" using rne_mono rne_of_int by metis
  then show ?thesis using assms(1) by (simp add: round_fmt_def Let_def)
qed

lemma round_lower:
  assumes "q \<noteq> 0" and "of_int n * 2 powi ulp_exp p emin q \<le> q"
  shows "of_int n * 2 powi ulp_exp p emin q \<le> round_fmt p emin q"
proof -
  let ?u = "2 powi ulp_exp p emin q :: rat"
  have "of_int n \<le> q / ?u" using assms(2) by (simp add: pos_le_divide_eq)
  then have "n \<le> rne (q / ?u)" using rne_mono rne_of_int by metis
  then show ?thesis using assms(1) by (simp add: round_fmt_def Let_def)
qed

lemma pow_split:
  fixes u k :: int
  assumes "u \<le> k"
  shows "(2::rat) powi k = of_int (2 ^ nat (k - u)) * 2 powi u"
proof -
  have "(2::rat) powi k = 2 powi (k - u + u)" by simp
  also have "\<dots> = 2 powi (k - u) * 2 powi u" by (subst power_int_add) auto
  finally show ?thesis using assms by (simp add: power_int_nonneg_exp)
qed

lemma round_fixed:
  assumes q: "q = of_int m * 2 powi k" and m: "\<bar>m\<bar> < 2 ^ nat p" and k: "emin \<le> k"
  shows "round_fmt p emin q = q"
proof (cases "q = 0")
  case False
  let ?u = "ulp_exp p emin q"
  have "\<bar>q\<bar> = of_int \<bar>m\<bar> * 2 powi k" by (simp add: q abs_mult power_int_abs)
  also have "\<dots> < of_int (2 ^ nat p) * 2 powi k"
    using m by (intro mult_strict_right_mono) (auto simp only: of_int_less_iff zero_less_power_int)
  also have "\<dots> = 2 powi (p + k)" using pow_split [of k "p + k"] prec by simp
  finally have "flog2 \<bar>q\<bar> < p + k" using False by (intro flog2_less_pow) auto
  then have "?u \<le> k" using k by (simp add: ulp_exp_def)
  then have "q = of_int (m * 2 ^ nat (k - ?u)) * 2 powi ?u"
    using pow_split [of ?u k] by (simp add: q)
  then have "round_fmt p emin q \<le> q" "q \<le> round_fmt p emin q"
    using round_upper [OF False] round_lower [OF False] by (metis order_refl)+
  then show ?thesis by simp
qed simp

lemma round_mono_pos:
  assumes "0 < x" and "x \<le> y"
  shows "round_fmt p emin x \<le> round_fmt p emin y"
proof (cases "ulp_exp p emin x = ulp_exp p emin y")
  case True
  have "x / 2 powi ulp_exp p emin y \<le> y / 2 powi ulp_exp p emin y"
    using assms(2) by (simp add: divide_right_mono)
  then show ?thesis using assms True by (simp add: round_fmt_def Let_def rne_mono)
next
  case False
  let ?b = "(2::rat) powi flog2 y"
  have ly: "flog2 x \<le> flog2 y" using assms by (rule flog2_mono)
  with False assms have lt: "flog2 x + 1 \<le> flog2 y"
    by (cases "flog2 x = flog2 y") (auto simp: ulp_exp_def)
  have ux: "ulp_exp p emin x \<le> flog2 y" and uy: "ulp_exp p emin y = flog2 y - (p - 1)"
    using False ly assms prec by (auto simp: ulp_exp_def max_def split: if_splits)
  have "x \<le> ?b" using flog2_bounds(2) [OF assms(1)] power_int_increasing [OF lt, of "2::rat"] by simp
  then have "round_fmt p emin x \<le> ?b"
    unfolding pow_split [OF ux] using assms by (intro round_upper) auto
  also have "?b \<le> round_fmt p emin y"
  proof -
    have le: "ulp_exp p emin y \<le> flog2 y" using uy prec by simp
    show ?thesis
      unfolding pow_split [OF le]
      by (rule round_lower) (use flog2_bounds(1) [of y] assms pow_split [OF le] in auto)
  qed
  finally show ?thesis .
qed

lemma round_nonneg:
  assumes "0 \<le> q"
  shows "0 \<le> round_fmt p emin q"
proof (cases "q = 0")
  case False
  with assms show ?thesis using round_lower [of q 0] by simp
qed simp

lemma round_mono:
  assumes "x \<le> y"
  shows "round_fmt p emin x \<le> round_fmt p emin y"
proof -
  consider "0 < x" | "x \<le> 0" "0 \<le> y" | "y < 0" by linarith
  then show ?thesis
  proof cases
    case 1
    then show ?thesis using assms by (rule round_mono_pos)
  next
    case 2
    then show ?thesis using round_nonneg [of y] round_nonneg [of "- x"] by (simp add: round_minus)
  next
    case 3
    then show ?thesis using round_mono_pos [of "- y" "- x"] assms by (simp add: round_minus)
  qed
qed

lemma round_abs: "\<bar>round_fmt p emin q\<bar> = round_fmt p emin \<bar>q\<bar>"
proof (cases "0 \<le> q")
  case False
  then have "\<bar>q\<bar> = - q" "0 \<le> round_fmt p emin (- q)" by (auto intro: round_nonneg)
  then show ?thesis by (simp add: round_minus)
qed (simp add: round_nonneg)

lemma round_err:
  assumes "\<bar>q\<bar> < 2 powi e"
  shows "\<bar>round_fmt p emin q - q\<bar> \<le> 2 powi (max (e - p) emin) / 2"
proof (cases "q = 0")
  case False
  let ?k = "ulp_exp p emin q" and ?u = "2 powi ulp_exp p emin q :: rat"
  have "flog2 \<bar>q\<bar> < e" using False assms by (intro flog2_less_pow) auto
  then have k: "?k \<le> max (e - p) emin" by (simp add: ulp_exp_def)
  have "round_fmt p emin q - q = (of_int (rne (q / ?u)) - q / ?u) * ?u"
    using False by (simp add: round_fmt_def Let_def left_diff_distrib)
  then have "\<bar>round_fmt p emin q - q\<bar> = \<bar>of_int (rne (q / ?u)) - q / ?u\<bar> * ?u"
    by (simp add: abs_mult power_int_abs)
  also have "\<dots> \<le> 1 / 2 * ?u" by (intro mult_right_mono rne_err) simp
  also have "\<dots> \<le> 2 powi (max (e - p) emin) / 2"
    using power_int_increasing [OF k, of "2::rat"] by simp
  finally show ?thesis .
qed simp

lemma round_near:
  assumes e: "2 powi e \<le> \<bar>q\<bar>" "\<bar>q\<bar> < 2 powi (e + 1)" and u: "u = max (e - (p - 1)) emin"
    and n: "\<bar>q - of_int n * 2 powi u\<bar> < 2 powi u / 2"
  shows "round_fmt p emin q = of_int n * 2 powi u"
proof -
  have q: "q \<noteq> 0" using e(1) zero_less_power_int [of "2::rat" e] by (auto simp del: zero_less_power_int)
  have k: "ulp_exp p emin q = u" by (simp add: ulp_exp_def flog2_unique [OF e] u)
  have "q / 2 powi u - of_int n = (q - of_int n * 2 powi u) / 2 powi u"
    by (simp add: diff_divide_distrib)
  then have "\<bar>q / 2 powi u - of_int n\<bar> = \<bar>q - of_int n * 2 powi u\<bar> / 2 powi u"
    by (simp add: abs_divide power_int_abs)
  also have "\<dots> < 1 / 2" using n by (simp add: divide_less_eq)
  finally have "rne (q / 2 powi u) = n" by (rule rne_near)
  with q show ?thesis by (simp add: round_fmt_def k Let_def)
qed

text \<open>A number of the format absorbs the subtraction of much less than its last place.\<close>

lemma round_absorb:
  assumes q: "q = of_int m * 2 powi k" "\<bar>m\<bar> < 2 ^ nat p" "emin \<le> k"
    and d: "0 \<le> d" "d < 2 powi (e - p)" and e: "2 powi e \<le> q - d"
  shows "round_fmt p emin (q - d) = q"
proof -
  let ?x = "q - d" and ?f = "flog2 (q - d)"
  let ?u = "max (?f - (p - 1)) emin"
  have pos: "0 < ?x" using e zero_less_power_int [of "2::rat" e] by linarith
  have "\<bar>q\<bar> = of_int \<bar>m\<bar> * 2 powi k" by (simp add: q(1) abs_mult power_int_abs)
  also have "\<dots> < of_int (2 ^ nat p) * 2 powi k"
    using q(2) by (intro mult_strict_right_mono) (auto simp only: of_int_less_iff zero_less_power_int)
  also have "\<dots> = 2 powi (p + k)" using pow_split [of k "p + k"] prec by simp
  finally have "?x < 2 powi (p + k)" using d(1) by linarith
  then have "?f < p + k" using pos by (intro flog2_less_pow)
  then have u: "?u \<le> k" using q(3) by simp
  have n: "of_int (m * 2 ^ nat (k - ?u)) * 2 powi ?u = q"
    using pow_split [OF u] by (simp add: q(1))
  have "e \<le> ?f"
    using flog2_bounds(2) [OF pos] e power_int_increasing [of "?f + 1" e "2::rat"] by force
  then have "(2::rat) powi (e - p + 1) \<le> 2 powi ?u" by (intro power_int_increasing) auto
  moreover have "(2::rat) powi (e - p + 1) = 2 * 2 powi (e - p)" by (simp add: power_int_add)
  ultimately have "\<bar>?x - q\<bar> < 2 powi ?u / 2" using d by simp
  then show ?thesis
    using round_near [of ?f ?x ?u "m * 2 ^ nat (k - ?u)"] flog2_bounds [OF pos] pos n by simp
qed

text \<open>Every rounded number has a significand and an exponent of the format.\<close>

lemma round_rep:
  "\<exists>m k. round_fmt p emin q = of_int m * 2 powi k \<and> \<bar>m\<bar> < 2 ^ nat p \<and> ulp_exp p emin q \<le> k"
proof (cases "q = 0")
  case False
  let ?u = "ulp_exp p emin q" and ?N = "2 ^ nat p :: int"
  let ?n = "rne (q / 2 powi ?u)"
  have r: "round_fmt p emin q = of_int ?n * 2 powi ?u"
    using False by (simp add: round_fmt_def Let_def)
  have "flog2 \<bar>q\<bar> + 1 \<le> p + ?u" by (simp add: ulp_exp_def)
  then have "(2::rat) powi (flog2 \<bar>q\<bar> + 1) \<le> 2 powi (p + ?u)" by (intro power_int_increasing) auto
  also have "\<dots> = of_int ?N * 2 powi ?u" using pow_split [of ?u "p + ?u"] prec by simp
  finally have "\<bar>q\<bar> < of_int ?N * 2 powi ?u" using flog2_bounds(2) [of "\<bar>q\<bar>"] False by simp
  then have "q / 2 powi ?u \<le> of_int ?N" "of_int (- ?N) \<le> q / 2 powi ?u"
    by (simp_all add: pos_divide_le_eq pos_le_divide_eq abs_less_iff del: of_int_power)
  then have n: "?n \<le> ?N" "- ?N \<le> ?n"
    using rne_mono [of "q / 2 powi ?u" "of_int ?N"] rne_mono [of "of_int (- ?N)" "q / 2 powi ?u"]
    by (simp_all only: rne_of_int)
  show ?thesis
  proof (cases "\<bar>?n\<bar> < ?N")
    case True
    then show ?thesis using r by blast
  next
    case False
    then have "\<bar>?n\<bar> = ?N" using n by linarith
    then obtain s where s: "?n = s * ?N" "\<bar>s\<bar> = 1" by (cases "0 \<le> ?n") (force intro: that [of 1] that [of "- 1"])+
    have "nat p = Suc (nat (p - 1))" using prec by simp
    then have N: "?N = 2 ^ nat (p - 1) * 2" by simp
    have "round_fmt p emin q = of_int (s * 2 ^ nat (p - 1)) * 2 powi (?u + 1)"
      unfolding r s(1) N by (simp add: power_int_add)
    moreover have "\<bar>s * 2 ^ nat (p - 1)\<bar> < ?N"
      using N s(2) by (simp add: abs_mult)
    ultimately show ?thesis by (intro exI conjI) auto
  qed
qed (use round_fixed in \<open>auto intro!: exI [of _ 0] exI [of _ "ulp_exp p emin q"]\<close>)

text \<open>The value of the format just above or below bounds a rounded result.\<close>

lemma round_between:
  assumes "a \<le> q" and "q \<le> b" and "round_fmt p emin a = a" and "round_fmt p emin b = b"
  shows "a \<le> round_fmt p emin q" and "round_fmt p emin q \<le> b"
  using round_mono [OF assms(1)] round_mono [OF assms(2)] assms(3,4) by simp_all

end

interpretation f64: float_format 53 "-1074"
  by unfold_locales simp

interpretation f32: float_format 24 "-149"
  by unfold_locales simp

subsection \<open>Values and operations\<close>

datatype flt = NaN | PInf | NInf | Fin rat

type_synonym float64 = flt
type_synonym float32 = flt

definition inf_signed :: "bool \<Rightarrow> flt" where
  "inf_signed neg = (if neg then NInf else PInf)"

definition round_flt :: "int \<Rightarrow> int \<Rightarrow> int \<Rightarrow> rat \<Rightarrow> flt" where
  "round_flt p emin emax q =
     (let r = round_fmt p emin q
      in if r = 0 \<or> flog2 \<bar>r\<bar> \<le> emax then Fin r else inf_signed (q < 0))"

lemma flog2_le_iff: "0 < q \<Longrightarrow> flog2 q \<le> e \<longleftrightarrow> q < 2 powi (e + 1)"
  using flog2_less_pow [of q "e + 1"] flog2_bounds(2) [of q]
    power_int_increasing [of "flog2 q + 1" "e + 1" "2::rat"]
  by force

lemma round_flt_overflow:
  "round_flt p emin emax q =
     (if \<bar>round_fmt p emin q\<bar> < 2 powi (emax + 1) then Fin (round_fmt p emin q)
      else inf_signed (q < 0))"
  by (cases "round_fmt p emin q = 0") (auto simp: round_flt_def Let_def flog2_le_iff)

definition rnd64 :: "rat \<Rightarrow> float64" where
  "rnd64 = round_flt 53 (-1074) 1023"

definition rnd32 :: "rat \<Rightarrow> float32" where
  "rnd32 = round_flt 24 (-149) 127"

fun fneg :: "flt \<Rightarrow> flt" where
  "fneg NaN = NaN"
| "fneg PInf = NInf"
| "fneg NInf = PInf"
| "fneg (Fin q) = Fin (- q)"

fun fadd :: "(rat \<Rightarrow> flt) \<Rightarrow> flt \<Rightarrow> flt \<Rightarrow> flt" where
  "fadd rnd (Fin a) (Fin b) = rnd (a + b)"
| "fadd rnd NaN y = NaN"
| "fadd rnd x NaN = NaN"
| "fadd rnd PInf NInf = NaN"
| "fadd rnd NInf PInf = NaN"
| "fadd rnd PInf y = PInf"
| "fadd rnd NInf y = NInf"
| "fadd rnd x PInf = PInf"
| "fadd rnd x NInf = NInf"

definition fsub :: "(rat \<Rightarrow> flt) \<Rightarrow> flt \<Rightarrow> flt \<Rightarrow> flt" where
  "fsub rnd x y = fadd rnd x (fneg y)"

fun fmul :: "(rat \<Rightarrow> flt) \<Rightarrow> flt \<Rightarrow> flt \<Rightarrow> flt" where
  "fmul rnd (Fin a) (Fin b) = rnd (a * b)"
| "fmul rnd NaN y = NaN"
| "fmul rnd x NaN = NaN"
| "fmul rnd (Fin a) PInf = (if a = 0 then NaN else inf_signed (a < 0))"
| "fmul rnd (Fin a) NInf = (if a = 0 then NaN else inf_signed (0 < a))"
| "fmul rnd PInf (Fin b) = (if b = 0 then NaN else inf_signed (b < 0))"
| "fmul rnd NInf (Fin b) = (if b = 0 then NaN else inf_signed (0 < b))"
| "fmul rnd PInf PInf = PInf"
| "fmul rnd NInf NInf = PInf"
| "fmul rnd PInf NInf = NInf"
| "fmul rnd NInf PInf = NInf"

text \<open>The comparison \<open>x < y\<close> is false when an operand is NaN.\<close>

fun flt_less :: "flt \<Rightarrow> flt \<Rightarrow> bool" where
  "flt_less (Fin a) (Fin b) = (a < b)"
| "flt_less NInf (Fin b) = True"
| "flt_less NInf PInf = True"
| "flt_less (Fin a) PInf = True"
| "flt_less x y = False"

text \<open>\<open>x != 0\<close> is true of NaN.\<close>

fun flt_nonzero :: "flt \<Rightarrow> bool" where
  "flt_nonzero (Fin a) = (a \<noteq> 0)"
| "flt_nonzero x = True"

text \<open>\<open>float32(x)\<close> of a \<open>float64\<close> rounds; \<open>float64(x)\<close> of a \<open>float32\<close> is exact.\<close>

fun to_float32 :: "float64 \<Rightarrow> float32" where
  "to_float32 (Fin a) = rnd32 a"
| "to_float32 x = x"

text \<open>
  \<open>d.Seconds()\<close> of a nonnegative Duration: whole seconds plus the fraction divided by 1e9.
\<close>

definition duration_Seconds :: "duration \<Rightarrow> float64" where
  "duration_Seconds d =
     fadd rnd64 (rnd64 (of_int (go_div d Second)))
       (rnd64 (of_int (d - Second * go_div d Second) / 1000000000))"

end
