(* ===== verification/Containers.thy ===== *)
theory Containers
  imports Prelude
begin

text \<open>
  The two containers the servers are built from, each behind an interface: Go maps
  (\<open>map[uuid.UUID]*PlayerState\<close> and the like), kept here as association lists with
  distinct keys, and buffered channels used with \<open>select\<close> and a \<open>default\<close> case. The
  order in which \<open>range\<close> visits a Go map is not specified, so an operation that iterates
  takes the visiting order as an argument.
\<close>

subsection \<open>Go maps\<close>

type_synonym ('k, 'v) gomap = "('k \<times> 'v) list"

definition gm_wf :: "('k, 'v) gomap \<Rightarrow> bool" where
  "gm_wf m \<longleftrightarrow> distinct (map fst m)"

definition gm_get :: "('k, 'v) gomap \<Rightarrow> 'k \<Rightarrow> 'v option" where
  "gm_get m k = map_of m k"

definition gm_put :: "'k \<Rightarrow> 'v \<Rightarrow> ('k, 'v) gomap \<Rightarrow> ('k, 'v) gomap" where
  "gm_put k v m = AList.update k v m"

definition gm_del :: "'k \<Rightarrow> ('k, 'v) gomap \<Rightarrow> ('k, 'v) gomap" where
  "gm_del k m = AList.delete k m"

definition gm_len :: "('k, 'v) gomap \<Rightarrow> nat" where
  "gm_len m = length m"

definition gm_keys :: "('k, 'v) gomap \<Rightarrow> 'k list" where
  "gm_keys m = map fst m"

text \<open>A visiting order of \<open>range m\<close>: every key once.\<close>

definition gm_order :: "'k list \<Rightarrow> ('k, 'v) gomap \<Rightarrow> bool" where
  "gm_order ord m \<longleftrightarrow> distinct ord \<and> set ord = set (gm_keys m)"

text \<open>The contract of a map, and what its clients need of it.\<close>

locale go_map =
  fixes get :: "'m \<Rightarrow> 'k \<Rightarrow> 'v option"
    and put :: "'k \<Rightarrow> 'v \<Rightarrow> 'm \<Rightarrow> 'm"
    and del :: "'k \<Rightarrow> 'm \<Rightarrow> 'm"
    and len :: "'m \<Rightarrow> nat"
    and nil :: 'm
    and wf :: "'m \<Rightarrow> bool"
  assumes wf_nil: "wf nil"
    and wf_put: "wf m \<Longrightarrow> wf (put k v m)"
    and wf_del: "wf m \<Longrightarrow> wf (del k m)"
    and get_nil: "get nil k = None"
    and get_put: "get (put k v m) = (get m)(k \<mapsto> v)"
    and get_del: "wf m \<Longrightarrow> get (del k m) = (get m)(k := None)"
    and finite_dom: "finite (dom (get m))"
    and len_card: "wf m \<Longrightarrow> len m = card (dom (get m))"
begin

lemma get_put_same: "get (put k v m) k = Some v"
  by (simp add: get_put)

lemma get_put_other: "k' \<noteq> k \<Longrightarrow> get (put k v m) k' = get m k'"
  by (simp add: get_put)

lemma len_put: "wf m \<Longrightarrow> len (put k v m) = (if get m k = None then Suc (len m) else len m)"
  using finite_dom [of m] by (auto simp: len_card wf_put get_put domIff insert_absorb)

lemma len_del: "wf m \<Longrightarrow> len (del k m) = (if get m k = None then len m else len m - 1)"
  using finite_dom [of m] by (auto simp: len_card wf_del get_del domIff)

lemma len_del_le: "wf m \<Longrightarrow> len (del k m) \<le> len m"
  by (simp add: len_del)

lemma len_zero_iff: "wf m \<Longrightarrow> len m = 0 \<longleftrightarrow> (\<forall>k. get m k = None)"
  using finite_dom [of m] by (auto simp: len_card)

end

lemma gm_wf_Nil [simp]: "gm_wf []"
  by (simp add: gm_wf_def)

lemma gm_wf_put [simp, keeps_intros]: "gm_wf m \<Longrightarrow> gm_wf (gm_put k v m)"
  by (simp add: gm_wf_def gm_put_def distinct_update)

lemma gm_wf_del [simp, keeps_intros]: "gm_wf m \<Longrightarrow> gm_wf (gm_del k m)"
  by (simp add: gm_wf_def gm_del_def distinct_delete)

lemma gm_len_card: "gm_wf m \<Longrightarrow> gm_len m = card (dom (gm_get m))"
  using distinct_card [of "map fst m"]
  by (simp add: gm_len_def gm_wf_def gm_get_def [abs_def] dom_map_of_conv_image_fst)

interpretation gm: go_map gm_get gm_put gm_del gm_len "[]" gm_wf
proof unfold_locales
  show "gm_get (gm_put k v m) = (gm_get m)(k \<mapsto> v)" for k :: 'k and v :: 'v and m
    by (simp add: gm_get_def [abs_def] gm_put_def update_conv')
  show "gm_get (gm_del k m) = (gm_get m)(k := None)" for k :: 'k and m :: "('k, 'v) gomap"
    by (simp add: gm_get_def [abs_def] gm_del_def delete_conv')
qed (simp_all add: gm_len_card gm_get_def [abs_def] finite_dom_map_of)

lemmas gm_gets [simp] = gm.get_put_same gm.get_put_other gm.get_nil

lemma gm_get_del [simp]: "gm_wf m \<Longrightarrow> gm_get (gm_del k m) k' = (if k' = k then None else gm_get m k')"
  by (simp add: gm.get_del)

lemma gm_in_keys: "k \<in> set (gm_keys m) \<longleftrightarrow> gm_get m k \<noteq> None"
  by (auto simp: gm_keys_def gm_get_def map_of_eq_None_iff)

lemma gm_order_dom: "gm_order ord m \<Longrightarrow> set ord = dom (gm_get m)"
  by (rule set_eqI) (simp add: gm_order_def gm_in_keys domIff)

lemma gm_order_keys: "gm_wf m \<Longrightarrow> gm_order (gm_keys m) m"
  by (simp add: gm_order_def gm_keys_def gm_wf_def)

lemma gm_order_length: "gm_wf m \<Longrightarrow> gm_order ord m \<Longrightarrow> length ord = gm_len m"
  using distinct_card [of ord] gm_order_dom [of ord m]
  by (simp add: gm_order_def gm_len_card)

subsection \<open>Buffered channels\<close>

text \<open>
  A channel of capacity \<open>cap\<close> with the messages it holds. \<open>select { case c <- m: default: }\<close>
  drops the message when the buffer is full; a receive with a \<open>default\<close> case takes the
  oldest message, or nothing.
\<close>

record 'a chan =
  ch_cap :: nat
  ch_buf :: "'a list"

definition ch_make :: "nat \<Rightarrow> 'a chan" where
  "ch_make n = \<lparr>ch_cap = n, ch_buf = []\<rparr>"

definition ch_send :: "'a \<Rightarrow> 'a chan \<Rightarrow> 'a chan" where
  "ch_send m c = (if length (ch_buf c) < ch_cap c then c\<lparr>ch_buf := ch_buf c @ [m]\<rparr> else c)"

definition ch_recv :: "'a chan \<Rightarrow> ('a \<times> 'a chan) option" where
  "ch_recv c = (case ch_buf c of [] \<Rightarrow> None | m # ms \<Rightarrow> Some (m, c\<lparr>ch_buf := ms\<rparr>))"

definition ch_wf :: "'a chan \<Rightarrow> bool" where
  "ch_wf c \<longleftrightarrow> length (ch_buf c) \<le> ch_cap c"

text \<open>The contract: a bounded queue seen as the list of its messages.\<close>

locale go_chan =
  fixes send :: "'a \<Rightarrow> 'c \<Rightarrow> 'c"
    and recv :: "'c \<Rightarrow> ('a \<times> 'c) option"
    and abs :: "'c \<Rightarrow> 'a list"
    and cap :: "'c \<Rightarrow> nat"
    and wf :: "'c \<Rightarrow> bool"
  assumes wf_send: "wf c \<Longrightarrow> wf (send m c)"
    and abs_send: "abs (send m c) = (if length (abs c) < cap c then abs c @ [m] else abs c)"
    and cap_send: "cap (send m c) = cap c"
    and wf_recv: "wf c \<Longrightarrow> recv c = Some (m, c') \<Longrightarrow> wf c'"
    and recv_empty: "recv c = None \<longleftrightarrow> abs c = []"
    and recv_first: "recv c = Some (m, c') \<Longrightarrow> abs c = m # abs c' \<and> cap c' = cap c"
    and wf_bound: "wf c \<Longrightarrow> length (abs c) \<le> cap c"
begin

lemma send_bounded: "wf c \<Longrightarrow> length (abs (send m c)) \<le> cap c"
  using wf_bound [OF wf_send, of c m] by (simp add: cap_send)

lemma send_full_drops: "length (abs c) = cap c \<Longrightarrow> abs (send m c) = abs c"
  by (simp add: abs_send)

lemma recv_shortens: "recv c = Some (m, c') \<Longrightarrow> length (abs c') < length (abs c)"
  by (drule recv_first) simp

lemma fifo: "abs c = m # ms \<Longrightarrow> \<exists>c'. recv c = Some (m, c') \<and> abs c' = ms"
  by (cases "recv c") (auto simp: recv_empty dest: recv_first)

end

interpretation ch: go_chan ch_send ch_recv ch_buf ch_cap ch_wf
  by unfold_locales
    (auto simp: ch_send_def ch_recv_def ch_wf_def split: list.splits)

lemma ch_make_simps [simp]: "ch_buf (ch_make n) = []" "ch_cap (ch_make n) = n" "ch_wf (ch_make n)"
  by (simp_all add: ch_make_def ch_wf_def)

end
