(* ===== verification/Track.thy ===== *)
theory Track
  imports GoFloat Containers
begin

text \<open>
  \<open>internal/race/track.go\<close>: tracks, waypoints and vectors; the track the game server
  plays every match on (\<open>buildTrackLookup\<close> of \<open>cmd/game-server/main.go\<close>). Reading a
  track's layout blob is \<open>json.Unmarshal\<close>, a parameter that returns the decoded track
  or an error.
\<close>

record Vec3 =
  vec_X :: float32
  vec_Y :: float32
  vec_Z :: float32

record Waypoint =
  wp_X :: float32
  wp_Y :: float32
  wp_Z :: float32

record Track =
  trackID :: uuid
  trackName :: string
  Waypoints :: "Waypoint list"
  Spawns :: "Vec3 list"

definition zero_Track :: Track where
  "zero_Track = \<lparr>trackID = uuid_Nil, trackName = [], Waypoints = [], Spawns = []\<rparr>"

datatype track_error = ParseLayout string | NoWaypoints string

definition ParseTrackLayout ::
    "(bytes \<Rightarrow> string + Track) \<Rightarrow> uuid \<Rightarrow> string \<Rightarrow> bytes \<Rightarrow> track_error + Track" where
  "ParseTrackLayout unmarshal tid name raw =
     (case (if 0 < length raw then unmarshal raw else Inr zero_Track) of
        Inl err \<Rightarrow> Inl (ParseLayout err)
      | Inr t \<Rightarrow>
          let t = t\<lparr>trackID := tid, trackName := name\<rparr>
          in if length (Waypoints t) = 0 then Inl (NoWaypoints name) else Inr t)"

definition Len :: "Track \<Rightarrow> nat" where
  "Len t = length (Waypoints t)"

text \<open>The remainder by a zero length is a Go run-time panic.\<close>

definition NextCheckpoint :: "Track \<Rightarrow> nat \<Rightarrow> nat go" where
  "NextCheckpoint t prev =
     (if Len t = 0 then Panics ''integer divide by zero'' else Returns ((prev + 1) mod Len t))"

definition lenOr1 :: "Waypoint list \<Rightarrow> nat" where
  "lenOr1 ws = (if length ws = 0 then 1 else length ws)"

definition spawn :: "Track option \<Rightarrow> nat \<Rightarrow> Vec3" where
  "spawn t idx =
     (case t of
        None \<Rightarrow> \<lparr>vec_X = fmul rnd32 (rnd32 (of_nat idx)) (Fin 2), vec_Y = Fin 0, vec_Z = Fin 0\<rparr>
      | Some t \<Rightarrow>
          if length (Spawns t) = 0
          then \<lparr>vec_X = fmul rnd32 (rnd32 (of_nat idx)) (Fin 2), vec_Y = Fin 0, vec_Z = Fin 0\<rparr>
          else Spawns t ! (idx mod length (Spawns t)))"

definition wp_at :: "rat \<Rightarrow> rat \<Rightarrow> Waypoint" where
  "wp_at x z = \<lparr>wp_X = Fin x, wp_Y = Fin 0, wp_Z = Fin z\<rparr>"

text \<open>
  The first row of \<open>tracks\<close> by name gives the id and the name; with no row, or no
  database, a fixed id and name stand in. The layout is always the five-metre square.
\<close>

definition fallback_track_id :: uuid where
  "fallback_track_id = 0xcccccccccccccccccccccccccccccccc"

definition buildTrackLookup :: "(uuid \<times> string) option \<Rightarrow> uuid \<Rightarrow> string + Track" where
  "buildTrackLookup row matchID =
     (let (finalID, finalName) =
        (case row of
           Some (tid, name) \<Rightarrow>
             if tid = uuid_Nil then (fallback_track_id, ''MVP-Loop'') else (tid, name)
         | None \<Rightarrow> (fallback_track_id, ''MVP-Loop''))
      in Inr \<lparr>trackID = finalID, trackName = finalName,
           Waypoints = [wp_at 0 0, wp_at 5 0, wp_at 5 5, wp_at 0 5], Spawns = []\<rparr>)"

subsection \<open>Lemmas\<close>

lemma ParseTrackLayout_ok:
  "ParseTrackLayout um tid name raw = Inr t \<Longrightarrow>
     trackID t = tid \<and> trackName t = name \<and> 0 < Len t"
  by (auto simp: ParseTrackLayout_def Len_def Let_def split: sum.splits if_splits)

lemma ParseTrackLayout_empty: "ParseTrackLayout um tid name [] = Inl (NoWaypoints name)"
  by (simp add: ParseTrackLayout_def zero_Track_def)

lemma NextCheckpoint_less: "NextCheckpoint t i = Returns j \<Longrightarrow> j < Len t"
  by (auto simp: NextCheckpoint_def split: if_splits)

lemma lenOr1_pos [simp]: "0 < lenOr1 ws"
  by (simp add: lenOr1_def)

lemma lenOr1_Len: "0 < Len t \<Longrightarrow> lenOr1 (Waypoints t) = Len t"
  by (simp add: lenOr1_def Len_def)

lemma spawn_in_Spawns: "Spawns t \<noteq> [] \<Longrightarrow> spawn (Some t) i \<in> set (Spawns t)"
  by (simp add: spawn_def)

lemma buildTrackLookup_track:
  "\<exists>t. buildTrackLookup row m = Inr t \<and> Len t = 4 \<and> trackID t \<noteq> uuid_Nil"
  by (auto simp: buildTrackLookup_def Len_def fallback_track_id_def Let_def split: option.splits)

text \<open>
  Following \<open>NextCheckpoint\<close> from a waypoint visits the waypoints in their cyclic order,
  so after one lap (as many checkpoints as there are waypoints) it is back.
\<close>

fun checkpoint_after :: "Track \<Rightarrow> nat \<Rightarrow> nat \<Rightarrow> nat go" where
  "checkpoint_after t prev 0 = Returns prev"
| "checkpoint_after t prev (Suc n) =
     (case NextCheckpoint t prev of
        Panics e \<Rightarrow> Panics e
      | Returns i \<Rightarrow> checkpoint_after t i n)"

lemma checkpoint_after_mod:
  "prev < Len t \<Longrightarrow> checkpoint_after t prev n = Returns ((prev + n) mod Len t)"
  by (induction n arbitrary: prev) (simp_all add: NextCheckpoint_def mod_add_left_eq)

end
