(* ===== verification/RaceTypes.thy ===== *)
theory RaceTypes
  imports Track
begin

text \<open>
  \<open>internal/race/state.go\<close>, the message types of \<open>race.go\<close> and the types of
  \<open>events.go\<close>: the status of a race, the events its loop produces, a player's input and
  state. Ticks are \<open>uint64\<close>, sequence numbers \<open>uint32\<close>. Lap counts and waypoint
  indices, Go ints that start at 0 and only count up or wrap at the track's length, are \<open>nat\<close>.
\<close>

datatype RaceStatus = StatusPending | StatusStarting | StatusInProgress | StatusFinished

fun status_code :: "RaceStatus \<Rightarrow> nat" where
  "status_code StatusPending = 0"
| "status_code StatusStarting = 1"
| "status_code StatusInProgress = 2"
| "status_code StatusFinished = 3"

text \<open>\<open>String()\<close>; the \<open>default\<close> branch has no status of the type.\<close>

fun status_String :: "RaceStatus \<Rightarrow> string" where
  "status_String StatusPending = ''pending''"
| "status_String StatusStarting = ''starting''"
| "status_String StatusInProgress = ''in_progress''"
| "status_String StatusFinished = ''finished''"

lemma status_code_inject: "status_code s = status_code t \<longleftrightarrow> s = t"
  by (cases s; cases t) simp_all

text \<open>A race moves along its statuses in the order of their codes.\<close>

instantiation RaceStatus :: linorder
begin

definition less_eq_RaceStatus :: "RaceStatus \<Rightarrow> RaceStatus \<Rightarrow> bool" where
  "less_eq_RaceStatus s t \<longleftrightarrow> status_code s \<le> status_code t"

definition less_RaceStatus :: "RaceStatus \<Rightarrow> RaceStatus \<Rightarrow> bool" where
  "less_RaceStatus s t \<longleftrightarrow> status_code s < status_code t"

instance
  by intro_classes
    (auto simp: less_eq_RaceStatus_def less_RaceStatus_def status_code_inject)

end

lemmas status_le = less_eq_RaceStatus_def less_RaceStatus_def

lemma Finished_greatest [simp]: "s \<le> StatusFinished"
  by (cases s) (simp_all add: status_le)

lemma Pending_least [simp]: "StatusPending \<le> s"
  by (simp add: status_le)

definition DefaultTickHz :: int where "DefaultTickHz = 30"

definition DefaultMaxPlayers :: int where "DefaultMaxPlayers = 4"

definition DefaultMaxLaps :: int where "DefaultMaxLaps = 1"

definition CountdownMillis :: int where "CountdownMillis = 3000"

definition EmptyRaceReapAfter :: duration where "EmptyRaceReapAfter = 30 * Second"

record CarSpec =
  MaxAccel :: float64
  MaxSteerRate :: float64
  MaxSpeed :: float64

record PlayerInput =
  Throttle :: float32
  Brake :: float32
  Steering :: float32

definition zero_input :: PlayerInput where
  "zero_input = \<lparr>Throttle = Fin 0, Brake = Fin 0, Steering = Fin 0\<rparr>"

record PlayerState =
  PlayerID :: uuid
  Position :: Vec3
  Velocity :: float64
  Heading :: float64
  LastInput :: PlayerInput
  LastInputTick :: "64 word"
  Lap :: nat
  LastCheckpoint :: nat
  NextCp :: nat
  Finished :: bool
  FinishPos :: nat
  FinishTime :: gotime
  LapStartedAt :: gotime
  BestLapMs :: int
  StartedAt :: gotime

record RaceResult =
  rr_PlayerID :: uuid
  rr_Position :: nat
  rr_TotalTimeMs :: int
  rr_BestLapMs :: int

datatype Event =
    CheckpointPassedEvt uuid nat "64 word"
  | LapCompletedEvt uuid nat int "64 word"
  | RaceFinishedEvt uuid "RaceResult list"
  | PlayerJoinedEvt uuid gotime
  | PlayerLeftEvt uuid string
  | RaceStartingEvt

record JoinMsg =
  jm_PlayerID :: uuid
  jm_CarSpec :: CarSpec

record LeaveMsg =
  lm_PlayerID :: uuid
  lm_Reason :: string

record InputMsg =
  im_PlayerID :: uuid
  im_Input :: PlayerInput
  im_Sequence :: "32 word"

end
