(* ===== verification/Physics.thy ===== *)
theory Physics
  imports RaceTypes
begin

text \<open>
  \<open>internal/race/physics.go\<close>: the kinematic step of one car. \<open>math.Cos\<close>,
  \<open>math.Sin\<close> and \<open>math.Hypot\<close>, whose results Go does not fix bit for bit, are the
  fields of a record \<open>mathlib\<close>; everything else is rounded arithmetic of
  \<open>GoFloat\<close>. The loops of \<open>wrapAngle\<close> may not end, so \<open>wrapAngle\<close> and \<open>Step\<close>
  return an option, with \<open>None\<close> for a call that never returns.
\<close>

record mathlib =
  Cos :: "float64 \<Rightarrow> float64"
  Sin :: "float64 \<Rightarrow> float64"
  Hypot :: "float64 \<Rightarrow> float64 \<Rightarrow> float64"

text \<open>\<open>Hypot\<close> documents NaN for a NaN argument unless the other one is infinite.\<close>

definition hypot_doc :: "mathlib \<Rightarrow> bool" where
  "hypot_doc M \<longleftrightarrow> (\<forall>q. q \<noteq> PInf \<and> q \<noteq> NInf \<longrightarrow> Hypot M NaN q = NaN \<and> Hypot M q NaN = NaN)"

text \<open>The constants: \<open>math.Pi\<close> to the digits of the package, converted to \<open>float64\<close>.\<close>

definition math_Pi :: rat where
  "math_Pi = 314159265358979323846264338327950288419716939937510582097494459 / 10 ^ 62"

definition Pi64 :: float64 where
  "Pi64 = rnd64 math_Pi"

definition TwoPi64 :: float64 where
  "TwoPi64 = rnd64 (2 * math_Pi)"

definition DefaultSpec :: CarSpec where
  "DefaultSpec = \<lparr>MaxAccel = Fin 12, MaxSteerRate = Fin (3 / 2), MaxSpeed = Fin 30\<rparr>"

definition clampF :: "float64 \<Rightarrow> float64 \<Rightarrow> float64 \<Rightarrow> float64" where
  "clampF v lo hi = (if flt_less v lo then lo else if flt_less hi v then hi else v)"

text \<open>\<open>for a > math.Pi { a -= 2 * math.Pi }\<close>, then the loop upwards.\<close>

partial_function (option) wrap_down :: "float64 \<Rightarrow> float64 option" where
  "wrap_down a =
     (if flt_less Pi64 a then wrap_down (fsub rnd64 a TwoPi64) else Some a)"

partial_function (option) wrap_up :: "float64 \<Rightarrow> float64 option" where
  "wrap_up a =
     (if flt_less a (fneg Pi64) then wrap_up (fadd rnd64 a TwoPi64) else Some a)"

definition wrapAngle :: "float64 \<Rightarrow> float64 option" where
  "wrapAngle a = (case wrap_down a of None \<Rightarrow> None | Some b \<Rightarrow> wrap_up b)"

definition Step ::
    "mathlib \<Rightarrow> PlayerState \<Rightarrow> PlayerInput \<Rightarrow> CarSpec \<Rightarrow> float64 \<Rightarrow> PlayerState option" where
  "Step M state input spec dt =
     (let drive = fsub rnd32 (Throttle input) (Brake input);
          accel = fmul rnd64 drive (MaxAccel spec);
          velocity = clampF (fadd rnd64 (Velocity state) (fmul rnd64 accel dt))
                       (fneg (MaxSpeed spec)) (MaxSpeed spec);
          headingDelta = fmul rnd64 (fmul rnd64 (Steering input) (MaxSteerRate spec)) dt
      in case wrapAngle (fadd rnd64 (Heading state) headingDelta) of
           None \<Rightarrow> None
         | Some heading \<Rightarrow>
             let speed = velocity;
                 pos = Position state;
                 dx = to_float32 (fmul rnd64 (fmul rnd64 speed dt) (Cos M heading));
                 dz = to_float32 (fmul rnd64 (fmul rnd64 speed dt) (Sin M heading))
             in Some (state\<lparr>Velocity := velocity, Heading := heading,
                  Position := pos\<lparr>vec_X := fadd rnd32 (vec_X pos) dx,
                                   vec_Z := fadd rnd32 (vec_Z pos) dz\<rparr>\<rparr>))"

subsection \<open>Constants\<close>

definition pi_q :: rat where
  "pi_q = 884279719003555 / 281474976710656"

lemma round_math_Pi: "round_fmt 53 (-1074) math_Pi = pi_q"
  by (subst f64.round_near [of 1 _ "-51" 7074237752028440])
    (simp_all add: math_Pi_def pi_q_def power_int_minus)

lemma round_2math_Pi: "round_fmt 53 (-1074) (2 * math_Pi) = 2 * pi_q"
  by (subst f64.round_near [of 2 _ "-50" 7074237752028440])
    (simp_all add: math_Pi_def pi_q_def power_int_minus)

lemma Pi64_eq: "Pi64 = Fin pi_q"
  by (simp add: Pi64_def rnd64_def round_flt_overflow round_math_Pi) (simp add: pi_q_def)

lemma TwoPi64_eq: "TwoPi64 = Fin (2 * pi_q)"
  by (simp add: TwoPi64_def rnd64_def round_flt_overflow round_2math_Pi) (simp add: pi_q_def)

lemma pi_q_bounds: "3 < pi_q" "pi_q < 4"
  by (simp_all add: pi_q_def)

lemma round_pi: "round_fmt 53 (-1074) pi_q = pi_q"
  by (rule f64.round_fixed [of _ 884279719003555 "-48"])
    (simp_all add: pi_q_def power_int_minus)

subsection \<open>Clamping\<close>

lemma clampF_NaN: "clampF NaN lo hi = NaN"
  by (simp add: clampF_def)

lemma clampF_range:
  assumes "0 \<le> s" and "v \<noteq> NaN"
  shows "\<exists>q. clampF v (Fin (- s)) (Fin s) = Fin q \<and> \<bar>q\<bar> \<le> s"
  using assms by (cases v) (auto simp: clampF_def)

subsection \<open>Wrapping an angle\<close>

lemma rnd64_cases: "rnd64 q \<noteq> NaN"
  by (simp add: rnd64_def round_flt_def inf_signed_def Let_def)

lemma rnd64_Fin: "\<bar>round_fmt 53 (-1074) q\<bar> < 2 powi 1024 \<Longrightarrow> rnd64 q = Fin (round_fmt 53 (-1074) q)"
  by (simp add: rnd64_def round_flt_overflow)

text \<open>A bound of the format that the exact result respects, the rounded one respects too.\<close>

lemma rnd64_not_above:
  assumes "q \<le> b" and "round_fmt 53 (-1074) b = b" and "0 \<le> b" and "b < 2 powi 1024"
  shows "\<not> flt_less (Fin b) (rnd64 q)"
proof -
  have "round_fmt 53 (-1074) q \<le> b" using f64.round_mono [OF assms(1)] assms(2) by simp
  moreover have "0 \<le> q \<Longrightarrow> 0 \<le> round_fmt 53 (-1074) q" by (rule f64.round_nonneg)
  ultimately show ?thesis
    using assms(4) by (auto simp: rnd64_def round_flt_overflow inf_signed_def)
qed

lemma wrap_down_exit:
  assumes "wrap_down a = Some r"
  shows "\<not> flt_less Pi64 r \<and> (r = NaN \<longrightarrow> a = NaN)"
proof (rule wrap_down.raw_induct [where P = "\<lambda>a r. \<not> flt_less Pi64 r \<and> (r = NaN \<longrightarrow> a = NaN)", OF _ assms])
  fix f a r
  assume IH: "\<And>a r. f a = Some r \<Longrightarrow> \<not> flt_less Pi64 r \<and> (r = NaN \<longrightarrow> a = NaN)"
    and eq: "(if flt_less Pi64 a then f (fsub rnd64 a TwoPi64) else Some a) = Some r"
  show "\<not> flt_less Pi64 r \<and> (r = NaN \<longrightarrow> a = NaN)"
  proof (cases "flt_less Pi64 a")
    case True
    then have "fsub rnd64 a TwoPi64 \<noteq> NaN"
      by (cases a) (auto simp: Pi64_eq TwoPi64_eq fsub_def rnd64_cases)
    with IH [of "fsub rnd64 a TwoPi64" r] eq True show ?thesis by simp
  qed (use eq in auto)
qed

lemma wrap_up_exit:
  assumes "wrap_up a = Some r"
  shows "\<not> flt_less r (fneg Pi64) \<and> (r = NaN \<longrightarrow> a = NaN)
    \<and> (\<not> flt_less Pi64 a \<longrightarrow> \<not> flt_less Pi64 r)"
proof (rule wrap_up.raw_induct [where P = "\<lambda>a r. \<not> flt_less r (fneg Pi64) \<and> (r = NaN \<longrightarrow> a = NaN)
    \<and> (\<not> flt_less Pi64 a \<longrightarrow> \<not> flt_less Pi64 r)", OF _ assms])
  fix f a r
  assume IH: "\<And>a r. f a = Some r \<Longrightarrow> \<not> flt_less r (fneg Pi64) \<and> (r = NaN \<longrightarrow> a = NaN)
      \<and> (\<not> flt_less Pi64 a \<longrightarrow> \<not> flt_less Pi64 r)"
    and eq: "(if flt_less a (fneg Pi64) then f (fadd rnd64 a TwoPi64) else Some a) = Some r"
  show "\<not> flt_less r (fneg Pi64) \<and> (r = NaN \<longrightarrow> a = NaN) \<and> (\<not> flt_less Pi64 a \<longrightarrow> \<not> flt_less Pi64 r)"
  proof (cases "flt_less a (fneg Pi64)")
    case True
    then have "\<not> flt_less Pi64 (fadd rnd64 a TwoPi64) \<and> fadd rnd64 a TwoPi64 \<noteq> NaN"
      using rnd64_not_above [of _ pi_q] round_pi pi_q_bounds
      by (cases a) (auto simp: Pi64_eq TwoPi64_eq rnd64_cases)
    with IH [of "fadd rnd64 a TwoPi64" r] eq True show ?thesis by simp
  qed (use eq in auto)
qed

lemma wrapAngle_exit:
  assumes "wrapAngle a = Some r"
  shows "r = NaN \<and> a = NaN \<or> (\<exists>q. r = Fin q \<and> \<bar>q\<bar> \<le> pi_q)"
proof -
  obtain b where b: "wrap_down a = Some b" "wrap_up b = Some r"
    using assms by (auto simp: wrapAngle_def split: option.splits)
  have "\<not> flt_less r (fneg Pi64) \<and> \<not> flt_less Pi64 r \<and> (r = NaN \<longrightarrow> a = NaN)"
    using wrap_down_exit [OF b(1)] wrap_up_exit [OF b(2)] by auto
  then show ?thesis by (cases r) (auto simp: Pi64_eq)
qed

lemma rnd64_sub_pi:
  assumes "\<bar>x\<bar> < 2 ^ 51"
  shows "\<exists>r. rnd64 x = Fin r \<and> \<bar>r - x\<bar> \<le> 1 / 8"
proof -
  let ?r = "round_fmt 53 (-1074) x"
  have e: "\<bar>?r - x\<bar> \<le> 1 / 8" using f64.round_err [of x 51] assms by (simp add: power_int_minus)
  have "(2::rat) ^ 51 + 1 < 2 powi 1024" by (simp add: power_int_nonneg_exp)
  with e assms have "\<bar>?r\<bar> < 2 powi 1024" by linarith
  then show ?thesis using e by (auto simp: rnd64_Fin)
qed

lemma wrap_down_small:
  assumes "\<bar>q\<bar> \<le> 2 ^ 50"
  shows "\<exists>r. wrap_down (Fin q) = Some (Fin r) \<and> \<bar>r\<bar> \<le> 2 ^ 50"
  using assms
proof (induction "nat \<lfloor>q\<rfloor>" arbitrary: q rule: less_induct)
  case less
  show ?case
  proof (cases "pi_q < q")
    case True
    have "\<bar>q - 2 * pi_q\<bar> < 2 ^ 51" using less.prems True pi_q_bounds by (simp add: abs_less_iff)
    then obtain r where r: "rnd64 (q - 2 * pi_q) = Fin r" "\<bar>r - (q - 2 * pi_q)\<bar> \<le> 1 / 8"
      using rnd64_sub_pi by blast
    have small: "r \<le> q - 1" "- 5 \<le> r" using r(2) True pi_q_bounds by linarith+
    have "\<lfloor>r\<rfloor> \<le> \<lfloor>q\<rfloor> - 1" using floor_mono [OF small(1)] by simp
    moreover have "3 \<le> \<lfloor>q\<rfloor>" using True pi_q_bounds by (simp add: le_floor_iff)
    ultimately have m: "nat \<lfloor>r\<rfloor> < nat \<lfloor>q\<rfloor>" by linarith
    have "\<bar>r\<bar> \<le> 2 ^ 50" using small less.prems by (simp add: abs_le_iff)
    from less.hyps [OF m this] show ?thesis
      using True r(1) by (subst wrap_down.simps) (simp add: Pi64_eq TwoPi64_eq fsub_def)
  next
    case False
    with less.prems show ?thesis by (subst wrap_down.simps) (simp add: Pi64_eq)
  qed
qed

lemma wrap_up_small:
  assumes "\<bar>q\<bar> \<le> 2 ^ 50"
  shows "\<exists>r. wrap_up (Fin q) = Some (Fin r)"
  using assms
proof (induction "nat \<lfloor>- q\<rfloor>" arbitrary: q rule: less_induct)
  case less
  show ?case
  proof (cases "q < - pi_q")
    case True
    have "\<bar>q + 2 * pi_q\<bar> < 2 ^ 51" using less.prems True pi_q_bounds by (simp add: abs_less_iff)
    then obtain r where r: "rnd64 (q + 2 * pi_q) = Fin r" "\<bar>r - (q + 2 * pi_q)\<bar> \<le> 1 / 8"
      using rnd64_sub_pi by blast
    have small: "- r \<le> - q - 1" "r \<le> 5" using r(2) True pi_q_bounds by linarith+
    have "\<lfloor>- r\<rfloor> \<le> \<lfloor>- q\<rfloor> - 1" using floor_mono [OF small(1)] by simp
    moreover have "3 \<le> \<lfloor>- q\<rfloor>" using True pi_q_bounds by (simp add: le_floor_iff)
    ultimately have m: "nat \<lfloor>- r\<rfloor> < nat \<lfloor>- q\<rfloor>" by linarith
    have "\<bar>r\<bar> \<le> 2 ^ 50" using small less.prems by (simp add: abs_le_iff)
    from less.hyps [OF m this] show ?thesis
      using True r(1) by (subst wrap_up.simps) (simp add: Pi64_eq TwoPi64_eq)
  next
    case False
    with less.prems show ?thesis by (subst wrap_up.simps) (simp add: Pi64_eq)
  qed
qed

lemma wrapAngle_small:
  assumes "\<bar>q\<bar> \<le> 2 ^ 50"
  shows "\<exists>r. wrapAngle (Fin q) = Some (Fin r) \<and> \<bar>r\<bar> \<le> pi_q"
proof -
  obtain b where "wrap_down (Fin q) = Some (Fin b)" "\<bar>b\<bar> \<le> 2 ^ 50"
    using wrap_down_small [OF assms] by auto
  moreover obtain r where "wrap_up (Fin b) = Some (Fin r)"
    using wrap_up_small calculation(2) by blast
  ultimately have "wrapAngle (Fin q) = Some (Fin r)" by (simp add: wrapAngle_def)
  then show ?thesis using wrapAngle_exit [of "Fin q" "Fin r"] by simp
qed

lemma rnd64_absorb_2pi:
  assumes "q = of_int m * 2 powi k" "\<bar>m\<bar> < 2 ^ 53" "0 \<le> k" and big: "2 ^ 60 \<le> q" "q < 2 powi 1024"
  shows "rnd64 (q - 2 * pi_q) = Fin q" and "rnd64 (2 * pi_q - q) = Fin (- q)"
proof -
  have "round_fmt 53 (-1074) (q - 2 * pi_q) = q"
    by (rule f64.round_absorb [OF assms(1), of _ 59])
      (use assms pi_q_bounds in \<open>simp_all add: power_int_nonneg_exp\<close>)
  moreover from this have "round_fmt 53 (-1074) (2 * pi_q - q) = - q"
    using f64.round_minus [of "q - 2 * pi_q"] by simp
  ultimately show "rnd64 (q - 2 * pi_q) = Fin q" "rnd64 (2 * pi_q - q) = Fin (- q)"
    using big by (simp_all add: rnd64_Fin)
qed

lemma wrap_down_PInf: "wrap_down PInf = None"
proof -
  have "a \<noteq> PInf" if ret: "wrap_down a = Some r" for a r
  proof (rule wrap_down.raw_induct [where P = "\<lambda>a r. a \<noteq> PInf", OF _ ret])
    fix f a and r :: flt
    assume IH: "\<And>a (r :: flt). f a = Some r \<Longrightarrow> a \<noteq> PInf"
      and eq: "(if flt_less Pi64 a then f (fsub rnd64 a TwoPi64) else Some a) = Some r"
    show "a \<noteq> PInf"
      using IH [of PInf r] eq by (auto simp: Pi64_eq TwoPi64_eq fsub_def)
  qed
  then show ?thesis by (cases "wrap_down PInf") auto
qed

lemma wrap_up_NInf: "wrap_up NInf = None"
proof -
  have "a \<noteq> NInf" if ret: "wrap_up a = Some r" for a r
  proof (rule wrap_up.raw_induct [where P = "\<lambda>a r. a \<noteq> NInf", OF _ ret])
    fix f a and r :: flt
    assume IH: "\<And>a (r :: flt). f a = Some r \<Longrightarrow> a \<noteq> NInf"
      and eq: "(if flt_less a (fneg Pi64) then f (fadd rnd64 a TwoPi64) else Some a) = Some r"
    show "a \<noteq> NInf"
      using IH [of NInf r] eq by (auto simp: Pi64_eq TwoPi64_eq)
  qed
  then show ?thesis by (cases "wrap_up NInf") auto
qed

lemma wrap_down_big:
  assumes absorb: "rnd64 (q - 2 * pi_q) = Fin q" and big: "pi_q < q"
  shows "wrap_down (Fin q) = None"
proof -
  have "a \<noteq> Fin q" if ret: "wrap_down a = Some r" for a r
  proof (rule wrap_down.raw_induct [where P = "\<lambda>a r. a \<noteq> Fin q", OF _ ret])
    fix f a and r :: flt
    assume IH: "\<And>a (r :: flt). f a = Some r \<Longrightarrow> a \<noteq> Fin q"
      and eq: "(if flt_less Pi64 a then f (fsub rnd64 a TwoPi64) else Some a) = Some r"
    show "a \<noteq> Fin q"
      using IH [of "Fin q" r] eq big absorb by (auto simp: Pi64_eq TwoPi64_eq fsub_def)
  qed
  then show ?thesis by (cases "wrap_down (Fin q)") auto
qed

lemma wrap_up_big:
  assumes absorb: "rnd64 (2 * pi_q - q) = Fin (- q)" and big: "pi_q < q"
  shows "wrap_up (Fin (- q)) = None"
proof -
  have "a \<noteq> Fin (- q)" if ret: "wrap_up a = Some r" for a r
  proof (rule wrap_up.raw_induct [where P = "\<lambda>a r. a \<noteq> Fin (- q)", OF _ ret])
    fix f a and r :: flt
    assume IH: "\<And>a (r :: flt). f a = Some r \<Longrightarrow> a \<noteq> Fin (- q)"
      and eq: "(if flt_less a (fneg Pi64) then f (fadd rnd64 a TwoPi64) else Some a) = Some r"
    show "a \<noteq> Fin (- q)"
      using IH [of "Fin (- q)" r] eq big absorb by (auto simp: Pi64_eq TwoPi64_eq)
  qed
  then show ?thesis by (cases "wrap_up (Fin (- q))") auto
qed

lemma wrapAngle_infinite: "wrapAngle PInf = None" "wrapAngle NInf = None"
proof -
  show "wrapAngle PInf = None" by (simp add: wrapAngle_def wrap_down_PInf)
  have "wrap_down NInf = Some NInf" by (subst wrap_down.simps) (simp add: Pi64_eq)
  then show "wrapAngle NInf = None" by (simp add: wrapAngle_def wrap_up_NInf)
qed

lemma wrapAngle_NaN: "wrapAngle NaN = Some NaN"
  by (simp add: wrapAngle_def wrap_down.simps wrap_up.simps Pi64_eq)

lemma wrapAngle_big:
  assumes "q = of_int m * 2 powi k" "\<bar>m\<bar> < 2 ^ 53" "0 \<le> k" "2 ^ 60 \<le> q" "q < 2 powi 1024"
  shows "wrapAngle (Fin q) = None" and "wrapAngle (Fin (- q)) = None"
proof -
  have big: "pi_q < q" using assms(4) pi_q_bounds by simp
  show "wrapAngle (Fin q) = None"
    using wrap_down_big [OF rnd64_absorb_2pi(1) [OF assms] big] by (simp add: wrapAngle_def)
  have "wrap_down (Fin (- q)) = Some (Fin (- q))"
    using big pi_q_bounds by (subst wrap_down.simps) (simp add: Pi64_eq)
  then show "wrapAngle (Fin (- q)) = None"
    using wrap_up_big [OF rnd64_absorb_2pi(2) [OF assms] big] by (simp add: wrapAngle_def)
qed

subsection \<open>The step of a car\<close>

text \<open>A value rounded from a magnitude of at most a power of two keeps that bound.\<close>

lemma rnd64_bounded:
  assumes "\<bar>x\<bar> \<le> 2 ^ n" and "n \<le> 1000"
  shows "\<exists>r. rnd64 x = Fin r \<and> \<bar>r\<bar> \<le> 2 ^ n"
proof -
  have fix_pow: "round_fmt 53 (-1074) (2 ^ n) = 2 ^ n"
    by (rule f64.round_fixed [of _ 1 "int n"]) simp_all
  have "\<bar>round_fmt 53 (-1074) x\<bar> \<le> 2 ^ n"
    using f64.round_mono [OF assms(1)] by (simp add: f64.round_abs fix_pow)
  moreover have "(2::rat) ^ n \<le> 2 ^ 1000" using assms(2) by (rule power_increasing) simp
  moreover have "(2::rat) ^ 1000 < 2 powi 1024" by simp
  ultimately show ?thesis by (intro exI [of _ "round_fmt 53 (-1074) x"] conjI rnd64_Fin) linarith+
qed

lemma rnd32_bounded:
  assumes "\<bar>x\<bar> \<le> 2 ^ n" and "n \<le> 100"
  shows "\<exists>r. rnd32 x = Fin r \<and> \<bar>r\<bar> \<le> 2 ^ n"
proof -
  have fix_pow: "round_fmt 24 (-149) (2 ^ n) = 2 ^ n"
    by (rule f32.round_fixed [of _ 1 "int n"]) simp_all
  have "\<bar>round_fmt 24 (-149) x\<bar> \<le> 2 ^ n"
    using f32.round_mono [OF assms(1)] by (simp add: f32.round_abs fix_pow)
  moreover have "(2::rat) ^ n \<le> 2 ^ 100" using assms(2) by (rule power_increasing) simp
  moreover have "(2::rat) ^ 100 < 2 powi 128" by simp
  ultimately show ?thesis
    by (intro exI [of _ "round_fmt 24 (-149) x"]) (simp add: rnd32_def round_flt_overflow)
qed

text \<open>The kinematic invariant: a velocity within the car's top speed and a wrapped heading.\<close>

definition kin_ok :: "CarSpec \<Rightarrow> PlayerState \<Rightarrow> bool" where
  "kin_ok spec st \<longleftrightarrow>
     (\<exists>v s. Velocity st = Fin v \<and> MaxSpeed spec = Fin s \<and> \<bar>v\<bar> \<le> s) \<and>
     (\<exists>h. Heading st = Fin h \<and> \<bar>h\<bar> \<le> pi_q)"

text \<open>Finite controls and tunables within generous bounds, and a time step of at most a second.\<close>

definition sane_input :: "PlayerInput \<Rightarrow> bool" where
  "sane_input i \<longleftrightarrow> (\<exists>t b s. Throttle i = Fin t \<and> Brake i = Fin b \<and> Steering i = Fin s \<and>
     \<bar>t\<bar> \<le> 2 ^ 32 \<and> \<bar>b\<bar> \<le> 2 ^ 32 \<and> \<bar>s\<bar> \<le> 2 ^ 32)"

definition sane_spec :: "CarSpec \<Rightarrow> bool" where
  "sane_spec c \<longleftrightarrow> (\<exists>a r s. MaxAccel c = Fin a \<and> MaxSteerRate c = Fin r \<and> MaxSpeed c = Fin s \<and>
     \<bar>a\<bar> \<le> 2 ^ 16 \<and> \<bar>r\<bar> \<le> 2 ^ 16 \<and> 0 \<le> s)"

definition sane_dt :: "float64 \<Rightarrow> bool" where
  "sane_dt dt \<longleftrightarrow> (\<exists>d. dt = Fin d \<and> 0 \<le> d \<and> d \<le> 1)"

lemma mult_le_pow:
  fixes x y :: rat
  assumes "\<bar>x\<bar> \<le> 2 ^ m" and "\<bar>y\<bar> \<le> 2 ^ n"
  shows "\<bar>x * y\<bar> \<le> 2 ^ (m + n)"
  using mult_mono [OF assms] by (simp add: abs_mult power_add)

lemma fmul64_bounded:
  assumes "\<bar>x\<bar> \<le> 2 ^ m" and "\<bar>y\<bar> \<le> 2 ^ n" and "m + n \<le> 1000"
  shows "\<exists>r. fmul rnd64 (Fin x) (Fin y) = Fin r \<and> \<bar>r\<bar> \<le> 2 ^ (m + n)"
  using rnd64_bounded [OF mult_le_pow [OF assms(1,2)] assms(3)] by simp

lemma heading_target_bounded:
  assumes "sane_spec spec" and "sane_input i" and "sane_dt dt" and "Heading st = Fin h" "\<bar>h\<bar> \<le> pi_q"
  shows "\<exists>x. fadd rnd64 (Heading st) (fmul rnd64 (fmul rnd64 (Steering i) (MaxSteerRate spec)) dt) = Fin x
    \<and> \<bar>x\<bar> \<le> 2 ^ 50"
proof -
  obtain s r d where v: "Steering i = Fin s" "MaxSteerRate spec = Fin r" "dt = Fin d"
    and b: "\<bar>s\<bar> \<le> 2 ^ 32" "\<bar>r\<bar> \<le> 2 ^ 16" "\<bar>d\<bar> \<le> 2 ^ 0"
    using assms(1-3) by (auto simp: sane_spec_def sane_input_def sane_dt_def)
  obtain m where m: "fmul rnd64 (Fin s) (Fin r) = Fin m" "\<bar>m\<bar> \<le> 2 ^ (32 + 16)"
    using fmul64_bounded [OF b(1,2)] by auto
  obtain n where n: "fmul rnd64 (Fin m) (Fin d) = Fin n" "\<bar>n\<bar> \<le> 2 ^ (32 + 16 + 0)"
    using fmul64_bounded [OF m(2) b(3)] by auto
  have "\<bar>h + n\<bar> \<le> 2 ^ 50" using n(2) assms(5) pi_q_bounds by simp
  then obtain x where "rnd64 (h + n) = Fin x" "\<bar>x\<bar> \<le> 2 ^ 50" using rnd64_bounded [of "h + n" 50] by auto
  with m(1) n(1) v assms(4) show ?thesis by simp
qed

lemma velocity_target_not_NaN:
  assumes "sane_spec spec" and "sane_input i" and "sane_dt dt" and "Velocity st = Fin v"
  shows "fadd rnd64 (Velocity st)
    (fmul rnd64 (fmul rnd64 (fsub rnd32 (Throttle i) (Brake i)) (MaxAccel spec)) dt) \<noteq> NaN"
proof -
  obtain t b a d where v: "Throttle i = Fin t" "Brake i = Fin b" "MaxAccel spec = Fin a" "dt = Fin d"
    and bs: "\<bar>t\<bar> \<le> 2 ^ 32" "\<bar>b\<bar> \<le> 2 ^ 32" "\<bar>a\<bar> \<le> 2 ^ 16" "\<bar>d\<bar> \<le> 2 ^ 0"
    using assms(1-3) by (auto simp: sane_spec_def sane_input_def sane_dt_def)
  have "\<bar>t - b\<bar> \<le> 2 ^ 33" using bs(1,2) by simp
  then obtain x where x: "rnd32 (t - b) = Fin x" "\<bar>x\<bar> \<le> 2 ^ 33" using rnd32_bounded [of "t - b" 33] by auto
  obtain m where m: "fmul rnd64 (Fin x) (Fin a) = Fin m" "\<bar>m\<bar> \<le> 2 ^ (33 + 16)"
    using fmul64_bounded [OF x(2) bs(3)] by auto
  obtain n where "fmul rnd64 (Fin m) (Fin d) = Fin n" using fmul64_bounded [OF m(2) bs(4)] by auto
  with x(1) m(1) v assms(4) show ?thesis by (simp add: fsub_def rnd64_cases)
qed

lemma Step_keeps_kin:
  assumes "sane_spec spec" and "sane_input i" and "sane_dt dt" and "kin_ok spec st"
  shows "\<exists>st'. Step M st i spec dt = Some st' \<and> kin_ok spec st'"
proof -
  obtain v s h where st: "Velocity st = Fin v" "MaxSpeed spec = Fin s" "\<bar>v\<bar> \<le> s" "Heading st = Fin h" "\<bar>h\<bar> \<le> pi_q"
    using assms(4) by (auto simp: kin_ok_def)
  obtain x where x: "fadd rnd64 (Heading st)
      (fmul rnd64 (fmul rnd64 (Steering i) (MaxSteerRate spec)) dt) = Fin x" "\<bar>x\<bar> \<le> 2 ^ 50"
    using heading_target_bounded [OF assms(1-3) st(4,5)] by auto
  obtain h' where h': "wrapAngle (Fin x) = Some (Fin h')" "\<bar>h'\<bar> \<le> pi_q"
    using wrapAngle_small [OF x(2)] by auto
  have "0 \<le> s" using st(3) by linarith
  then obtain v' where "clampF (fadd rnd64 (Velocity st)
      (fmul rnd64 (fmul rnd64 (fsub rnd32 (Throttle i) (Brake i)) (MaxAccel spec)) dt))
      (fneg (MaxSpeed spec)) (MaxSpeed spec) = Fin v'" "\<bar>v'\<bar> \<le> s"
    using clampF_range [OF _ velocity_target_not_NaN [OF assms(1-3) st(1)], of s] st(2) by auto
  with x(1) h' st(2) show ?thesis by (simp add: Step_def Let_def kin_ok_def)
qed

lemma Step_frame:
  "Step M st i spec dt = Some st' \<Longrightarrow>
     st' = st\<lparr>Velocity := Velocity st', Heading := Heading st', Position := Position st'\<rparr>"
  by (auto simp: Step_def Let_def split: option.splits)

text \<open>A NaN control makes the velocity NaN, and a NaN velocity never goes away.\<close>

lemma fadd_NaN [simp]: "fadd r x NaN = NaN"
  by (cases x) simp_all

lemma fmul_NaN [simp]: "fmul r x NaN = NaN"
  by (cases x) simp_all

lemma Step_NaN:
  assumes "Step M st i spec dt = Some st'"
    and "Velocity st = NaN \<or> Throttle i = NaN \<or> Brake i = NaN"
  shows "Velocity st' = NaN \<and> vec_X (Position st') = NaN \<and> vec_Z (Position st') = NaN"
  using assms by (auto simp: Step_def Let_def fsub_def clampF_NaN split: option.splits)

text \<open>A steering value whose heading ends up infinite or huge never returns.\<close>

lemma rnd64_rep:
  assumes "rnd64 x = Fin q" and "2 ^ 60 \<le> \<bar>q\<bar>"
  shows "\<exists>m k. \<bar>q\<bar> = of_int m * 2 powi k \<and> \<bar>m\<bar> < 2 ^ 53 \<and> 0 \<le> k \<and> \<bar>q\<bar> < 2 powi 1024"
proof -
  have q: "q = round_fmt 53 (-1074) x" "\<bar>q\<bar> < 2 powi 1024"
    using assms(1) by (auto simp: rnd64_def round_flt_overflow inf_signed_def split: if_splits)
  obtain m k where mk: "round_fmt 53 (-1074) \<bar>x\<bar> = of_int m * 2 powi k" "\<bar>m\<bar> < 2 ^ 53"
    "ulp_exp 53 (-1074) \<bar>x\<bar> \<le> k"
    using f64.round_rep [of "\<bar>x\<bar>"] by auto
  have a: "\<bar>q\<bar> = round_fmt 53 (-1074) \<bar>x\<bar>" by (simp add: q(1) f64.round_abs)
  have "0 \<le> k"
  proof (rule ccontr)
    assume "\<not> 0 \<le> k"
    then have "(2::rat) powi k \<le> 2 powi 0" by (intro power_int_increasing) auto
    moreover have "of_int m \<le> (2::rat) ^ 53" using mk(2) by (simp add: abs_less_iff)
    ultimately have "of_int m * 2 powi k \<le> (2::rat) ^ 53 * 1" by (intro mult_mono) auto
    with assms(2) a mk(1) show False by simp
  qed
  with a mk q(2) show ?thesis by auto
qed

lemma Step_hangs:
  assumes "fadd rnd64 (Heading st) (fmul rnd64 (fmul rnd64 (Steering i) (MaxSteerRate spec)) dt) = x"
    and "x = PInf \<or> x = NInf \<or> (\<exists>y q. x = Fin q \<and> rnd64 y = Fin q \<and> 2 ^ 60 \<le> \<bar>q\<bar>)"
  shows "Step M st i spec dt = None"
proof -
  have "wrapAngle x = None"
    using assms(2)
  proof (elim disjE exE conjE)
    fix y q
    assume x: "x = Fin q" and y: "rnd64 y = Fin q" "2 ^ 60 \<le> \<bar>q\<bar>"
    obtain m k where "\<bar>q\<bar> = of_int m * 2 powi k" "\<bar>m\<bar> < 2 ^ 53" "0 \<le> k" "\<bar>q\<bar> < 2 powi 1024"
      using rnd64_rep [OF y] by auto
    from wrapAngle_big [OF this(1-3) y(2) this(4)] show "wrapAngle x = None"
      by (cases "0 \<le> q") (simp_all add: x)
  qed (simp_all add: wrapAngle_infinite)
  with assms(1) show ?thesis by (simp add: Step_def Let_def)
qed

end
