(* ===== verification/Race.thy ===== *)
theory Race
  imports Physics "HOL-Library.Multiset"
begin

text \<open>
  \<open>internal/race/race.go\<close>, \<open>snapshot.go\<close> and the locked operations of
  \<open>manager.go\<close>: the state of one race and what each operation does to it under the
  race's mutex. The map fields are Go maps, the channel fields buffered channels; the
  callback \<open>OnFinish\<close> is recorded as set or nil; \<open>Done\<close> as closed or open.
\<close>

record SnapshotCar =
  sc_PlayerID :: string
  sc_Position :: Vec3
  sc_Rotation :: "float32 \<times> float32 \<times> float32 \<times> float32"
  sc_Velocity :: Vec3

record WorldSnapshot =
  ws_Tick :: "64 word"
  ws_Cars :: "SnapshotCar list"

record Race =
  raceID :: uuid
  raceTrack :: Track
  StartTick :: "64 word"
  TickRateHz :: int
  MaxLaps :: int
  MaxPlayers :: int
  status :: RaceStatus
  players :: "(uuid, PlayerState) gomap"
  specs :: "(uuid, CarSpec) gomap"
  finishedOrder :: "uuid list"
  CreatedAt :: gotime
  StartRealTime :: gotime
  RaceFinishTime :: gotime
  Events :: "Event list"
  JoinCh :: "JoinMsg chan"
  LeaveCh :: "LeaveMsg chan"
  InputCh :: "InputMsg chan"
  DoneClosed :: bool
  SnapshotOut :: "WorldSnapshot chan"
  OnFinish :: bool

definition New :: "uuid \<Rightarrow> Track \<Rightarrow> int \<Rightarrow> int \<Rightarrow> int \<Rightarrow> gotime \<Rightarrow> Race" where
  "New rid track tickHz maxLaps maxPlayers now =
     \<lparr>raceID = rid, raceTrack = track, StartTick = 0,
      TickRateHz = (if tickHz \<le> 0 then DefaultTickHz else tickHz),
      MaxLaps = (if maxLaps \<le> 0 then DefaultMaxLaps else maxLaps),
      MaxPlayers = (if maxPlayers \<le> 0 then DefaultMaxPlayers else maxPlayers),
      status = StatusPending, players = [], specs = [], finishedOrder = [],
      CreatedAt = now, StartRealTime = zero_time, RaceFinishTime = zero_time, Events = [],
      JoinCh = ch_make 8, LeaveCh = ch_make 8, InputCh = ch_make 256,
      DoneClosed = False, SnapshotOut = ch_make 4, OnFinish = False\<rparr>"

definition Status :: "Race \<Rightarrow> RaceStatus" where
  "Status r = status r"

definition PlayersSnapshot :: "uuid list \<Rightarrow> Race \<Rightarrow> PlayerState list" where
  "PlayersSnapshot ord r = List.map_filter (gm_get (players r)) ord"

subsection \<open>Players\<close>

text \<open>\<open>time.Now()\<close> is read twice, for \<open>StartedAt\<close> and for \<open>LapStartedAt\<close>.\<close>

definition new_player :: "Race \<Rightarrow> uuid \<Rightarrow> gotime \<Rightarrow> gotime \<Rightarrow> PlayerState" where
  "new_player r pid now now' =
     \<lparr>PlayerID = pid, Position = spawn (Some (raceTrack r)) (gm_len (players r)),
      Velocity = Fin 0, Heading = Fin 0, LastInput = zero_input, LastInputTick = 0,
      Lap = 0, LastCheckpoint = 0, NextCp = 1 mod lenOr1 (Waypoints (raceTrack r)),
      Finished = False, FinishPos = 0, FinishTime = zero_time, LapStartedAt = now',
      BestLapMs = 0, StartedAt = now\<rparr>"

definition AddPlayer ::
    "uuid \<Rightarrow> CarSpec \<Rightarrow> gotime \<Rightarrow> gotime \<Rightarrow> Race \<Rightarrow> bool \<times> Race" where
  "AddPlayer pid spec now now' r =
     (if status r = StatusFinished then (False, r)
      else if MaxPlayers r \<le> int (gm_len (players r)) then (False, r)
      else case gm_get (players r) pid of
        Some _ \<Rightarrow> (True, r)
      | None \<Rightarrow>
          (True, r\<lparr>players := gm_put pid (new_player r pid now now') (players r),
                  specs := gm_put pid spec (specs r)\<rparr>))"

definition RemovePlayer :: "uuid \<Rightarrow> Race \<Rightarrow> Race" where
  "RemovePlayer pid r =
     r\<lparr>players := gm_del pid (players r), specs := gm_del pid (specs r)\<rparr>"

definition ApplyInput :: "InputMsg \<Rightarrow> Race \<Rightarrow> Race" where
  "ApplyInput m r = r\<lparr>InputCh := ch_send m (InputCh r)\<rparr>"

definition EnqueueJoin :: "JoinMsg \<Rightarrow> Race \<Rightarrow> Race" where
  "EnqueueJoin m r = r\<lparr>JoinCh := ch_send m (JoinCh r)\<rparr>"

definition EnqueueLeave :: "LeaveMsg \<Rightarrow> Race \<Rightarrow> Race" where
  "EnqueueLeave m r = r\<lparr>LeaveCh := ch_send m (LeaveCh r)\<rparr>"

definition applyInputLocked :: "InputMsg \<Rightarrow> Race \<Rightarrow> Race" where
  "applyInputLocked m r =
     (case gm_get (players r) (im_PlayerID m) of
        None \<Rightarrow> r
      | Some p \<Rightarrow>
          if Finished p then r
          else r\<lparr>players := gm_put (im_PlayerID m)
                  (p\<lparr>LastInput := im_Input m, LastInputTick := ucast (im_Sequence m)\<rparr>)
                  (players r)\<rparr>)"

subsection \<open>Results\<close>

definition result_of :: "uuid \<Rightarrow> nat \<Rightarrow> PlayerState \<Rightarrow> RaceResult" where
  "result_of pid i p =
     \<lparr>rr_PlayerID = pid, rr_Position = i + 1,
      rr_TotalTimeMs = go_div (time_sub (FinishTime p) (StartedAt p)) Millisecond,
      rr_BestLapMs = BestLapMs p\<rparr>"

text \<open>The loop of \<open>FinalResults\<close>: a player no longer in the map is skipped, its position kept.\<close>

fun results_from :: "(uuid, PlayerState) gomap \<Rightarrow> nat \<Rightarrow> uuid list \<Rightarrow> RaceResult list" where
  "results_from ps i [] = []"
| "results_from ps i (pid # ord) =
     (case gm_get ps pid of
        None \<Rightarrow> results_from ps (i + 1) ord
      | Some p \<Rightarrow> result_of pid i p # results_from ps (i + 1) ord)"

definition finalResultsLocked :: "Race \<Rightarrow> RaceResult list" where
  "finalResultsLocked r = results_from (players r) 0 (finishedOrder r)"

definition FinalResults :: "Race \<Rightarrow> RaceResult list" where
  "FinalResults r = results_from (players r) 0 (finishedOrder r)"

definition allPlayersFinished :: "Race \<Rightarrow> bool" where
  "allPlayersFinished r =
     (if gm_len (players r) = 0 then False
      else list_all (\<lambda>(_, p). Finished p) (players r))"

subsection \<open>One tick of the race\<close>

text \<open>
  What crossing checkpoint \<open>idx\<close> does to a player, in a race of \<open>maxLaps\<close> laps on
  \<open>n\<close> waypoints with \<open>fin\<close> players already across the line: the new player state, the
  events, and whether the player has just finished.
\<close>

definition cross_checkpoint ::
    "int \<Rightarrow> nat \<Rightarrow> 64 word \<Rightarrow> gotime \<Rightarrow> nat \<Rightarrow> nat \<Rightarrow> PlayerState \<Rightarrow>
     PlayerState \<times> Event list \<times> bool" where
  "cross_checkpoint maxLaps n tick now fin idx p =
     (let wasStartLine = idx = 0;
          p = p\<lparr>LastCheckpoint := idx, NextCp := (idx + 1) mod n\<rparr>;
          passed = CheckpointPassedEvt (PlayerID p) idx tick
      in if wasStartLine \<and> 0 < Lap p then
           let lapMs = go_div (time_sub now (LapStartedAt p)) Millisecond;
               p = (if BestLapMs p = 0 \<or> lapMs < BestLapMs p then p\<lparr>BestLapMs := lapMs\<rparr> else p);
               p = p\<lparr>Lap := Lap p + 1, LapStartedAt := now\<rparr>;
               evs = [passed, LapCompletedEvt (PlayerID p) (Lap p) lapMs tick]
           in if maxLaps \<le> int (Lap p)
              then (p\<lparr>Finished := True, FinishTime := now, FinishPos := fin + 1\<rparr>, evs, True)
              else (p, evs, False)
         else if wasStartLine \<and> Lap p = 0 then (p\<lparr>Lap := 1\<rparr>, [passed], False)
         else (p, [passed], False))"

text \<open>The body of the loop over the players, for a player that has not finished.\<close>

definition advance_player ::
    "mathlib \<Rightarrow> Track \<Rightarrow> int \<Rightarrow> float64 \<Rightarrow> 64 word \<Rightarrow> gotime \<Rightarrow> nat \<Rightarrow> CarSpec \<Rightarrow> PlayerState \<Rightarrow>
     (PlayerState \<times> Event list \<times> bool) option" where
  "advance_player M track maxLaps dt tick now fin spec p =
     (case Step M p (LastInput p) spec dt of
        None \<Rightarrow> None
      | Some p \<Rightarrow>
          if length (Waypoints track) = 0 then Some (p, [], False)
          else let idx = NextCp p mod length (Waypoints track);
                   wp = Waypoints track ! idx;
                   dx = fsub rnd64 (vec_X (Position p)) (wp_X wp);
                   dz = fsub rnd64 (vec_Z (Position p)) (wp_Z wp)
               in if flt_less (Hypot M dx dz) (Fin 8)
                  then Some (cross_checkpoint maxLaps (length (Waypoints track)) tick now fin idx p)
                  else Some (p, [], False))"

definition advance_one ::
    "mathlib \<Rightarrow> float64 \<Rightarrow> 64 word \<Rightarrow> (uuid \<Rightarrow> gotime) \<Rightarrow> uuid \<Rightarrow> Race \<Rightarrow> Race option" where
  "advance_one M dt tick now pid r =
     (case gm_get (players r) pid of
        None \<Rightarrow> Some r
      | Some p \<Rightarrow>
          if Finished p then Some r
          else let spec = (case gm_get (specs r) (PlayerID p) of None \<Rightarrow> DefaultSpec | Some s \<Rightarrow> s)
               in case advance_player M (raceTrack r) (MaxLaps r) dt tick (now pid)
                         (length (finishedOrder r)) spec p of
                    None \<Rightarrow> None
                  | Some (p', evs, done) \<Rightarrow>
                      Some (r\<lparr>players := gm_put pid p' (players r),
                              Events := Events r @ evs,
                              finishedOrder :=
                                finishedOrder r @ (if done then [PlayerID p'] else [])\<rparr>))"

text \<open>
  \<open>for _, p := range r.players\<close>, in the visiting order \<open>ord\<close>; \<open>None\<close> when the
  step of some player does not return.
\<close>

fun advanceTickLocked ::
    "mathlib \<Rightarrow> float64 \<Rightarrow> 64 word \<Rightarrow> (uuid \<Rightarrow> gotime) \<Rightarrow> uuid list \<Rightarrow> Race \<Rightarrow> Race option" where
  "advanceTickLocked M dt tick now [] r = Some r"
| "advanceTickLocked M dt tick now (pid # ord) r =
     (case advance_one M dt tick now pid r of
        None \<Rightarrow> None
      | Some r' \<Rightarrow> advanceTickLocked M dt tick now ord r')"

subsection \<open>Snapshots\<close>

definition snapshot_car :: "(uuid \<Rightarrow> string) \<Rightarrow> PlayerState \<Rightarrow> SnapshotCar" where
  "snapshot_car us p =
     \<lparr>sc_PlayerID = us (PlayerID p), sc_Position = Position p,
      sc_Rotation = (Fin 0, Fin 0, Fin 0, Fin 1),
      sc_Velocity = \<lparr>vec_X = to_float32 (Velocity p), vec_Y = Fin 0, vec_Z = Fin 0\<rparr>\<rparr>"

definition buildWorldSnapshot ::
    "(uuid \<Rightarrow> string) \<Rightarrow> uuid list \<Rightarrow> Race \<Rightarrow> 64 word \<Rightarrow> WorldSnapshot option" where
  "buildWorldSnapshot us ord r tick =
     (if status r \<noteq> StatusInProgress \<and> status r \<noteq> StatusStarting then None
      else Some \<lparr>ws_Tick = tick,
                 ws_Cars = map (snapshot_car us) (List.map_filter (gm_get (players r)) ord)\<rparr>)"

subsection \<open>Crossing a checkpoint\<close>

lemma cross_checkpoint_fields:
  assumes "cross_checkpoint ml n tick now fin idx p = (p', evs, done)"
  shows "PlayerID p' = PlayerID p" and "LastCheckpoint p' = idx" and "NextCp p' = (idx + 1) mod n"
    and "Lap p' = (if idx = 0 then Lap p + 1 else Lap p)"
    and "done \<longleftrightarrow> idx = 0 \<and> 0 < Lap p \<and> ml \<le> int (Lap p) + 1"
    and "Finished p' \<longleftrightarrow> Finished p \<or> done"
    and "FinishPos p' = (if done then fin + 1 else FinishPos p)"
    and "FinishTime p' = (if done then now else FinishTime p)"
    and "StartedAt p' = StartedAt p"
  using assms by (auto simp: cross_checkpoint_def Let_def split: if_splits)

lemma cross_checkpoint_kin:
  assumes "cross_checkpoint ml n tick now fin idx p = (p', evs, done)"
  shows "Position p' = Position p" and "Velocity p' = Velocity p" and "Heading p' = Heading p"
    and "LastInput p' = LastInput p" and "LastInputTick p' = LastInputTick p"
  using assms by (auto simp: cross_checkpoint_def Let_def split: if_splits)

text \<open>The number of players already across the line only reaches \<open>FinishPos\<close>.\<close>

lemma cross_checkpoint_fin:
  "cross_checkpoint ml n tick now fin' idx p =
     (case cross_checkpoint ml n tick now fin idx p of (p', evs, done) \<Rightarrow>
        (p'\<lparr>FinishPos := if done then fin' + 1 else FinishPos p\<rparr>, evs, done))"
  by (cases p) (simp add: cross_checkpoint_def Let_def)

text \<open>
  A player's race: the \<open>k\<close>th checkpoint crossed at reading \<open>now k\<close>, with \<open>fin k\<close>
  finishers before; a finished player is skipped by the loop and crosses nothing more.
\<close>

fun crossings ::
    "int \<Rightarrow> nat \<Rightarrow> (nat \<Rightarrow> 64 word) \<Rightarrow> (nat \<Rightarrow> gotime) \<Rightarrow> (nat \<Rightarrow> nat) \<Rightarrow> nat \<Rightarrow> PlayerState \<Rightarrow>
     PlayerState \<times> Event list" where
  "crossings ml n tick now fin 0 p = (p, [])"
| "crossings ml n tick now fin (Suc k) p =
     (let (q, evs) = crossings ml n tick now fin k p
      in if Finished q then (q, evs)
         else let (q', evs', done) =
                cross_checkpoint ml n (tick k) (now k) (fin k) (NextCp q mod n) q
              in (q', evs @ evs'))"

definition at_start :: "nat \<Rightarrow> PlayerState \<Rightarrow> bool" where
  "at_start n p \<longleftrightarrow> Lap p = 0 \<and> LastCheckpoint p = 0 \<and> NextCp p = 1 mod n \<and>
     \<not> Finished p \<and> BestLapMs p = 0"

text \<open>The laps that have to be closed: two even when \<open>MaxLaps\<close> is one.\<close>

definition laps_to_finish :: "int \<Rightarrow> nat" where
  "laps_to_finish ml = nat (max 2 ml)"

lemma Suc_div_mod_lt: "0 < n \<Longrightarrow> Suc j mod n \<noteq> 0 \<Longrightarrow> Suc j div n = j div n"
  by (simp add: div_Suc mod_Suc split: if_splits)

lemma Suc_div_mod_0: "0 < n \<Longrightarrow> Suc j mod n = 0 \<Longrightarrow> Suc j div n = Suc (j div n)"
  by (simp add: div_Suc)

lemma crossings_count:
  assumes "0 < n" and "at_start n p" and j: "j = min k (n * laps_to_finish ml)"
    and run: "crossings ml n tick now fin k p = (q, evs)"
  shows "Lap q = j div n \<and> LastCheckpoint q = j mod n \<and> NextCp q = Suc j mod n \<and>
     (Finished q \<longleftrightarrow> n * laps_to_finish ml \<le> k)"
  using j run
proof (induction k arbitrary: j q evs)
  case 0
  then show ?case using assms(1,2) by (auto simp: at_start_def laps_to_finish_def)
next
  case (Suc k)
  let ?L = "laps_to_finish ml"
  obtain q0 evs0 where q0: "crossings ml n tick now fin k p = (q0, evs0)" by fastforce
  note IH = Suc.IH [OF refl q0]
  show ?case
  proof (cases "n * ?L \<le> k")
    case True
    then show ?thesis using IH Suc.prems q0 by (auto simp: min_def)
  next
    case False
    then have j0: "min k (n * ?L) = k" and jS: "j = Suc k" using Suc.prems(1) by auto
    obtain q' evs' d where c: "cross_checkpoint ml n (tick k) (now k) (fin k) (Suc k mod n) q0 = (q', evs', d)"
      using prod_cases3 by blast
    have q: "q = q'" using Suc.prems(2) q0 IH False c j0 by (auto simp: Let_def split: prod.splits)
    note f = cross_checkpoint_fields [OF c]
    have lap0: "Lap q0 = k div n" "\<not> Finished q0" using IH j0 False by auto
    have lap: "Lap q = Suc k div n"
      using f(4) lap0 q Suc_div_mod_lt [OF assms(1)] Suc_div_mod_0 [OF assms(1)] by auto
    have fin: "Finished q \<longleftrightarrow> Suc k mod n = 0 \<and> ?L \<le> Suc k div n"
      using f(5,6) lap0 q lap Suc_div_mod_0 [OF assms(1)]
      by (auto simp: laps_to_finish_def)
    have "Suc k mod n = 0 \<and> ?L \<le> Suc k div n \<longleftrightarrow> n * ?L \<le> Suc k"
    proof
      assume "Suc k mod n = 0 \<and> ?L \<le> Suc k div n"
      then show "n * ?L \<le> Suc k" using assms(1) by (metis less_eq_div_iff_mult_less_eq mult.commute)
    next
      assume "n * ?L \<le> Suc k"
      with False have "Suc k = n * ?L" by simp
      then show "Suc k mod n = 0 \<and> ?L \<le> Suc k div n" using assms(1) by simp
    qed
    then show ?thesis using lap fin f(2,3) q jS by (simp add: mod_Suc_eq)
  qed
qed

text \<open>The lap times among the events, and the best of them the way the loop keeps it.\<close>

fun lap_times :: "Event list \<Rightarrow> int list" where
  "lap_times [] = []"
| "lap_times (LapCompletedEvt pid lap ms tick # evs) = ms # lap_times evs"
| "lap_times (e # evs) = lap_times evs"

definition better_lap :: "int \<Rightarrow> int \<Rightarrow> int" where
  "better_lap best ms = (if best = 0 \<or> ms < best then ms else best)"

lemma lap_times_append [simp]: "lap_times (xs @ ys) = lap_times xs @ lap_times ys"
  by (induction xs rule: lap_times.induct) simp_all

lemma best_lap_Min:
  assumes "\<forall>ms \<in> set laps. 0 < ms" and "laps \<noteq> []"
  shows "foldl better_lap 0 laps = Min (set laps)"
  using assms
proof (induction laps rule: rev_induct)
  case (snoc ms laps)
  show ?case
  proof (cases "laps = []")
    case False
    then have "0 < Min (set laps)" using snoc.prems by simp
    moreover have "Min (set (laps @ [ms])) = min ms (Min (set laps))" using False by simp
    moreover have "foldl better_lap 0 laps = Min (set laps)" using snoc False by simp
    moreover have "0 < m \<Longrightarrow> better_lap m ms = min ms m" for m
      by (auto simp: better_lap_def)
    ultimately show ?thesis by simp
  qed (simp add: better_lap_def)
qed simp

lemma cross_checkpoint_laps:
  assumes "cross_checkpoint ml n tick now fin idx p = (p', evs, done)"
  shows "lap_times evs =
      (if idx = 0 \<and> 0 < Lap p then [go_div (time_sub now (LapStartedAt p)) Millisecond] else [])"
    and "BestLapMs p' = foldl better_lap (BestLapMs p) (lap_times evs)"
  using assms by (auto simp: cross_checkpoint_def Let_def better_lap_def split: if_splits)

lemma crossings_laps:
  assumes "at_start n p" and run: "crossings ml n tick now fin k p = (q, evs)"
  shows "length (lap_times evs) = Lap q - 1 \<and> BestLapMs q = foldl better_lap 0 (lap_times evs)"
  using run
proof (induction k arbitrary: q evs)
  case 0
  then show ?case using assms(1) by (auto simp: at_start_def)
next
  case (Suc k)
  obtain q0 evs0 where q0: "crossings ml n tick now fin k p = (q0, evs0)" by fastforce
  note IH = Suc.IH [OF q0]
  show ?case
  proof (cases "Finished q0")
    case True
    then show ?thesis using IH Suc.prems q0 by auto
  next
    case False
    obtain q' evs' d where c:
      "cross_checkpoint ml n (tick k) (now k) (fin k) (NextCp q0 mod n) q0 = (q', evs', d)"
      using prod_cases3 by blast
    have q: "q = q'" "evs = evs0 @ evs'" using Suc.prems q0 False c by auto
    show ?thesis
      using IH cross_checkpoint_laps [OF c] cross_checkpoint_fields(4) [OF c] q
      by (auto split: if_splits)
  qed
qed

subsection \<open>The invariant of a race\<close>

text \<open>
  What holds of the player stored under \<open>pid\<close>, in a race of \<open>ml\<close> laps on \<open>n\<close>
  waypoints (1 when there are none) with finish order \<open>ord\<close>: it carries its own id, its next
  checkpoint follows the last one on the track, it is finished exactly when it has
  closed its laps, and then its \<open>FinishPos\<close> is a place of its own in the order.
\<close>

definition player_ok :: "int \<Rightarrow> nat \<Rightarrow> uuid list \<Rightarrow> uuid \<Rightarrow> PlayerState \<Rightarrow> bool" where
  "player_ok ml n ord pid p \<longleftrightarrow>
     PlayerID p = pid \<and> LastCheckpoint p < n \<and> NextCp p = Suc (LastCheckpoint p) mod n \<and>
     Lap p \<le> laps_to_finish ml \<and> (Finished p \<longleftrightarrow> Lap p = laps_to_finish ml) \<and>
     (Finished p \<longrightarrow> 0 < FinishPos p \<and> FinishPos p \<le> length ord \<and> ord ! (FinishPos p - 1) = pid)"

definition race_wf :: "Race \<Rightarrow> bool" where
  "race_wf r \<longleftrightarrow>
     gm_wf (players r) \<and> gm_wf (specs r) \<and> dom (gm_get (specs r)) = dom (gm_get (players r)) \<and>
     0 < TickRateHz r \<and> 0 < MaxLaps r \<and> int (gm_len (players r)) \<le> MaxPlayers r \<and>
     (\<forall>pid p. gm_get (players r) pid = Some p \<longrightarrow>
        player_ok (MaxLaps r) (lenOr1 (Waypoints (raceTrack r))) (finishedOrder r) pid p) \<and>
     ch_wf (JoinCh r) \<and> ch_wf (LeaveCh r) \<and> ch_wf (InputCh r) \<and> ch_wf (SnapshotOut r)"

lemma race_wf_player:
  "race_wf r \<Longrightarrow> gm_get (players r) pid = Some p \<Longrightarrow>
     player_ok (MaxLaps r) (lenOr1 (Waypoints (raceTrack r))) (finishedOrder r) pid p"
  by (simp add: race_wf_def)

lemma player_ok_append: "player_ok ml n ord pid p \<Longrightarrow> player_ok ml n (ord @ ord2) pid p"
  by (auto simp: player_ok_def nth_append)

lemma New_wf [simp, keeps_intros]: "race_wf (New rid track hz laps mp now)"
  by (simp add: New_def race_wf_def DefaultTickHz_def DefaultMaxLaps_def DefaultMaxPlayers_def gm_len_def dom_def)

lemma new_player_ok: "0 < MaxLaps r \<Longrightarrow>
    player_ok (MaxLaps r) (lenOr1 (Waypoints (raceTrack r))) ord pid (new_player r pid now now')"
  by (simp add: player_ok_def new_player_def laps_to_finish_def)

lemma AddPlayer_wf [keeps_intros]:
  assumes "race_wf r"
  shows "race_wf (snd (AddPlayer pid spec now now' r))"
  using assms new_player_ok [of r]
  by (auto simp: AddPlayer_def race_wf_def gm.len_put gm.get_put split: option.splits)

lemma RemovePlayer_wf [keeps_intros]:
  assumes "race_wf r"
  shows "race_wf (RemovePlayer pid r)"
  using assms gm.len_del_le [of "players r" pid]
  by (auto simp: RemovePlayer_def race_wf_def gm.get_del)

lemma applyInputLocked_wf [keeps_intros]:
  assumes "race_wf r"
  shows "race_wf (applyInputLocked m r)"
  using assms
  by (auto simp: applyInputLocked_def race_wf_def player_ok_def gm.len_put gm.get_put split: option.splits)

lemma enqueue_wf [keeps_intros]:
  assumes "race_wf r"
  shows "race_wf (ApplyInput im r)" and "race_wf (EnqueueJoin jm r)" and "race_wf (EnqueueLeave lm r)"
  using assms by (simp_all add: ApplyInput_def EnqueueJoin_def EnqueueLeave_def race_wf_def ch.wf_send)

subsection \<open>A tick, player by player\<close>

lemma Step_fields:
  assumes "Step M st i spec dt = Some st'"
  shows "PlayerID st' = PlayerID st" and "Lap st' = Lap st" and "LastCheckpoint st' = LastCheckpoint st"
    and "NextCp st' = NextCp st" and "Finished st' = Finished st" and "FinishPos st' = FinishPos st"
    and "FinishTime st' = FinishTime st" and "StartedAt st' = StartedAt st"
    and "LapStartedAt st' = LapStartedAt st" and "BestLapMs st' = BestLapMs st"
    and "LastInput st' = LastInput st" and "LastInputTick st' = LastInputTick st"
  by (subst Step_frame [OF assms], simp)+

text \<open>Either the player stays between checkpoints, or it crosses the next one.\<close>

lemma advance_player_cases:
  assumes "advance_player M track ml dt tick now fin spec p = Some (p', evs, done)"
  obtains st where "Step M p (LastInput p) spec dt = Some st" "p' = st" "evs = []" "\<not> done"
  | st where "Step M p (LastInput p) spec dt = Some st" "Waypoints track \<noteq> []"
      "cross_checkpoint ml (length (Waypoints track)) tick now fin
         (NextCp st mod length (Waypoints track)) st = (p', evs, done)"
  using assms by (auto simp: advance_player_def Let_def split: option.splits if_splits)

lemma advance_player_ok:
  assumes adv: "advance_player M track ml dt tick now (length ord) spec p = Some (p', evs, done)"
    and ok: "player_ok ml (lenOr1 (Waypoints track)) ord pid p" and "\<not> Finished p"
  shows "player_ok ml (lenOr1 (Waypoints track)) (ord @ (if done then [pid] else [])) pid p'"
  using adv
proof (cases rule: advance_player_cases)
  case (1 st)
  then show ?thesis using ok Step_fields [OF 1(1)] by (simp add: player_ok_def)
next
  case (2 st)
  let ?n = "length (Waypoints track)"
  have n: "lenOr1 (Waypoints track) = ?n" "0 < ?n" using 2(2) by (simp_all add: lenOr1_def)
  note s = Step_fields [OF 2(1)] and c = cross_checkpoint_fields [OF 2(3)]
  have lap: "Lap st < laps_to_finish ml" using ok s(2) assms(3) by (auto simp: player_ok_def)
  have place: "done \<Longrightarrow> FinishPos p' = length ord + 1" by (simp add: c(7))
  have "done \<longleftrightarrow> Lap p' = laps_to_finish ml"
    using lap by (auto simp: c(4,5) laps_to_finish_def)
  moreover have "Lap p' \<le> laps_to_finish ml" using lap by (simp add: c(4))
  ultimately show ?thesis
    using ok n s c(1,2,3,6) place assms(3) by (auto simp: player_ok_def nth_append)
qed

lemma advance_player_ID:
  "advance_player M track ml dt tick now fin spec p = Some (p', evs, done) \<Longrightarrow> PlayerID p' = PlayerID p"
  by (erule advance_player_cases) (simp_all add: Step_fields(1) cross_checkpoint_fields(1))

text \<open>One player's tick, before its place is known: a finished player is skipped.\<close>

definition tick_of ::
    "mathlib \<Rightarrow> float64 \<Rightarrow> 64 word \<Rightarrow> (uuid \<Rightarrow> gotime) \<Rightarrow> Race \<Rightarrow> uuid \<Rightarrow> PlayerState \<Rightarrow>
     (PlayerState \<times> Event list \<times> bool) option" where
  "tick_of M dt tick now r pid p =
     (if Finished p then Some (p, [], False)
      else advance_player M (raceTrack r) (MaxLaps r) dt tick (now pid) 0
             (case gm_get (specs r) (PlayerID p) of None \<Rightarrow> DefaultSpec | Some s \<Rightarrow> s) p)"

definition finishes_now ::
    "mathlib \<Rightarrow> float64 \<Rightarrow> 64 word \<Rightarrow> (uuid \<Rightarrow> gotime) \<Rightarrow> Race \<Rightarrow> uuid \<Rightarrow> bool" where
  "finishes_now M dt tick now r pid \<longleftrightarrow>
     (case gm_get (players r) pid of
        None \<Rightarrow> False
      | Some p \<Rightarrow> (case tick_of M dt tick now r pid p of Some (_, _, done) \<Rightarrow> done | None \<Rightarrow> False))"

definition forget_place :: "PlayerState \<Rightarrow> PlayerState" where
  "forget_place p = p\<lparr>FinishPos := 0\<rparr>"

lemma advance_player_fin:
  "advance_player M track ml dt tick now fin spec p =
     (case advance_player M track ml dt tick now 0 spec p of
        None \<Rightarrow> None
      | Some (p', evs, done) \<Rightarrow>
          Some (p'\<lparr>FinishPos := if done then fin + 1 else FinishPos p\<rparr>, evs, done))"
proof (cases "Step M p (LastInput p) spec dt")
  case (Some st)
  have keep: "st\<lparr>FinishPos := FinishPos p\<rparr> = st" using Step_fields(6) [OF Some] by simp
  show ?thesis
    using keep Step_fields(6) [OF Some]
    by (simp add: advance_player_def Some Let_def
        cross_checkpoint_fin [where fin' = fin and fin = 0] split: prod.splits)
qed (simp add: advance_player_def)

lemma advance_one_eq:
  "advance_one M dt tick now pid r =
     (case gm_get (players r) pid of
        None \<Rightarrow> Some r
      | Some p \<Rightarrow>
          if Finished p then Some r
          else (case tick_of M dt tick now r pid p of
                  None \<Rightarrow> None
                | Some (p', evs, done) \<Rightarrow>
                    Some (r\<lparr>players := gm_put pid
                              (p'\<lparr>FinishPos := if done then length (finishedOrder r) + 1 else FinishPos p\<rparr>)
                              (players r),
                            Events := Events r @ evs,
                            finishedOrder := finishedOrder r @ (if done then [PlayerID p] else [])\<rparr>)))"
  by (cases "gm_get (players r) pid")
    (auto simp: advance_one_def tick_of_def Let_def
      advance_player_fin [where fin = "length (finishedOrder r)"]
      dest: advance_player_ID split: option.splits)

lemma advance_one_frame:
  "advance_one M dt tick now pid r = Some r' \<Longrightarrow>
     r' = r\<lparr>players := players r', Events := Events r', finishedOrder := finishedOrder r'\<rparr>"
  by (auto simp: advance_one_def Let_def split: option.splits if_splits prod.splits)

lemma advanceTickLocked_frame:
  "advanceTickLocked M dt tick now ord r = Some r' \<Longrightarrow>
     r' = r\<lparr>players := players r', Events := Events r', finishedOrder := finishedOrder r'\<rparr>"
proof (induction ord arbitrary: r)
  case (Cons pid ord)
  then obtain r1 where r1: "advance_one M dt tick now pid r = Some r1"
    "advanceTickLocked M dt tick now ord r1 = Some r'" by (auto split: option.splits)
  show ?case by (subst Cons.IH [OF r1(2)], subst advance_one_frame [OF r1(1)]) simp
qed simp

lemma advance_one_wf:
  assumes "race_wf r" and "advance_one M dt tick now pid r = Some r'"
  shows "race_wf r'"
proof (cases "gm_get (players r) pid")
  case None
  then show ?thesis using assms by (simp add: advance_one_def)
next
  case (Some p)
  note ok = race_wf_player [OF assms(1) Some]
  then have pid: "PlayerID p = pid" by (simp add: player_ok_def)
  show ?thesis
  proof (cases "Finished p")
    case True
    then show ?thesis using assms Some by (simp add: advance_one_def)
  next
    case False
    let ?spec = "case gm_get (specs r) (PlayerID p) of None \<Rightarrow> DefaultSpec | Some s \<Rightarrow> s"
    obtain p' evs d where
      adv: "advance_player M (raceTrack r) (MaxLaps r) dt tick (now pid) (length (finishedOrder r)) ?spec p
        = Some (p', evs, d)" and
      r': "r' = r\<lparr>players := gm_put pid p' (players r), Events := Events r @ evs,
        finishedOrder := finishedOrder r @ (if d then [pid] else [])\<rparr>"
      using assms(2) Some False pid
      by (auto simp: advance_one_def Let_def dest: advance_player_ID split: option.splits)
    have "player_ok (MaxLaps r) (lenOr1 (Waypoints (raceTrack r)))
        (finishedOrder r @ (if d then [pid] else [])) k q"
      if "gm_get (gm_put pid p' (players r)) k = Some q" for k q
    proof (cases "k = pid")
      case True
      with that show ?thesis using advance_player_ok [OF adv ok False] by simp
    next
      case False
      with that show ?thesis by (intro player_ok_append race_wf_player [OF assms(1)]) simp
    qed
    then show ?thesis
      using assms(1) Some by (auto simp: race_wf_def r' gm.len_put gm.get_put)
  qed
qed

lemma advanceTickLocked_wf:
  "race_wf r \<Longrightarrow> advanceTickLocked M dt tick now ord r = Some r' \<Longrightarrow> race_wf r'"
  by (induction ord arbitrary: r) (auto split: option.splits dest: advance_one_wf)

text \<open>
  What one player does in a tick does not depend on the others, so the visiting order of
  the map decides only the places of players that finish in the same tick.
\<close>

lemma tick_of_frame:
  assumes "advance_one M dt tick now k r = Some r1"
  shows "tick_of M dt tick now r1 = tick_of M dt tick now r"
  by (subst advance_one_frame [OF assms]) (simp add: tick_of_def fun_eq_iff)

lemma forget_place_simps [simp]:
  "forget_place (p\<lparr>FinishPos := x\<rparr>) = forget_place p"
  "Finished (forget_place p) = Finished p"
  by (simp_all add: forget_place_def)

lemma advance_one_get:
  assumes "advance_one M dt tick now k r = Some r1"
  shows "j \<noteq> k \<Longrightarrow> gm_get (players r1) j = gm_get (players r) j"
    and "map_option forget_place (gm_get (players r1) k) =
      (case gm_get (players r) k of None \<Rightarrow> None
       | Some p \<Rightarrow> map_option (\<lambda>(p', _). forget_place p') (tick_of M dt tick now r k p))"
    and "race_wf r \<Longrightarrow> finishedOrder r1 = finishedOrder r @ filter (finishes_now M dt tick now r) [k]"
    and "race_wf r \<Longrightarrow> j \<noteq> k \<Longrightarrow> finishes_now M dt tick now r1 j = finishes_now M dt tick now r j"
proof -
  show other: "j \<noteq> k \<Longrightarrow> gm_get (players r1) j = gm_get (players r) j" for j
    using assms by (auto simp: advance_one_eq split: option.splits if_splits prod.splits)
  show "map_option forget_place (gm_get (players r1) k) =
      (case gm_get (players r) k of None \<Rightarrow> None
       | Some p \<Rightarrow> map_option (\<lambda>(p', _). forget_place p') (tick_of M dt tick now r k p))"
    using assms by (auto simp: advance_one_eq tick_of_def split: option.splits if_splits prod.splits)
  show "race_wf r \<Longrightarrow> finishedOrder r1 = finishedOrder r @ filter (finishes_now M dt tick now r) [k]"
    using assms race_wf_player [of r k]
    by (auto simp: advance_one_eq tick_of_def finishes_now_def player_ok_def
        split: option.splits if_splits prod.splits)
  show "race_wf r \<Longrightarrow> j \<noteq> k \<Longrightarrow> finishes_now M dt tick now r1 j = finishes_now M dt tick now r j"
    unfolding finishes_now_def tick_of_frame [OF assms] by (simp add: other)
qed

lemma tick_players:
  assumes "distinct ord" and "advanceTickLocked M dt tick now ord r = Some r'"
  shows "map_option forget_place (gm_get (players r') k) =
    (case gm_get (players r) k of None \<Rightarrow> None
     | Some p \<Rightarrow> if k \<in> set ord
                then map_option (\<lambda>(p', _). forget_place p') (tick_of M dt tick now r k p)
                else Some (forget_place p))"
  using assms
proof (induction ord arbitrary: r)
  case (Cons j ord)
  then obtain r1 where r1: "advance_one M dt tick now j r = Some r1"
    "advanceTickLocked M dt tick now ord r1 = Some r'" by (auto split: option.splits)
  have IH: "map_option forget_place (gm_get (players r') k) =
    (case gm_get (players r1) k of None \<Rightarrow> None
     | Some p \<Rightarrow> if k \<in> set ord
                then map_option (\<lambda>(p', _). forget_place p') (tick_of M dt tick now r k p)
                else Some (forget_place p))"
    using Cons.IH [OF _ r1(2)] Cons.prems(1) unfolding tick_of_frame [OF r1(1)] by simp
  show ?case
  proof (cases "k = j")
    case True
    then have "k \<notin> set ord" using Cons.prems(1) by simp
    then have "map_option forget_place (gm_get (players r') k) = map_option forget_place (gm_get (players r1) k)"
      using IH by (cases "gm_get (players r1) k") simp_all
    then show ?thesis using advance_one_get(2) [OF r1(1)] True by (simp split: option.split)
  next
    case False
    then show ?thesis using IH advance_one_get(1) [OF r1(1) False] by (simp split: option.split)
  qed
qed (simp split: option.split)

lemma tick_order:
  assumes "race_wf r" and "distinct ord" and "advanceTickLocked M dt tick now ord r = Some r'"
  shows "finishedOrder r' = finishedOrder r @ filter (finishes_now M dt tick now r) ord"
  using assms
proof (induction ord arbitrary: r)
  case (Cons j ord)
  then obtain r1 where r1: "advance_one M dt tick now j r = Some r1"
    "advanceTickLocked M dt tick now ord r1 = Some r'" by (auto split: option.splits)
  have "filter (finishes_now M dt tick now r1) ord = filter (finishes_now M dt tick now r) ord"
    using Cons.prems(2) by (intro filter_cong refl advance_one_get(4) [OF r1(1) Cons.prems(1)]) auto
  moreover have "finishedOrder r' = finishedOrder r1 @ filter (finishes_now M dt tick now r1) ord"
    using Cons.IH [OF advance_one_wf [OF Cons.prems(1) r1(1)] _ r1(2)] Cons.prems(2) by simp
  ultimately show ?case using advance_one_get(3) [OF r1(1) Cons.prems(1)] by simp
qed simp

lemma tick_returns:
  assumes "distinct ord"
  shows "advanceTickLocked M dt tick now ord r = None \<longleftrightarrow>
    (\<exists>k p. k \<in> set ord \<and> gm_get (players r) k = Some p \<and> tick_of M dt tick now r k p = None)"
  using assms
proof (induction ord arbitrary: r)
  case (Cons j ord)
  show ?case
  proof (cases "advance_one M dt tick now j r")
    case None
    then have "\<exists>p. gm_get (players r) j = Some p \<and> tick_of M dt tick now r j p = None"
      by (auto simp: advance_one_eq split: option.splits if_splits)
    then show ?thesis using None by (intro iffI) auto
  next
    case (Some r1)
    have j: "\<nexists>p. gm_get (players r) j = Some p \<and> tick_of M dt tick now r j p = None"
      using Some by (auto simp: advance_one_eq tick_of_def split: option.splits if_splits)
    have "k \<in> set ord \<Longrightarrow> gm_get (players r1) k = gm_get (players r) k" for k
      using Cons.prems by (intro advance_one_get(1) [OF Some]) auto
    then show ?thesis
      using Cons.IH [of r1] Cons.prems Some j by (auto simp: tick_of_frame [OF Some])
  qed
qed simp

lemma tick_order_independent:
  assumes wf: "race_wf r" and ord: "gm_order ord1 (players r)" "gm_order ord2 (players r)"
    and t1: "advanceTickLocked M dt tick now ord1 r = Some r1"
  shows "\<exists>r2. advanceTickLocked M dt tick now ord2 r = Some r2 \<and>
    (\<forall>k. map_option forget_place (gm_get (players r2) k) = map_option forget_place (gm_get (players r1) k)) \<and>
    mset (finishedOrder r2) = mset (finishedOrder r1)"
proof -
  have d: "distinct ord1" "distinct ord2" and s: "set ord1 = set ord2"
    using ord by (simp_all add: gm_order_def)
  obtain r2 where r2: "advanceTickLocked M dt tick now ord2 r = Some r2"
    using tick_returns [OF d(1), of M dt tick now r] tick_returns [OF d(2), of M dt tick now r] t1 s
    by (cases "advanceTickLocked M dt tick now ord2 r") (simp_all, fastforce)
  have "map_option forget_place (gm_get (players r2) k) = map_option forget_place (gm_get (players r1) k)" for k
    unfolding tick_players [OF d(1) t1] tick_players [OF d(2) r2] s by simp
  moreover have "mset (finishedOrder r2) = mset (finishedOrder r1)"
    using tick_order [OF wf d(1) t1] tick_order [OF wf d(2) r2] set_eq_iff_mset_eq_distinct [OF d] s
    by simp
  ultimately show ?thesis using r2 by blast
qed

subsection \<open>Results\<close>

lemma results_from_positions:
  "sorted_wrt (\<lambda>a b. rr_Position a < rr_Position b) (results_from ps i ord) \<and>
   (\<forall>res \<in> set (results_from ps i ord). i < rr_Position res \<and> rr_Position res \<le> i + length ord \<and>
      ord ! (rr_Position res - 1 - i) = rr_PlayerID res \<and> gm_get ps (rr_PlayerID res) \<noteq> None)"
proof (induction ps i ord rule: results_from.induct)
  case (2 ps i pid ord)
  show ?case
  proof (cases "gm_get ps pid")
    case None
    have "(pid # ord) ! (rr_Position res - 1 - i) = ord ! (rr_Position res - 1 - (i + 1))"
      if "i + 1 < rr_Position res" for res
    proof -
      from that have "rr_Position res - 1 - i = Suc (rr_Position res - 1 - (i + 1))" by simp
      then show ?thesis by simp
    qed
    then show ?thesis using 2(1) [OF None] None by fastforce
  next
    case (Some p)
    have "(pid # ord) ! (rr_Position res - 1 - i) = ord ! (rr_Position res - 1 - (i + 1))"
      if "i + 1 < rr_Position res" for res
    proof -
      from that have "rr_Position res - 1 - i = Suc (rr_Position res - 1 - (i + 1))" by simp
      then show ?thesis by simp
    qed
    then show ?thesis using 2(2) [OF Some] Some by (fastforce simp: result_of_def)
  qed
qed simp

lemma results_from_same: "FinalResults r = finalResultsLocked r"
  by (simp add: FinalResults_def finalResultsLocked_def)

subsection \<open>Motion stays bounded\<close>

text \<open>
  Every car respects its own top speed, every heading is wrapped, and everything the race
  still has to consume, its players' latest inputs and the queued messages, is finite.
\<close>

definition race_kin :: "Race \<Rightarrow> bool" where
  "race_kin r \<longleftrightarrow>
     (\<forall>pid p. gm_get (players r) pid = Some p \<longrightarrow>
        sane_input (LastInput p) \<and>
        (\<exists>s. gm_get (specs r) pid = Some s \<and> sane_spec s \<and> kin_ok s p)) \<and>
     list_all (\<lambda>m. sane_input (im_Input m)) (ch_buf (InputCh r)) \<and>
     list_all (\<lambda>m. sane_spec (jm_CarSpec m)) (ch_buf (JoinCh r))"

lemma sane_basics [simp]: "sane_input zero_input" "sane_spec DefaultSpec"
  by (simp_all add: sane_input_def zero_input_def sane_spec_def DefaultSpec_def)
    (intro exI [of _ "3 / 2"], simp)

lemma sane_spec_standing: "sane_spec s \<Longrightarrow> kin_ok s (new_player r pid now now')"
  using pi_q_bounds by (auto simp: sane_spec_def kin_ok_def new_player_def)

lemma New_kin [simp]: "race_kin (New rid track hz laps mp now)"
  by (simp add: New_def race_kin_def)

lemma AddPlayer_kin [keeps_intros]:
  "race_kin r \<Longrightarrow> sane_spec spec \<Longrightarrow> race_kin (snd (AddPlayer pid spec now now' r))"
  by (auto simp: AddPlayer_def race_kin_def gm.get_put sane_spec_standing split: option.splits)
    (simp add: new_player_def)

lemma RemovePlayer_kin [keeps_intros]:
  "race_wf r \<Longrightarrow> race_kin r \<Longrightarrow> race_kin (RemovePlayer pid r)"
  by (auto simp: RemovePlayer_def race_kin_def race_wf_def)

lemma applyInputLocked_kin [keeps_intros]:
  "race_kin r \<Longrightarrow> sane_input (im_Input m) \<Longrightarrow> race_kin (applyInputLocked m r)"
  by (auto simp: applyInputLocked_def race_kin_def gm.get_put kin_ok_def split: option.splits)

lemma enqueue_kin [keeps_intros]:
  assumes "race_kin r"
  shows "sane_input (im_Input im) \<Longrightarrow> race_kin (ApplyInput im r)"
    and "sane_spec (jm_CarSpec jm) \<Longrightarrow> race_kin (EnqueueJoin jm r)"
    and "race_kin (EnqueueLeave lm r)"
  using assms
  by (simp_all add: ApplyInput_def EnqueueJoin_def EnqueueLeave_def race_kin_def ch.abs_send)

lemma advance_player_kin:
  assumes "sane_spec s" and "sane_input (LastInput p)" and "sane_dt dt" and "kin_ok s p"
  shows "\<exists>p' evs d. advance_player M track ml dt tick now fin s p = Some (p', evs, d) \<and>
    kin_ok s p' \<and> LastInput p' = LastInput p"
proof -
  obtain st where st: "Step M p (LastInput p) s dt = Some st" "kin_ok s st"
    using Step_keeps_kin [OF assms] by blast
  obtain p' evs d where adv: "advance_player M track ml dt tick now fin s p = Some (p', evs, d)"
    by (cases "advance_player M track ml dt tick now fin s p")
      (auto simp: advance_player_def st(1) Let_def split: if_splits)
  have "kin_ok s p' \<and> LastInput p' = LastInput p"
    using adv
  proof (cases rule: advance_player_cases)
    case (2 st')
    then show ?thesis
      using st cross_checkpoint_kin [OF 2(3)] Step_fields(11) [OF 2(1)] by (simp add: kin_ok_def)
  qed (use st Step_fields(11) [OF st(1)] in simp)
  with adv show ?thesis by blast
qed

lemma advance_one_kin:
  assumes "race_wf r" and "race_kin r" and "sane_dt dt"
  shows "\<exists>r'. advance_one M dt tick now pid r = Some r' \<and> race_kin r'"
proof (cases "gm_get (players r) pid")
  case None
  then show ?thesis using assms(2) by (simp add: advance_one_def)
next
  case (Some p)
  have pid: "PlayerID p = pid" using race_wf_player [OF assms(1) Some] by (simp add: player_ok_def)
  obtain s where s: "gm_get (specs r) pid = Some s" "sane_spec s" "kin_ok s p" "sane_input (LastInput p)"
    using assms(2) Some by (auto simp: race_kin_def)
  obtain p' evs d where adv: "advance_player M (raceTrack r) (MaxLaps r) dt tick (now pid)
      (length (finishedOrder r)) s p = Some (p', evs, d)" "kin_ok s p'" "LastInput p' = LastInput p"
    using advance_player_kin [OF s(2,4) assms(3) s(3)] by blast
  then show ?thesis
    using assms(2) s pid Some
    by (auto simp: advance_one_def Let_def race_kin_def gm.get_put)
qed

lemma advanceTickLocked_kin:
  "race_wf r \<Longrightarrow> race_kin r \<Longrightarrow> sane_dt dt \<Longrightarrow>
     \<exists>r'. advanceTickLocked M dt tick now ord r = Some r' \<and> race_kin r'"
proof (induction ord arbitrary: r)
  case (Cons pid ord)
  obtain r1 where r1: "advance_one M dt tick now pid r = Some r1" "race_kin r1"
    using advance_one_kin [OF Cons.prems] by blast
  then show ?case using Cons.IH [OF advance_one_wf [OF Cons.prems(1) r1(1)] r1(2) Cons.prems(3)] by simp
qed simp

end
