(* ===== verification/RaceLoop.thy ===== *)
theory RaceLoop
  imports Race
begin

text \<open>
  \<open>Race.Run\<close> of \<open>internal/race/manager.go\<close> as a state machine. Each step of \<open>run_step\<close>
  is what the loop does between two points where another goroutine can act: a channel
  operation, or a section under the race's mutex (cut at the input channel, which the
  others fill without the mutex). \<open>sys_step\<close> interleaves it with what the other
  goroutines do to the race. \<open>finishCalls\<close> counts the calls of \<open>OnFinish\<close>.
\<close>

datatype pc =
    AtTop
  | DrainJoins
  | JoinedNote uuid
  | DrainLeaves
  | LeftNote uuid string
  | LockTick
  | DrainInputs
  | Advance
  | SendSnapshot "WorldSnapshot option"
  | ReapEmpty
  | CheckFinished
  | WaitTick
  | FinishLock
  | FinishCallback bool
  | FinishClose
  | Returned

record RunState =
  race :: Race
  tickIdx :: "64 word"
  started :: bool
  lastEmpty :: gotime
  pc :: pc
  finishCalls :: nat

text \<open>
  What a step finds outside the race: readings of the clock, in the order the step takes
  them (and one for each player the tick visits), whether the context is done, the orders in which
  \<open>range\<close> visits the players, and which ready case a \<open>select\<close> takes.
\<close>

datatype wake = WakeTicker | WakeCtx | WakeDone

record env =
  e_now :: gotime
  e_now' :: gotime
  e_clock :: "uuid \<Rightarrow> gotime"
  e_ctx :: bool
  e_wake :: wake
  e_ord :: "uuid list"
  e_ord' :: "uuid list"

definition loop_dt :: "Race \<Rightarrow> duration" where
  "loop_dt r = go_div Second (TickRateHz r)"

definition init_run :: "Race \<Rightarrow> RunState" where
  "init_run r = \<lparr>race = r, tickIdx = 0, started = False, lastEmpty = zero_time,
     pc = AtTop, finishCalls = 0\<rparr>"

text \<open>The auto-start and the end of the countdown, at the head of the locked section.\<close>

definition auto_start :: "gotime \<Rightarrow> Race \<Rightarrow> Race" where
  "auto_start now r =
     (if status r = StatusPending \<and> 0 < gm_len (players r)
      then r\<lparr>status := StatusStarting, StartRealTime := now,
             Events := Events r @ [RaceStartingEvt]\<rparr>
      else r)"

definition countdown_over :: "gotime \<Rightarrow> Race \<Rightarrow> bool" where
  "countdown_over now r \<longleftrightarrow>
     status r = StatusStarting \<and> CountdownMillis * Millisecond \<le> time_sub now (StartRealTime r)"

text \<open>The locked part of \<open>finishRace\<close>, for a race that is not finished yet.\<close>

definition finish_race :: "gotime \<Rightarrow> Race \<Rightarrow> Race" where
  "finish_race now r =
     (let r = r\<lparr>status := StatusFinished, RaceFinishTime := now\<rparr>;
          results = finalResultsLocked r
      in r\<lparr>Events := Events r @ [RaceFinishedEvt (raceID r) results]\<rparr>)"

definition advance_locked ::
    "mathlib \<Rightarrow> (uuid \<Rightarrow> string) \<Rightarrow> env \<Rightarrow> RunState \<Rightarrow> RunState option" where
  "advance_locked M us e s =
     (case (if status (race s) = StatusInProgress
            then advanceTickLocked M (duration_Seconds (loop_dt (race s))) (tickIdx s)
                   (e_clock e) (e_ord e) (race s)
            else Some (race s)) of
        None \<Rightarrow> None
      | Some r \<Rightarrow>
          Some (s\<lparr>race := r\<lparr>Events := []\<rparr>,
                  pc := SendSnapshot (buildWorldSnapshot us (e_ord' e) r (tickIdx s))\<rparr>))"

text \<open>One step of the loop; \<open>None\<close> when it never comes back, the mutex held.\<close>

definition run_step ::
    "mathlib \<Rightarrow> (uuid \<Rightarrow> string) \<Rightarrow> env \<Rightarrow> RunState \<Rightarrow> RunState option" where
  "run_step M us e s =
     (let r = race s in
      case pc s of
        AtTop \<Rightarrow>
          Some (if e_ctx e \<and> (DoneClosed r \<longrightarrow> e_wake e = WakeCtx) then s\<lparr>pc := FinishLock\<rparr>
                else if DoneClosed r then s\<lparr>pc := Returned\<rparr>
                else s\<lparr>pc := DrainJoins\<rparr>)
      | DrainJoins \<Rightarrow>
          Some (case ch_recv (JoinCh r) of
                  None \<Rightarrow> s\<lparr>pc := DrainLeaves\<rparr>
                | Some (m, c) \<Rightarrow>
                    s\<lparr>race := snd (AddPlayer (jm_PlayerID m) (jm_CarSpec m) (e_now e) (e_now' e)
                                    (r\<lparr>JoinCh := c\<rparr>)),
                      pc := JoinedNote (jm_PlayerID m)\<rparr>)
      | JoinedNote pid \<Rightarrow>
          Some (s\<lparr>race := r\<lparr>Events := Events r @ [PlayerJoinedEvt pid (e_now e)]\<rparr>, pc := DrainJoins\<rparr>)
      | DrainLeaves \<Rightarrow>
          Some (case ch_recv (LeaveCh r) of
                  None \<Rightarrow> s\<lparr>pc := LockTick\<rparr>
                | Some (m, c) \<Rightarrow>
                    s\<lparr>race := RemovePlayer (lm_PlayerID m) (r\<lparr>LeaveCh := c\<rparr>),
                      pc := LeftNote (lm_PlayerID m) (lm_Reason m)\<rparr>)
      | LeftNote pid reason \<Rightarrow>
          Some (s\<lparr>race := r\<lparr>Events := Events r @ [PlayerLeftEvt pid reason]\<rparr>, pc := DrainLeaves\<rparr>)
      | LockTick \<Rightarrow>
          Some (let r = auto_start (e_now e) r
                in if countdown_over (e_now' e) r
                   then s\<lparr>race := r\<lparr>status := StatusInProgress, StartTick := tickIdx s\<rparr>,
                          started := True, pc := DrainInputs\<rparr>
                   else s\<lparr>race := r, pc := DrainInputs\<rparr>)
      | DrainInputs \<Rightarrow>
          Some (case ch_recv (InputCh r) of
                  None \<Rightarrow> s\<lparr>pc := Advance\<rparr>
                | Some (m, c) \<Rightarrow> s\<lparr>race := applyInputLocked m (r\<lparr>InputCh := c\<rparr>)\<rparr>)
      | Advance \<Rightarrow> advance_locked M us e s
      | SendSnapshot None \<Rightarrow> Some (s\<lparr>pc := ReapEmpty\<rparr>)
      | SendSnapshot (Some w) \<Rightarrow>
          Some (s\<lparr>race := r\<lparr>SnapshotOut := ch_send w (SnapshotOut r)\<rparr>, pc := ReapEmpty\<rparr>)
      | ReapEmpty \<Rightarrow>
          Some (if gm_len (players r) = 0 then
                  if lastEmpty s = zero_time then s\<lparr>lastEmpty := e_now e, pc := CheckFinished\<rparr>
                  else if EmptyRaceReapAfter < time_sub (e_now e) (lastEmpty s)
                  then s\<lparr>pc := FinishLock\<rparr>
                  else s\<lparr>pc := CheckFinished\<rparr>
                else s\<lparr>lastEmpty := zero_time, pc := CheckFinished\<rparr>)
      | CheckFinished \<Rightarrow>
          Some (if started s \<and> allPlayersFinished r then s\<lparr>pc := FinishLock\<rparr>
                else s\<lparr>tickIdx := tickIdx s + 1, pc := WaitTick\<rparr>)
      | WaitTick \<Rightarrow>
          Some (case e_wake e of
                  WakeTicker \<Rightarrow> s\<lparr>pc := AtTop\<rparr>
                | WakeCtx \<Rightarrow> (if e_ctx e then s\<lparr>pc := FinishLock\<rparr> else s)
                | WakeDone \<Rightarrow> (if DoneClosed r then s\<lparr>pc := Returned\<rparr> else s))
      | FinishLock \<Rightarrow>
          Some (if status r = StatusFinished then s\<lparr>pc := Returned\<rparr>
                else s\<lparr>race := finish_race (e_now e) r, pc := FinishCallback (OnFinish r)\<rparr>)
      | FinishCallback cb \<Rightarrow>
          Some (s\<lparr>finishCalls := finishCalls s + (if cb then 1 else 0), pc := FinishClose\<rparr>)
      | FinishClose \<Rightarrow> Some (s\<lparr>race := r\<lparr>DoneClosed := True\<rparr>, pc := Returned\<rparr>)
      | Returned \<Rightarrow> Some s)"

text \<open>The mutex is held across these points.\<close>

definition lock_held :: "pc \<Rightarrow> bool" where
  "lock_held p \<longleftrightarrow> p = DrainInputs \<or> p = Advance"

definition env_ok :: "env \<Rightarrow> Race \<Rightarrow> bool" where
  "env_ok e r \<longleftrightarrow>
     gm_order (e_ord e) (players r) \<and> gm_order (e_ord' e) (players r) \<and>
     (case e_wake e of WakeTicker \<Rightarrow> True | WakeCtx \<Rightarrow> e_ctx e | WakeDone \<Rightarrow> DoneClosed r)"

text \<open>
  The whole race: its own loop, and the other goroutines: the dispatcher registering a
  player (under the mutex) and queueing inputs, the channel enqueues, and the
  broadcaster taking a snapshot.
\<close>

inductive sys_step :: "mathlib \<Rightarrow> (uuid \<Rightarrow> string) \<Rightarrow> RunState \<Rightarrow> RunState \<Rightarrow> bool"
  for M us where
  loop: "env_ok e (race s) \<Longrightarrow> run_step M us e s = Some s' \<Longrightarrow> sys_step M us s s'"
| register: "\<not> lock_held (pc s) \<Longrightarrow>
    sys_step M us s (s\<lparr>race := snd (AddPlayer pid DefaultSpec now now' (race s))\<rparr>)"
| input: "sys_step M us s (s\<lparr>race := ApplyInput im (race s)\<rparr>)"
| join: "sys_step M us s (s\<lparr>race := EnqueueJoin jm (race s)\<rparr>)"
| leave: "sys_step M us s (s\<lparr>race := EnqueueLeave lm (race s)\<rparr>)"
| take_snapshot: "ch_recv (SnapshotOut (race s)) = Some (w, c) \<Longrightarrow>
    sys_step M us s (s\<lparr>race := (race s)\<lparr>SnapshotOut := c\<rparr>\<rparr>)"

inductive reachable :: "mathlib \<Rightarrow> (uuid \<Rightarrow> string) \<Rightarrow> RunState \<Rightarrow> RunState \<Rightarrow> bool" for M us s0 where
  start: "reachable M us s0 s0"
| more: "reachable M us s0 s \<Longrightarrow> sys_step M us s s' \<Longrightarrow> reachable M us s0 s'"

inductive_cases sys_stepE: "sys_step M us s s'"

subsection \<open>What the operations leave alone\<close>

lemma AddPlayer_keeps [step_simps]:
  "status (snd (AddPlayer pid spec now now' r)) = status r"
  "finishedOrder (snd (AddPlayer pid spec now now' r)) = finishedOrder r"
  "DoneClosed (snd (AddPlayer pid spec now now' r)) = DoneClosed r"
  "OnFinish (snd (AddPlayer pid spec now now' r)) = OnFinish r"
  "Events (snd (AddPlayer pid spec now now' r)) = Events r"
  "TickRateHz (snd (AddPlayer pid spec now now' r)) = TickRateHz r"
  "InputCh (snd (AddPlayer pid spec now now' r)) = InputCh r"
  "JoinCh (snd (AddPlayer pid spec now now' r)) = JoinCh r"
  "LeaveCh (snd (AddPlayer pid spec now now' r)) = LeaveCh r"
  by (simp_all add: AddPlayer_def split: option.split)

lemma AddPlayer_finished [step_simps]:
  "status r = StatusFinished \<Longrightarrow> AddPlayer pid spec now now' r = (False, r)"
  by (simp add: AddPlayer_def)

lemma RemovePlayer_keeps [step_simps]:
  "status (RemovePlayer pid r) = status r" "finishedOrder (RemovePlayer pid r) = finishedOrder r"
  "DoneClosed (RemovePlayer pid r) = DoneClosed r" "OnFinish (RemovePlayer pid r) = OnFinish r"
  "TickRateHz (RemovePlayer pid r) = TickRateHz r"
  "InputCh (RemovePlayer pid r) = InputCh r" "JoinCh (RemovePlayer pid r) = JoinCh r"
  "LeaveCh (RemovePlayer pid r) = LeaveCh r"
  by (simp_all add: RemovePlayer_def)

lemma applyInputLocked_keeps [step_simps]:
  "status (applyInputLocked m r) = status r" "finishedOrder (applyInputLocked m r) = finishedOrder r"
  "DoneClosed (applyInputLocked m r) = DoneClosed r" "OnFinish (applyInputLocked m r) = OnFinish r"
  "TickRateHz (applyInputLocked m r) = TickRateHz r"
  "InputCh (applyInputLocked m r) = InputCh r" "JoinCh (applyInputLocked m r) = JoinCh r"
  "LeaveCh (applyInputLocked m r) = LeaveCh r"
  by (simp_all add: applyInputLocked_def split: option.split)

lemma enqueue_keeps [step_simps]:
  "status (ApplyInput im r) = status r" "finishedOrder (ApplyInput im r) = finishedOrder r"
  "DoneClosed (ApplyInput im r) = DoneClosed r" "OnFinish (ApplyInput im r) = OnFinish r"
  "players (ApplyInput im r) = players r"
  "status (EnqueueJoin jm r) = status r" "finishedOrder (EnqueueJoin jm r) = finishedOrder r"
  "DoneClosed (EnqueueJoin jm r) = DoneClosed r" "OnFinish (EnqueueJoin jm r) = OnFinish r"
  "players (EnqueueJoin jm r) = players r"
  "status (EnqueueLeave lm r) = status r" "finishedOrder (EnqueueLeave lm r) = finishedOrder r"
  "DoneClosed (EnqueueLeave lm r) = DoneClosed r" "OnFinish (EnqueueLeave lm r) = OnFinish r"
  "players (EnqueueLeave lm r) = players r"
  by (simp_all add: ApplyInput_def EnqueueJoin_def EnqueueLeave_def)

lemma finish_race_simps [step_simps]:
  "status (finish_race now r) = StatusFinished" "finishedOrder (finish_race now r) = finishedOrder r"
  "DoneClosed (finish_race now r) = DoneClosed r" "OnFinish (finish_race now r) = OnFinish r"
  "players (finish_race now r) = players r" "JoinCh (finish_race now r) = JoinCh r"
  "LeaveCh (finish_race now r) = LeaveCh r" "InputCh (finish_race now r) = InputCh r"
  by (simp_all add: finish_race_def Let_def)

lemma auto_start_simps [step_simps]:
  "finishedOrder (auto_start now r) = finishedOrder r"
  "DoneClosed (auto_start now r) = DoneClosed r" "OnFinish (auto_start now r) = OnFinish r"
  "players (auto_start now r) = players r" "JoinCh (auto_start now r) = JoinCh r"
  "LeaveCh (auto_start now r) = LeaveCh r" "InputCh (auto_start now r) = InputCh r"
  by (simp_all add: auto_start_def)

lemma tick_keeps:
  assumes "advanceTickLocked M dt tick now ord r = Some r'"
  shows "status r' = status r" and "DoneClosed r' = DoneClosed r" and "OnFinish r' = OnFinish r"
    and "InputCh r' = InputCh r" and "JoinCh r' = JoinCh r" and "LeaveCh r' = LeaveCh r"
  by (subst advanceTickLocked_frame [OF assms], simp)+

subsection \<open>The invariant of the loop\<close>

text \<open>
  A race is finished exactly from the locked part of \<open>finishRace\<close> on; \<open>Done\<close> is
  closed exactly when the loop has returned; \<open>OnFinish\<close> has been called once by then, if set.
\<close>

definition ctl_inv :: "RunState \<Rightarrow> bool" where
  "ctl_inv s \<longleftrightarrow>
     (status (race s) = StatusFinished \<longleftrightarrow>
        pc s = FinishCallback (OnFinish (race s)) \<or> pc s = FinishClose \<or> pc s = Returned) \<and>
     (\<forall>cb. pc s = FinishCallback cb \<longrightarrow> cb = OnFinish (race s)) \<and>
     (DoneClosed (race s) \<longleftrightarrow> pc s = Returned) \<and>
     finishCalls s = (if OnFinish (race s) \<and> (pc s = FinishClose \<or> pc s = Returned) then 1 else 0) \<and>
     (status (race s) = StatusInProgress \<longrightarrow> started s) \<and>
     (started s \<longrightarrow> StatusInProgress \<le> status (race s)) \<and>
     (finishedOrder (race s) \<noteq> [] \<longrightarrow> started s)"

definition loop_inv :: "RunState \<Rightarrow> bool" where
  "loop_inv s \<longleftrightarrow> race_wf (race s) \<and> ctl_inv s"

lemma race_wf_updates:
  assumes "race_wf r"
  shows "race_wf (r\<lparr>status := st\<rparr>)" "race_wf (r\<lparr>StartTick := t\<rparr>)" "race_wf (r\<lparr>Events := ev\<rparr>)"
    "race_wf (r\<lparr>StartRealTime := now\<rparr>)" "race_wf (r\<lparr>RaceFinishTime := now\<rparr>)"
    "race_wf (r\<lparr>DoneClosed := b\<rparr>)" "ch_wf jc \<Longrightarrow> race_wf (r\<lparr>JoinCh := jc\<rparr>)"
    "ch_wf lc \<Longrightarrow> race_wf (r\<lparr>LeaveCh := lc\<rparr>)" "ch_wf ic \<Longrightarrow> race_wf (r\<lparr>InputCh := ic\<rparr>)"
    "ch_wf sc \<Longrightarrow> race_wf (r\<lparr>SnapshotOut := sc\<rparr>)" "race_wf (r\<lparr>OnFinish := b\<rparr>)"
  using assms by (simp_all add: race_wf_def)

lemma race_wf_channels:
  assumes "race_wf r"
  shows "ch_recv (JoinCh r) = Some (jm, jc) \<Longrightarrow> ch_wf jc"
    and "ch_recv (LeaveCh r) = Some (lm, lc) \<Longrightarrow> ch_wf lc"
    and "ch_recv (InputCh r) = Some (im, ic) \<Longrightarrow> ch_wf ic"
    and "ch_recv (SnapshotOut r) = Some (w, sc) \<Longrightarrow> ch_wf sc"
    and "ch_wf (ch_send w (SnapshotOut r))"
  using assms by (auto simp: race_wf_def intro: ch.wf_recv ch.wf_send)

lemma auto_start_wf [keeps_intros]: "race_wf r \<Longrightarrow> race_wf (auto_start now r)"
  by (simp add: auto_start_def race_wf_updates)

lemma finish_race_wf [keeps_intros]: "race_wf r \<Longrightarrow> race_wf (finish_race now r)"
  by (simp add: finish_race_def Let_def race_wf_updates)

lemma run_step_wf:
  assumes "race_wf (race s)" and "run_step M us e s = Some s'"
  shows "race_wf (race s')"
  using assms
  by (cases "pc s")
    (auto simp: run_step_def advance_locked_def Let_def
      intro!: keeps_intros race_wf_updates race_wf_channels
      dest: race_wf_channels advanceTickLocked_wf split: option.splits if_splits wake.splits)

lemma auto_start_status:
  "status (auto_start now r) = (if status r = StatusPending \<and> 0 < gm_len (players r)
     then StatusStarting else status r)"
  by (simp add: auto_start_def)

lemma started_status: "StatusInProgress \<le> st \<longleftrightarrow> st = StatusInProgress \<or> st = StatusFinished"
  by (cases st) (simp_all add: status_le)


lemma ctl_inv_Advance:
  assumes "ctl_inv s" and "pc s = Advance"
  shows "pred_option ctl_inv (advance_locked M us e s)"
  using assms
  by (auto simp: advance_locked_def ctl_inv_def started_status split: option.split if_splits dest: tick_keeps)

lemma run_step_ctl:
  assumes "ctl_inv s"
  shows "pred_option ctl_inv (run_step M us e s)"
proof (cases "pc s")
  case Advance
  then show ?thesis using ctl_inv_Advance [OF assms] by (simp add: run_step_def)
next
  case (SendSnapshot w)
  then show ?thesis using assms by (cases w) (auto simp: run_step_def ctl_inv_def Let_def started_status)
qed (use assms in \<open>auto simp: run_step_def ctl_inv_def Let_def started_status auto_start_status
       countdown_over_def step_simps split: option.split if_split wake.split\<close>)

lemma run_step_inv:
  assumes "loop_inv s" and "run_step M us e s = Some s'"
  shows "loop_inv s'"
  using assms run_step_wf [OF _ assms(2)] run_step_ctl [of s M us e] by (simp add: loop_inv_def)

lemma sys_step_inv:
  assumes "loop_inv s" and "sys_step M us s s'"
  shows "loop_inv s'"
  using assms(2)
proof cases
  case (loop e)
  then show ?thesis using run_step_inv assms(1) by blast
next
  case (take_snapshot w c)
  then show ?thesis using assms(1) race_wf_channels(4) by (auto simp: loop_inv_def ctl_inv_def race_wf_updates)
qed (use assms(1) in \<open>auto simp: loop_inv_def ctl_inv_def step_simps intro: keeps_intros\<close>)

lemma init_run_inv [simp]:
  "loop_inv (init_run ((New rid track hz laps mp now)\<lparr>OnFinish := cb\<rparr>))"
  using New_wf [of rid track hz laps mp now]
  by (simp add: loop_inv_def ctl_inv_def init_run_def race_wf_updates) (simp add: New_def status_le)

lemma reachable_inv: "reachable M us s0 s \<Longrightarrow> loop_inv s0 \<Longrightarrow> loop_inv s"
  by (induction rule: reachable.induct) (auto dest: sys_step_inv)

subsection \<open>The lifecycle\<close>

lemma run_step_status:
  "pred_option (\<lambda>s'. status (race s) \<le> status (race s')) (run_step M us e s)"
proof (cases "pc s")
  case Advance
  then show ?thesis
    by (auto simp: run_step_def advance_locked_def split: option.split if_splits dest: tick_keeps)
next
  case (SendSnapshot w)
  then show ?thesis by (cases w) (auto simp: run_step_def Let_def)
next
  case FinishLock
  then show ?thesis by (simp add: run_step_def Let_def step_simps)
qed (auto simp: run_step_def Let_def auto_start_status countdown_over_def step_simps status_le
       split: option.split wake.split)

lemma sys_step_status:
  assumes "sys_step M us s s'"
  shows "status (race s) \<le> status (race s')"
  using assms
proof cases
  case (loop e)
  then show ?thesis using run_step_status [of s M us e] by simp
qed (simp_all add: step_simps)

lemma sys_step_frozen:
  assumes "loop_inv s" and "status (race s) = StatusFinished" and "sys_step M us s s'"
  shows "players (race s') = players (race s)" and "finishedOrder (race s') = finishedOrder (race s)"
    and "RaceFinishTime (race s') = RaceFinishTime (race s)"
proof -
  have pc: "pc s = FinishCallback (OnFinish (race s)) \<or> pc s = FinishClose \<or> pc s = Returned"
    using assms(1,2) by (simp add: loop_inv_def ctl_inv_def)
  have "players (race s') = players (race s) \<and> finishedOrder (race s') = finishedOrder (race s) \<and>
      RaceFinishTime (race s') = RaceFinishTime (race s)"
    using assms(3)
  proof cases
    case (loop e)
    then show ?thesis using pc by (auto simp: run_step_def Let_def)
  next
    case (input im)
    then show ?thesis by (simp add: ApplyInput_def)
  next
    case (join jm)
    then show ?thesis by (simp add: EnqueueJoin_def)
  next
    case (leave lm)
    then show ?thesis by (simp add: EnqueueLeave_def)
  qed (use assms(2) in \<open>simp_all add: step_simps\<close>)
  then show "players (race s') = players (race s)" "finishedOrder (race s') = finishedOrder (race s)"
    "RaceFinishTime (race s') = RaceFinishTime (race s)" by simp_all
qed

text \<open>Why a race finishes: its context ends, it has stood empty, or everyone is across the line.\<close>

lemma finish_reasons:
  assumes "run_step M us e s = Some s'" and "pc s' = FinishLock" and "pc s \<noteq> FinishLock"
  shows "e_ctx e \<or>
    gm_len (players (race s)) = 0 \<and> lastEmpty s \<noteq> zero_time \<and>
      EmptyRaceReapAfter < time_sub (e_now e) (lastEmpty s) \<or>
    started s \<and> allPlayersFinished (race s)"
proof (cases "pc s")
  case (SendSnapshot w)
  then show ?thesis using assms by (cases w) (auto simp: run_step_def Let_def)
qed (use assms in \<open>auto simp: run_step_def Let_def advance_locked_def
       split: option.splits if_splits wake.splits\<close>)

subsection \<open>The loop comes back\<close>

lemma duration_Seconds_sane:
  assumes "0 \<le> d" and "d \<le> Second"
  shows "sane_dt (duration_Seconds d)"
proof (cases "d = Second")
  case True
  moreover have "duration_Seconds Second = Fin 1" by code_simp
  ultimately show ?thesis by (simp add: sane_dt_def)
next
  case False
  define f where "f = rat_of_int d / 1000000000"
  have f: "\<bar>f\<bar> \<le> 2 ^ 0" "0 \<le> f" using assms by (simp_all add: f_def)
  obtain q where q: "rnd64 f = Fin q" "\<bar>q\<bar> \<le> 2 ^ 0" using rnd64_bounded [OF f(1)] by auto
  obtain q' where q': "rnd64 q = Fin q'" "\<bar>q'\<bar> \<le> 2 ^ 0" using rnd64_bounded [OF q(2)] by auto
  have nonneg: "0 \<le> x \<Longrightarrow> rnd64 x = Fin y \<Longrightarrow> 0 \<le> y" for x y
    using f64.round_nonneg [of x]
    by (auto simp: rnd64_def round_flt_overflow inf_signed_def split: if_splits)
  have "go_div d Second = 0" using assms False by (simp add: go_div_nonneg)
  moreover have "rnd64 0 = Fin 0" by code_simp
  ultimately have "duration_Seconds d = Fin q'"
    using q(1) q'(1) by (simp add: duration_Seconds_def f_def)
  then show ?thesis
    using q'(2) nonneg [OF nonneg [OF f(2) q(1)] q'(1)] by (simp add: sane_dt_def)
qed

lemma loop_dt_sane: "0 < TickRateHz r \<Longrightarrow> sane_dt (duration_Seconds (loop_dt r))"
  using div_by_1 [of Second] zdiv_mono2 [of Second 1 "TickRateHz r"]
  by (intro duration_Seconds_sane) (simp_all add: loop_dt_def go_div_nonneg pos_imp_zdiv_nonneg_iff)

text \<open>With finite inputs queued, every step of the loop returns and keeps the motion bounded.\<close>

lemma race_kin_updates:
  assumes "race_kin r"
  shows "race_kin (r\<lparr>status := st\<rparr>)" "race_kin (r\<lparr>StartTick := t\<rparr>)" "race_kin (r\<lparr>Events := ev\<rparr>)"
    "race_kin (r\<lparr>StartRealTime := now\<rparr>)" "race_kin (r\<lparr>RaceFinishTime := now\<rparr>)"
    "race_kin (r\<lparr>DoneClosed := b\<rparr>)" "race_kin (r\<lparr>LeaveCh := lc\<rparr>)"
    "race_kin (r\<lparr>SnapshotOut := sc\<rparr>)" "race_kin (r\<lparr>OnFinish := b\<rparr>)"
  using assms by (simp_all add: race_kin_def)

lemma race_kin_receive:
  assumes "race_kin r"
  shows "ch_recv (JoinCh r) = Some (jm, jc) \<Longrightarrow> race_kin (r\<lparr>JoinCh := jc\<rparr>) \<and> sane_spec (jm_CarSpec jm)"
    and "ch_recv (InputCh r) = Some (im, ic) \<Longrightarrow> race_kin (r\<lparr>InputCh := ic\<rparr>) \<and> sane_input (im_Input im)"
  using assms by (auto simp: race_kin_def dest!: ch.recv_first)

lemma finish_race_kin: "race_kin r \<Longrightarrow> race_kin (finish_race now r)"
  by (simp add: finish_race_def Let_def race_kin_updates)

lemma auto_start_kin: "race_kin r \<Longrightarrow> race_kin (auto_start now r)"
  by (simp add: auto_start_def race_kin_updates)

lemma advance_locked_kin:
  assumes "race_wf (race s)" and "race_kin (race s)"
  shows "\<exists>s'. advance_locked M us e s = Some s' \<and> race_kin (race s')"
proof (cases "status (race s) = StatusInProgress")
  case True
  have "sane_dt (duration_Seconds (loop_dt (race s)))"
    using assms(1) by (intro loop_dt_sane) (simp add: race_wf_def)
  then obtain r' where "advanceTickLocked M (duration_Seconds (loop_dt (race s))) (tickIdx s)
      (e_clock e) (e_ord e) (race s) = Some r'" "race_kin r'"
    using advanceTickLocked_kin [OF assms] by blast
  then show ?thesis using True by (simp add: advance_locked_def race_kin_updates)
qed (use assms(2) in \<open>simp add: advance_locked_def race_kin_updates\<close>)

lemma run_step_kin:
  assumes "race_wf (race s)" and "race_kin (race s)"
  shows "\<exists>s'. run_step M us e s = Some s' \<and> race_kin (race s')"
proof (cases "pc s")
  case Advance
  then show ?thesis using advance_locked_kin [OF assms] by (simp add: run_step_def)
next
  case (SendSnapshot w)
  then show ?thesis using assms by (cases w) (auto simp: run_step_def Let_def race_kin_updates)
next
  case DrainJoins
  then show ?thesis
    using assms by (auto simp: run_step_def Let_def intro!: AddPlayer_kin
        dest: race_kin_receive(1) split: option.split)
next
  case DrainLeaves
  then show ?thesis
    using assms by (auto simp: run_step_def Let_def
        intro!: RemovePlayer_kin race_kin_updates race_wf_updates
        dest: race_wf_channels(2) split: option.split)
next
  case DrainInputs
  then show ?thesis
    using assms by (auto simp: run_step_def Let_def intro!: applyInputLocked_kin
        dest: race_kin_receive(2) split: option.split)
qed (use assms in \<open>auto simp: run_step_def Let_def finish_race_kin auto_start_kin race_kin_updates
       split: wake.split\<close>)

fun run_steps ::
    "mathlib \<Rightarrow> (uuid \<Rightarrow> string) \<Rightarrow> env list \<Rightarrow> RunState \<Rightarrow> RunState option" where
  "run_steps M us [] s = Some s"
| "run_steps M us (e # es) s =
     (case run_step M us e s of None \<Rightarrow> None | Some s' \<Rightarrow> run_steps M us es s')"

text \<open>
  How many steps a loop whose context is done still takes, when nobody sends to it: it
  empties what is queued, ends the iteration it is in and finishes.
\<close>

definition steps_left :: "RunState \<Rightarrow> nat" where
  "steps_left s =
     (let j = length (ch_buf (JoinCh (race s))); l = length (ch_buf (LeaveCh (race s)));
          i = length (ch_buf (InputCh (race s)))
      in case pc s of
           Returned \<Rightarrow> 0 | FinishClose \<Rightarrow> 1 | FinishCallback _ \<Rightarrow> 2 | FinishLock \<Rightarrow> 3
         | AtTop \<Rightarrow> 4 | WaitTick \<Rightarrow> 5 | CheckFinished \<Rightarrow> 6 | ReapEmpty \<Rightarrow> 7
         | SendSnapshot _ \<Rightarrow> 8 | Advance \<Rightarrow> 9 | DrainInputs \<Rightarrow> 10 + i | LockTick \<Rightarrow> 11 + i
         | DrainLeaves \<Rightarrow> 12 + 2 * l + i | LeftNote _ _ \<Rightarrow> 13 + 2 * l + i
         | DrainJoins \<Rightarrow> 13 + 2 * j + 2 * l + i | JoinedNote _ \<Rightarrow> 14 + 2 * j + 2 * l + i)"

lemma recv_length:
  "ch_recv c = Some (m, c') \<Longrightarrow> length (ch_buf c) = Suc (length (ch_buf c'))"
  by (drule ch.recv_first) simp

lemma steps_left_decreases:
  assumes "run_step M us e s = Some s'" and "e_ctx e" and "e_wake e \<noteq> WakeDone"
  shows "steps_left s' < steps_left s \<or> pc s = Returned \<and> s' = s"
proof (cases "pc s")
  case (SendSnapshot w)
  then show ?thesis using assms by (cases w) (auto simp: run_step_def Let_def steps_left_def)
next
  case Advance
  then show ?thesis
    using assms by (auto simp: run_step_def advance_locked_def steps_left_def Let_def split: option.splits)
qed (use assms in \<open>auto simp: run_step_def Let_def steps_left_def step_simps
       split: option.splits if_splits wake.splits dest!: recv_length\<close>)

lemma run_steps_return:
  assumes "loop_inv s" and "race_kin (race s)"
    and "\<forall>e \<in> set es. e_ctx e \<and> e_wake e \<noteq> WakeDone" and "steps_left s \<le> length es"
  shows "\<exists>s'. run_steps M us es s = Some s' \<and> loop_inv s' \<and> pc s' = Returned"
  using assms
proof (induction es arbitrary: s)
  case Nil
  then have "pc s = Returned" by (simp add: steps_left_def Let_def split: pc.splits)
  then show ?case using Nil by simp
next
  case (Cons e es)
  obtain s1 where s1: "run_step M us e s = Some s1" "race_kin (race s1)"
    using run_step_kin [of s M us e] Cons.prems(1,2) by (auto simp: loop_inv_def)
  have "steps_left s1 < steps_left s \<or> pc s = Returned \<and> s1 = s"
    using steps_left_decreases [OF s1(1)] Cons.prems(3) by simp
  moreover have "pc s = Returned \<Longrightarrow> steps_left s = 0" by (simp add: steps_left_def Let_def)
  ultimately have "steps_left s1 \<le> length es" using Cons.prems(4) by auto
  from Cons.IH [OF run_step_inv [OF Cons.prems(1) s1(1)] s1(2) _ this] Cons.prems(3) s1(1)
  show ?case by simp
qed

lemma steps_left_bound:
  assumes "race_wf (race s)"
  shows "steps_left s \<le> 14 + 2 * ch_cap (JoinCh (race s)) + 2 * ch_cap (LeaveCh (race s)) + ch_cap (InputCh (race s))"
  using assms
  by (auto simp: steps_left_def Let_def race_wf_def ch_wf_def split: pc.split)

lemma reachable_trans: "reachable M us b c \<Longrightarrow> reachable M us a b \<Longrightarrow> reachable M us a c"
  by (induction rule: reachable.induct) (auto intro: reachable.intros)

lemma reachable_status: "reachable M us s s' \<Longrightarrow> status (race s) \<le> status (race s')"
  by (induction rule: reachable.induct) (auto dest: sys_step_status intro: order_trans)

lemma reachable_frozen:
  assumes "reachable M us s s'" and "loop_inv s" and "status (race s) = StatusFinished"
  shows "players (race s') = players (race s) \<and> finishedOrder (race s') = finishedOrder (race s) \<and>
    RaceFinishTime (race s') = RaceFinishTime (race s)"
  using assms
proof (induction rule: reachable.induct)
  case (more s1 s2)
  have "loop_inv s1" using reachable_inv [OF more(1)] more by simp
  moreover have "status (race s1) = StatusFinished"
    using reachable_status [OF more(1)] more.prems by (simp add: antisym)
  ultimately show ?case using sys_step_frozen [OF _ _ more(2)] more by simp
qed simp

subsection \<open>Places, when nobody leaves\<close>

text \<open>
  \<open>RemovePlayer\<close> leaves the finish order alone, so a player that leaves and comes back
  can be in it twice. Where nobody leaves, the order lists the finished players, each once.
\<close>

definition order_exact :: "Race \<Rightarrow> bool" where
  "order_exact r \<longleftrightarrow>
     distinct (finishedOrder r) \<and>
     (\<forall>pid. pid \<in> set (finishedOrder r) \<longleftrightarrow> (\<exists>p. gm_get (players r) pid = Some p \<and> Finished p))"

lemma order_exact_AddPlayer: "order_exact r \<Longrightarrow> order_exact (snd (AddPlayer pid spec now now' r))"
  by (auto simp: order_exact_def AddPlayer_def gm.get_put new_player_def split: option.splits)

lemma order_exact_applyInput: "order_exact r \<Longrightarrow> order_exact (applyInputLocked m r)"
  by (auto simp: order_exact_def applyInputLocked_def gm.get_put split: option.splits)

lemma tick_of_finished:
  assumes "tick_of M dt tick now r pid p = Some (p', evs, done)"
  shows "Finished p' \<longleftrightarrow> Finished p \<or> done"
  using assms
  by (auto simp: tick_of_def split: if_splits elim!: advance_player_cases
      dest!: Step_fields(5) cross_checkpoint_fields(6))

lemma order_exact_advance:
  assumes wf: "race_wf r" and "order_exact r" and adv: "advance_one M dt tick now pid r = Some r'"
  shows "order_exact r'"
proof (cases "gm_get (players r) pid")
  case None
  then show ?thesis using assms by (simp add: advance_one_def)
next
  case (Some p)
  have pid: "PlayerID p = pid" using race_wf_player [OF wf Some] by (simp add: player_ok_def)
  show ?thesis
  proof (cases "Finished p")
    case True
    then show ?thesis using assms Some by (simp add: advance_one_def)
  next
    case False
    obtain p' evs d where t: "tick_of M dt tick now r pid p = Some (p', evs, d)"
      and r': "r' = r\<lparr>players := gm_put pid
          (p'\<lparr>FinishPos := if d then length (finishedOrder r) + 1 else FinishPos p\<rparr>) (players r),
        Events := Events r @ evs, finishedOrder := finishedOrder r @ (if d then [pid] else [])\<rparr>"
      using adv Some False pid by (auto simp: advance_one_eq split: option.splits)
    have "Finished p' = d" using tick_of_finished [OF t] False by simp
    moreover have "pid \<notin> set (finishedOrder r)" using assms(2) Some False by (auto simp: order_exact_def)
    ultimately show ?thesis using assms(2) by (auto simp: r' order_exact_def gm.get_put)
  qed
qed

lemma order_exact_tick:
  "race_wf r \<Longrightarrow> order_exact r \<Longrightarrow> advanceTickLocked M dt tick now ord r = Some r' \<Longrightarrow> order_exact r'"
  by (induction ord arbitrary: r)
    (auto split: option.splits dest: advance_one_wf order_exact_advance)

lemma order_exact_results:
  assumes "race_wf r" and "order_exact r"
  shows "FinalResults r =
    map (\<lambda>pid. let p = the (gm_get (players r) pid) in result_of pid (FinishPos p - 1) p) (finishedOrder r)"
proof -
  have "results_from (players r) i ord =
      map (\<lambda>pid. let p = the (gm_get (players r) pid) in result_of pid (FinishPos p - 1) p) ord"
    if "finishedOrder r = pre @ ord" "length pre = i" for pre ord i
    using that
  proof (induction ord arbitrary: pre i)
    case (Cons pid ord)
    obtain p where p: "gm_get (players r) pid = Some p" "Finished p"
      using assms(2) Cons.prems(1) by (auto simp: order_exact_def)
    have f: "0 < FinishPos p" "FinishPos p \<le> length (finishedOrder r)"
      "finishedOrder r ! (FinishPos p - 1) = pid"
      using race_wf_player [OF assms(1) p(1)] p(2) by (auto simp: player_ok_def)
    have "finishedOrder r ! i = pid" using Cons.prems by (simp add: nth_append)
    then have "FinishPos p - 1 = i"
      using f assms(2) Cons.prems nth_eq_iff_index_eq [of "finishedOrder r" "FinishPos p - 1" i]
      by (auto simp: order_exact_def)
    moreover have "results_from (players r) (i + 1) ord =
        map (\<lambda>pid. let p = the (gm_get (players r) pid) in result_of pid (FinishPos p - 1) p) ord"
      using Cons.IH [of "pre @ [pid]" "i + 1"] Cons.prems by simp
    ultimately show ?case using p(1) by (simp add: Let_def)
  qed simp
  from this [of "[]" "finishedOrder r" 0] show ?thesis by (simp add: FinalResults_def)
qed

inductive reachable_staying :: "mathlib \<Rightarrow> (uuid \<Rightarrow> string) \<Rightarrow> RunState \<Rightarrow> RunState \<Rightarrow> bool" for M us s0 where
  start: "reachable_staying M us s0 s0"
| more: "reachable_staying M us s0 s \<Longrightarrow> sys_step M us s s' \<Longrightarrow> ch_buf (LeaveCh (race s')) = [] \<Longrightarrow>
    reachable_staying M us s0 s'"

lemma run_step_order_exact:
  assumes "race_wf (race s)" and "order_exact (race s)" and "ch_buf (LeaveCh (race s)) = []"
    and "run_step M us e s = Some s'"
  shows "order_exact (race s')"
proof (cases "pc s")
  case (SendSnapshot w)
  then show ?thesis using assms by (cases w) (auto simp: run_step_def Let_def order_exact_def)
next
  case Advance
  then show ?thesis
    using assms order_exact_tick [OF assms(1,2)]
    by (auto simp: run_step_def advance_locked_def order_exact_def split: option.splits if_splits)
next
  case DrainJoins
  then show ?thesis
    using assms order_exact_AddPlayer by (auto simp: run_step_def Let_def order_exact_def split: option.splits)
next
  case DrainInputs
  then show ?thesis
    using assms order_exact_applyInput by (auto simp: run_step_def Let_def order_exact_def split: option.splits)
qed (use assms in \<open>auto simp: run_step_def Let_def order_exact_def step_simps ch_recv_def
       split: if_splits wake.splits\<close>)

lemma sys_step_order_exact:
  assumes "race_wf (race s)" and "order_exact (race s)" and "ch_buf (LeaveCh (race s)) = []"
    and "sys_step M us s s'"
  shows "order_exact (race s')"
  using assms(4)
proof cases
  case (loop e)
  then show ?thesis using run_step_order_exact [OF assms(1-3)] by blast
qed (use assms(2) order_exact_AddPlayer in \<open>auto simp: order_exact_def step_simps\<close>)

lemma reachable_staying_exact:
  assumes "reachable_staying M us s0 s" and "loop_inv s0" and "order_exact (race s0)"
    and "ch_buf (LeaveCh (race s0)) = []"
  shows "loop_inv s \<and> order_exact (race s) \<and> ch_buf (LeaveCh (race s)) = []"
  using assms
proof (induction rule: reachable_staying.induct)
  case (more s s')
  then show ?case
    using sys_step_inv [OF _ more(2)] sys_step_order_exact [OF _ _ _ more(2)]
    by (simp add: loop_inv_def)
qed simp

subsection \<open>Inputs that are not finite\<close>

lemma advance_player_NaN:
  assumes "hypot_doc M" and "advance_player M track ml dt tick now fin spec p = Some (p', evs, done)"
    and "Velocity p = NaN \<or> Throttle (LastInput p) = NaN \<or> Brake (LastInput p) = NaN"
  shows "Velocity p' = NaN \<and> evs = [] \<and> \<not> done"
proof -
  obtain st where st: "Step M p (LastInput p) spec dt = Some st"
    using assms(2) by (auto simp: advance_player_def split: option.splits)
  have "Velocity st = NaN" "vec_X (Position st) = NaN" "vec_Z (Position st) = NaN"
    using Step_NaN [OF st] assms(3) by auto
  then show ?thesis
    using assms(1,2) by (auto simp: advance_player_def st Let_def fsub_def hypot_doc_def split: if_splits)
qed

text \<open>A player that will never cross another checkpoint.\<close>

definition stuck :: "uuid \<Rightarrow> Race \<Rightarrow> bool" where
  "stuck pid r \<longleftrightarrow>
     (case gm_get (players r) pid of None \<Rightarrow> False | Some p \<Rightarrow> \<not> Finished p \<and> Velocity p = NaN)"

lemma tick_of_stuck:
  assumes "hypot_doc M" and "tick_of M dt tick now r pid p = Some (p', evs, done)" and "\<not> Finished p"
    and "Velocity p = NaN \<or> Throttle (LastInput p) = NaN \<or> Brake (LastInput p) = NaN"
  shows "\<not> Finished p' \<and> Velocity p' = NaN"
proof -
  have adv: "advance_player M (raceTrack r) (MaxLaps r) dt tick (now pid) 0
      (case gm_get (specs r) (PlayerID p) of None \<Rightarrow> DefaultSpec | Some s \<Rightarrow> s) p = Some (p', evs, done)"
    using assms(2,3) by (simp add: tick_of_def)
  from advance_player_NaN [OF assms(1) adv assms(4)] tick_of_finished [OF assms(2)] assms(3)
  show ?thesis by simp
qed

lemma forget_place_Velocity [simp]: "Velocity (forget_place p) = Velocity p"
  by (simp add: forget_place_def)

lemma tick_stuck:
  assumes "hypot_doc M" and "distinct ord" and "advanceTickLocked M dt tick now ord r = Some r'"
    and p: "gm_get (players r) pid = Some p" "\<not> Finished p"
    and "Velocity p = NaN \<or> pid \<in> set ord \<and> (Throttle (LastInput p) = NaN \<or> Brake (LastInput p) = NaN)"
  shows "stuck pid r'"
proof (cases "pid \<in> set ord")
  case True
  then obtain p' evs d where t: "tick_of M dt tick now r pid p = Some (p', evs, d)"
    using tick_returns [OF assms(2), of M dt tick now r] assms(3) p(1)
    by (cases "tick_of M dt tick now r pid p") auto
  then have "map_option forget_place (gm_get (players r') pid) = Some (forget_place p')"
    using tick_players [OF assms(2,3), of pid] p(1) True by simp
  then obtain q where q: "gm_get (players r') pid = Some q" "forget_place q = forget_place p'" by auto
  then have "Finished q = Finished p'" "Velocity q = Velocity p'"
    by (metis forget_place_simps(2), metis forget_place_Velocity)
  moreover have "\<not> Finished p' \<and> Velocity p' = NaN"
    using tick_of_stuck [OF assms(1) t p(2)] assms(6) by blast
  ultimately show ?thesis using q(1) by (simp add: stuck_def)
next
  case False
  then have "map_option forget_place (gm_get (players r') pid) = Some (forget_place p)"
    using tick_players [OF assms(2,3), of pid] p(1) by simp
  then obtain q where q: "gm_get (players r') pid = Some q" "forget_place q = forget_place p" by auto
  then have "Finished q = Finished p" "Velocity q = Velocity p"
    by (metis forget_place_simps(2), metis forget_place_Velocity)
  then show ?thesis using assms(6) q(1) p(2) False by (simp add: stuck_def)
qed

lemma stuck_frame [simp]:
  "stuck pid (r\<lparr>JoinCh := jc\<rparr>) = stuck pid r" "stuck pid (r\<lparr>InputCh := ic\<rparr>) = stuck pid r"
  "stuck pid (r\<lparr>SnapshotOut := sc\<rparr>) = stuck pid r" "stuck pid (r\<lparr>Events := ev\<rparr>) = stuck pid r"
  "stuck pid (r\<lparr>status := st\<rparr>) = stuck pid r" "stuck pid (r\<lparr>StartTick := t\<rparr>) = stuck pid r"
  "stuck pid (r\<lparr>DoneClosed := b\<rparr>) = stuck pid r" "stuck pid (auto_start now r) = stuck pid r"
  "stuck pid (finish_race now r) = stuck pid r" "stuck pid (ApplyInput im r) = stuck pid r"
  "stuck pid (EnqueueJoin jm r) = stuck pid r" "stuck pid (EnqueueLeave lm r) = stuck pid r"
  by (simp_all add: stuck_def step_simps)

lemma stuck_AddPlayer: "stuck pid r \<Longrightarrow> stuck pid (snd (AddPlayer k spec now now' r))"
  by (auto simp: stuck_def AddPlayer_def gm.get_put split: option.splits)

lemma stuck_applyInput: "stuck pid r \<Longrightarrow> stuck pid (applyInputLocked m r)"
  by (auto simp: stuck_def applyInputLocked_def gm.get_put split: option.splits)

lemma run_step_stuck:
  assumes "hypot_doc M" and "stuck pid (race s)" and "ch_buf (LeaveCh (race s)) = []"
    and "distinct (e_ord e)" and "run_step M us e s = Some s'"
  shows "stuck pid (race s')"
proof (cases "pc s")
  case (SendSnapshot w)
  then show ?thesis using assms by (cases w) (auto simp: run_step_def Let_def)
next
  case Advance
  obtain p where p: "gm_get (players (race s)) pid = Some p" "\<not> Finished p" "Velocity p = NaN"
    using assms(2) by (auto simp: stuck_def split: option.splits)
  have "stuck pid r" if "advanceTickLocked M dt tick now (e_ord e) (race s) = Some r" for dt tick now r
    using tick_stuck [OF assms(1,4) that p(1,2)] p(3) by simp
  then show ?thesis
    using assms(2,5) Advance
    by (auto simp: run_step_def advance_locked_def split: option.splits if_splits)
qed (use assms in \<open>auto simp: run_step_def Let_def ch_recv_def stuck_AddPlayer stuck_applyInput
       split: option.splits list.splits if_splits wake.splits\<close>)

lemma reachable_staying_stuck:
  assumes "reachable_staying M us s0 s" and "hypot_doc M" and "stuck pid (race s0)"
    and "ch_buf (LeaveCh (race s0)) = []"
  shows "stuck pid (race s) \<and> ch_buf (LeaveCh (race s)) = []"
  using assms
proof (induction rule: reachable_staying.induct)
  case (more s s')
  then have s: "stuck pid (race s)" "ch_buf (LeaveCh (race s)) = []" by simp_all
  have "stuck pid (race s')"
    using more(2)
  proof cases
    case (loop e)
    then show ?thesis
      using run_step_stuck [OF more.prems(1) s _ loop(2)] by (simp add: env_ok_def gm_order_def)
  qed (use s stuck_AddPlayer in simp_all)
  with more show ?case by simp
qed simp

lemma stuck_not_all_finished: "stuck pid r \<Longrightarrow> \<not> allPlayersFinished r"
proof -
  assume "stuck pid r"
  then obtain p where "gm_get (players r) pid = Some p" "\<not> Finished p"
    by (auto simp: stuck_def split: option.splits)
  then have "\<exists>x \<in> set (players r). \<not> Finished (snd x)"
    by (intro bexI [of _ "(pid, p)"]) (simp_all add: gm_get_def map_of_SomeD)
  then show ?thesis by (auto simp: allPlayersFinished_def list_all_iff)
qed

text \<open>An infinite steering value: the tick never returns, with the race's mutex held.\<close>

lemma tick_hangs:
  assumes p: "gm_get (players r) pid = Some p" "\<not> Finished p" and "pid \<in> set ord" and "distinct ord"
    and "Step M p (LastInput p) (case gm_get (specs r) (PlayerID p) of None \<Rightarrow> DefaultSpec | Some s \<Rightarrow> s) dt = None"
  shows "advanceTickLocked M dt tick now ord r = None"
proof -
  have "tick_of M dt tick now r pid p = None"
    using assms(5) p(2) by (simp add: tick_of_def advance_player_def)
  then show ?thesis using tick_returns [OF assms(4)] assms(3) p(1) by blast
qed

lemma Step_infinite_steering:
  assumes "Steering i = PInf \<or> Steering i = NInf" and "Heading st = Fin h" and "MaxSteerRate spec = Fin r" "0 < r"
    and "dt = Fin d" "0 < d"
  shows "Step M st i spec dt = None"
  by (rule Step_hangs [OF refl]) (use assms in \<open>auto simp: inf_signed_def\<close>)

text \<open>A mathematical library to run examples with: every distance is zero.\<close>

definition flat_lib :: mathlib where
  "flat_lib = \<lparr>Cos = (\<lambda>_. Fin 1), Sin = (\<lambda>_. Fin 0),
     Hypot = (\<lambda>x y. if x = NaN \<or> y = NaN then NaN else Fin 0)\<rparr>"

end
