(* ===== verification/RaceRun.thy ===== *)
theory RaceRun
  imports RaceLoop
begin

text \<open>
  Races that are run to their end by evaluation: every car stands still where it spawned, \<open>flat_lib\<close> takes every checkpoint for
  near, and each tick comes four seconds after the one before. \<open>quick_step\<close> is \<open>run_step\<close> of such a race without the
  arithmetic of the standing cars, which \<open>quick_step_run\<close> shows.
\<close>

definition lap_env :: "uuid list \<Rightarrow> RunState \<Rightarrow> env" where
  "lap_env ord t = (let now = 50 + 4 * Second * (uint (tickIdx t) + 1) in
     \<lparr>e_now = now, e_now' = now, e_clock = (\<lambda>_. now), e_ctx = False, e_wake = WakeTicker, e_ord = ord, e_ord' = ord\<rparr>)"

text \<open>\<open>still\<close> is a coordinate that adding nothing does not round.\<close>

definition still :: "float32 \<Rightarrow> bool" where
  "still x \<longleftrightarrow> (case x of Fin q \<Rightarrow> rnd32 q = Fin q | _ \<Rightarrow> False)"

definition parked :: "PlayerState \<Rightarrow> bool" where
  "parked p \<longleftrightarrow> Velocity p = Fin 0 \<and> Heading p = Fin 0 \<and> LastInput p = zero_input \<and>
     still (vec_X (Position p)) \<and> still (vec_Z (Position p))"

definition plain :: "Track \<Rightarrow> bool" where
  "plain t \<longleftrightarrow> Waypoints t \<noteq> [] \<and> list_all (\<lambda>w. wp_X w \<noteq> NaN \<and> wp_Z w \<noteq> NaN) (Waypoints t)"

definition quick_one :: "(uuid \<Rightarrow> gotime) \<Rightarrow> 64 word \<Rightarrow> uuid \<Rightarrow> Race \<Rightarrow> Race option" where
  "quick_one now tick pid r =
     (case gm_get (players r) pid of
        None \<Rightarrow> Some r
      | Some p \<Rightarrow>
          if Finished p then Some r
          else if \<not> parked p \<or> gm_get (specs r) (PlayerID p) \<noteq> Some DefaultSpec \<or> \<not> plain (raceTrack r) then None
          else let n = length (Waypoints (raceTrack r));
                   (p', evs, done) = cross_checkpoint (MaxLaps r) n tick (now pid) (length (finishedOrder r)) (NextCp p mod n) p
               in Some (r\<lparr>players := gm_put pid p' (players r), Events := Events r @ evs,
                          finishedOrder := finishedOrder r @ (if done then [PlayerID p'] else [])\<rparr>))"

fun quick_tick :: "(uuid \<Rightarrow> gotime) \<Rightarrow> 64 word \<Rightarrow> uuid list \<Rightarrow> Race \<Rightarrow> Race option" where
  "quick_tick now tick [] r = Some r"
| "quick_tick now tick (pid # ord) r =
     (case quick_one now tick pid r of None \<Rightarrow> None | Some r' \<Rightarrow> quick_tick now tick ord r')"

definition quick_step :: "uuid list \<Rightarrow> RunState \<Rightarrow> RunState option" where
  "quick_step ord t =
     (let e = lap_env ord t
      in if \<not> gm_order ord (players (race t)) \<or> pc t = FinishCallback True then None
         else if pc t \<noteq> Advance then run_step flat_lib (\<lambda>_. ''id'') e t
         else if TickRateHz (race t) \<noteq> 30 then None
         else case (if status (race t) = StatusInProgress then quick_tick (e_clock e) (tickIdx t) ord (race t) else Some (race t)) of
                None \<Rightarrow> None
              | Some r \<Rightarrow> Some (t\<lparr>race := r\<lparr>Events := []\<rparr>, pc := SendSnapshot (buildWorldSnapshot (\<lambda>_. ''id'') ord r (tickIdx t))\<rparr>))"

fun quick :: "uuid list \<Rightarrow> nat \<Rightarrow> RunState \<Rightarrow> RunState option" where
  "quick ord 0 t = Some t"
| "quick ord (Suc n) t = (case quick_step ord t of None \<Rightarrow> None | Some t' \<Rightarrow> quick ord n t')"

lemma zero_rounds: "rnd64 0 = Fin 0" "rnd32 0 = Fin 0"
  by code_simp+

lemma fsub_finite: "x \<noteq> NaN \<Longrightarrow> fsub rnd64 (Fin q) x \<noteq> NaN"
  by (cases x) (simp_all add: fsub_def rnd64_cases)

lemma parked_Step:
  assumes "parked p"
  shows "Step flat_lib p (LastInput p) DefaultSpec (Fin d) = Some p"
proof -
  have "wrap_down (Fin 0) = Some (Fin 0)" by (subst wrap_down.simps) (simp add: Pi64_eq pi_q_def)
  moreover have "wrap_up (Fin 0) = Some (Fin 0)" by (subst wrap_up.simps) (simp add: Pi64_eq pi_q_def)
  ultimately have "wrapAngle (Fin 0) = Some (Fin 0)" by (simp add: wrapAngle_def)
  moreover have "fadd rnd32 x (Fin 0) = x" if "still x" for x using that by (auto simp: still_def split: flt.splits)
  ultimately show ?thesis using assms
    by (cases p) (simp add: Step_def parked_def zero_input_def DefaultSpec_def flat_lib_def zero_rounds fsub_def clampF_def Let_def)
qed

lemma parked_advance:
  assumes "parked p" and "plain track"
  shows "advance_player flat_lib track ml (Fin d) tick now fin DefaultSpec p =
    Some (cross_checkpoint ml (length (Waypoints track)) tick now fin (NextCp p mod length (Waypoints track)) p)"
proof -
  let ?w = "Waypoints track ! (NextCp p mod length (Waypoints track))"
  have ws: "Waypoints track \<noteq> []" using assms(2) by (simp add: plain_def)
  then have "?w \<in> set (Waypoints track)" by (intro nth_mem) simp
  then have "wp_X ?w \<noteq> NaN" "wp_Z ?w \<noteq> NaN" using assms(2) by (auto simp: plain_def list_all_iff)
  moreover obtain x z where "vec_X (Position p) = Fin x" "vec_Z (Position p) = Fin z"
    using assms(1) by (auto simp: parked_def still_def split: flt.splits)
  ultimately have "flt_less (Hypot flat_lib (fsub rnd64 (vec_X (Position p)) (wp_X ?w)) (fsub rnd64 (vec_Z (Position p)) (wp_Z ?w))) (Fin 8)"
    by (simp add: flat_lib_def fsub_finite)
  then show ?thesis unfolding advance_player_def parked_Step [OF assms(1)] Let_def using ws by simp
qed

lemma quick_one_advance:
  assumes "quick_one now tick pid r = Some r'"
  shows "advance_one flat_lib (Fin d) tick now pid r = Some r'"
proof (cases "gm_get (players r) pid")
  case (Some p)
  show ?thesis
  proof (cases "Finished p")
    case False
    then have "parked p" "gm_get (specs r) (PlayerID p) = Some DefaultSpec" "plain (raceTrack r)"
      using assms Some by (auto simp: quick_one_def split: if_splits)
    with assms Some False show ?thesis
      by (simp add: quick_one_def advance_one_def parked_advance Let_def split: prod.splits)
  qed (use assms Some in \<open>simp add: quick_one_def advance_one_def\<close>)
qed (use assms in \<open>simp add: quick_one_def advance_one_def\<close>)

lemma quick_tick_advance: "quick_tick now tick ord r = Some r' \<Longrightarrow> advanceTickLocked flat_lib (Fin d) tick now ord r = Some r'"
  by (induction ord arbitrary: r) (auto simp: quick_one_advance split: option.splits)

lemma lap_env_simps [simp]: "e_ord (lap_env ord t) = ord" "e_ord' (lap_env ord t) = ord" "e_wake (lap_env ord t) = WakeTicker"
  by (simp_all add: lap_env_def Let_def)

lemma quick_step_run:
  assumes "quick_step ord t = Some t'"
  shows "run_step flat_lib (\<lambda>_. ''id'') (lap_env ord t) t = Some t'" and "env_ok (lap_env ord t) (race t)"
    and "pc t \<noteq> FinishCallback True"
proof -
  have ord: "gm_order ord (players (race t))" and cb: "pc t \<noteq> FinishCallback True"
    using assms by (auto simp: quick_step_def Let_def split: if_splits)
  show "env_ok (lap_env ord t) (race t)" using ord by (simp add: env_ok_def)
  show "pc t \<noteq> FinishCallback True" by (rule cb)
  show "run_step flat_lib (\<lambda>_. ''id'') (lap_env ord t) t = Some t'"
  proof (cases "pc t = Advance")
    case False
    then show ?thesis using assms by (simp add: quick_step_def Let_def ord cb)
  next
    case True
    then have hz: "TickRateHz (race t) = 30" using assms ord by (simp add: quick_step_def Let_def split: if_splits)
    then have "loop_dt (race t) = 33333333" by (simp add: loop_dt_def go_div_def)
    moreover have "duration_Seconds 33333333 = Fin (4803839554490133 / 144115188075855872)" by code_simp
    ultimately have "duration_Seconds (loop_dt (race t)) = Fin (4803839554490133 / 144115188075855872)" by simp
    then show ?thesis using assms True ord hz
      by (auto simp: quick_step_def Let_def run_step_def advance_locked_def
          quick_tick_advance [where d = "4803839554490133 / 144115188075855872"] split: option.splits if_splits)
  qed
qed

text \<open>Nobody leaves in such a run.\<close>

lemma run_step_leaves:
  assumes "run_step M us e s = Some s'" and "ch_buf (LeaveCh (race s)) = []"
  shows "ch_buf (LeaveCh (race s')) = []"
proof (cases "pc s")
  case (SendSnapshot w)
  then show ?thesis using assms by (cases w) (auto simp: run_step_def Let_def)
next
  case Advance
  then show ?thesis using assms by (auto simp: run_step_def advance_locked_def dest: tick_keeps(6) split: option.splits if_splits)
qed (use assms in \<open>auto simp: run_step_def Let_def ch_recv_def step_simps split: option.splits list.splits if_splits wake.splits\<close>)

lemma quick_step_leaves: "quick_step ord t = Some t' \<Longrightarrow> ch_buf (LeaveCh (race t)) = [] \<Longrightarrow> ch_buf (LeaveCh (race t')) = []"
  using quick_step_run(1) [of ord t t'] run_step_leaves by blast

lemma quick_staying:
  assumes "reachable_staying flat_lib (\<lambda>_. ''id'') s0 t" and "ch_buf (LeaveCh (race t)) = []" and "quick ord n t = Some t'"
  shows "reachable_staying flat_lib (\<lambda>_. ''id'') s0 t'"
  using assms
proof (induction n arbitrary: t)
  case (Suc n)
  obtain t1 where t1: "quick_step ord t = Some t1" "quick ord n t1 = Some t'" using Suc.prems(3) by (auto split: option.splits)
  note run = quick_step_run [OF t1(1)]
  have l: "ch_buf (LeaveCh (race t1)) = []" using quick_step_leaves [OF t1(1) Suc.prems(2)] .
  show ?case by (rule Suc.IH [OF reachable_staying.more [OF Suc.prems(1) sys_step.loop [OF run(2,1)] l] l t1(2)])
qed simp

end
