(* ===== verification/RaceProps.thy ===== *)
theory RaceProps
  imports RaceRun
begin

text \<open>
  What the race promises: how laps are counted and races finish, that places are exact and
  do not depend on the order of a map, the lifecycle of the loop, its bounded motion, and
  what inputs that are not finite do to it. Each property has a concrete instance below it.
\<close>

subsection \<open>A concrete race\<close>

definition square :: Track where
  "square = \<lparr>trackID = 7, trackName = ''Square'',
     Waypoints = [wp_at 0 0, wp_at 5 0, wp_at 5 5, wp_at 0 5], Spawns = []\<rparr>"

definition demo_race :: Race where
  "demo_race = snd (AddPlayer 9 DefaultSpec 100 100 (New 1 square 30 1 4 50))"

text \<open>Two players on a track of one waypoint: 9 joins first, 3 crosses the line first.\<close>

definition duel_track :: Track where
  "duel_track = \<lparr>trackID = 7, trackName = ''Loop'', Waypoints = [wp_at 0 0], Spawns = []\<rparr>"

definition duel_start :: RunState where
  "duel_start = init_run ((New 1 duel_track 30 1 4 50)\<lparr>OnFinish := True\<rparr>)"

definition duel_joined :: "uuid \<Rightarrow> RunState \<Rightarrow> RunState" where
  "duel_joined pid s = s\<lparr>race := snd (AddPlayer pid DefaultSpec 50 50 (race s))\<rparr>"

definition duel_end :: RunState where
  "duel_end = the (quick [3, 9] 30 (duel_joined 3 (duel_joined 9 duel_start)))"

lemma duel_facts:
  "quick [3, 9] 30 (duel_joined 3 (duel_joined 9 duel_start)) = Some duel_end"
  "finishedOrder (race duel_end) = [3, 9]"
proof -
  have "(case quick [3, 9] 30 (duel_joined 3 (duel_joined 9 duel_start)) of None \<Rightarrow> False | Some t \<Rightarrow> finishedOrder (race t) = [3, 9])"
    by code_simp
  then show "quick [3, 9] 30 (duel_joined 3 (duel_joined 9 duel_start)) = Some duel_end" "finishedOrder (race duel_end) = [3, 9]"
    unfolding duel_end_def by (auto split: option.splits)
qed

lemma duel_reachable: "reachable_staying flat_lib (\<lambda>_. ''id'') duel_start duel_end"
proof -
  have join: "reachable_staying flat_lib (\<lambda>_. ''id'') duel_start (duel_joined pid s)"
    if "reachable_staying flat_lib (\<lambda>_. ''id'') duel_start s" "pc s = AtTop" "ch_buf (LeaveCh (race s)) = []" for pid s
    unfolding duel_joined_def
    by (rule reachable_staying.more [OF that(1) sys_step.register]) (use that in \<open>simp_all add: lock_held_def step_simps\<close>)
  have l: "pc (duel_joined 9 duel_start) = AtTop" "pc duel_start = AtTop" "ch_buf (LeaveCh (race duel_start)) = []"
    "ch_buf (LeaveCh (race (duel_joined pid s))) = ch_buf (LeaveCh (race s))" for pid s
    by (simp_all add: duel_start_def duel_joined_def init_run_def step_simps) (simp_all add: New_def ch_make_def)
  show ?thesis
    by (rule quick_staying [OF _ _ duel_facts(1)]) (intro join reachable_staying.start l | simp add: l)+
qed

definition quiet_env :: env where
  "quiet_env = \<lparr>e_now = 100, e_now' = 100, e_clock = (\<lambda>_. 100), e_ctx = True,
     e_wake = WakeCtx, e_ord = [9], e_ord' = [9]\<rparr>"

subsection \<open>Laps\<close>

text \<open>C5. A player that joins a race on \<open>n\<close> waypoints crosses them in their cyclic order, starting
  from waypoint 1; after \<open>k\<close> of them it has reached waypoint \<open>k mod n\<close> in lap
  \<open>k div n\<close>, and it is finished exactly from crossing \<open>n * max 2 MaxLaps\<close> on:
  a race of one lap is as long as a race of two.\<close>

theorem race_length:
  assumes "Waypoints (raceTrack r) \<noteq> []" and "n = length (Waypoints (raceTrack r))"
    and "crossings (MaxLaps r) n tick now fin k (new_player r pid t t') = (q, evs)"
  shows "(Finished q \<longleftrightarrow> n * nat (max 2 (MaxLaps r)) \<le> k) \<and>
    (k \<le> n * nat (max 2 (MaxLaps r)) \<longrightarrow>
      Lap q = k div n \<and> LastCheckpoint q = k mod n \<and> NextCp q = (k + 1) mod n)"
proof -
  have n: "0 < n" "at_start n (new_player r pid t t')"
    using assms(1,2) by (simp_all add: at_start_def new_player_def lenOr1_def)
  show ?thesis
    using crossings_count [OF n refl assms(3)] by (auto simp: laps_to_finish_def)
qed

theorem race_length_witness:
  "\<exists>q evs. crossings 1 4 (\<lambda>_. 0) int (\<lambda>_. 0) 8 (new_player demo_race 9 0 0) = (q, evs) \<and> Finished q"
proof -
  obtain q evs where q: "crossings 1 4 (\<lambda>_. 0) int (\<lambda>_. 0) 8 (new_player demo_race 9 0 0) = (q, evs)"
    by fastforce
  have d: "raceTrack demo_race = square" "MaxLaps demo_race = 1" by code_simp+
  show ?thesis
    using race_length [of demo_race 4 "\<lambda>_. 0" int "\<lambda>_. 0" 8 9 0 0 q evs] q
    by (simp add: d square_def)
qed

text \<open>Whenever the player stops, one lap time has been reported for each lap closed after the
  first crossing of the start line, and if all of them are positive the player's best lap
  is the least of them.\<close>

theorem best_lap_is_least:
  assumes "n = length (Waypoints (raceTrack r))"
    and "crossings (MaxLaps r) n tick now fin k (new_player r pid t t') = (q, evs)"
    and "Waypoints (raceTrack r) \<noteq> []"
  shows "length (lap_times evs) = Lap q - 1 \<and>
    ((\<forall>ms \<in> set (lap_times evs). 0 < ms) \<and> lap_times evs \<noteq> [] \<longrightarrow>
      BestLapMs q = Min (set (lap_times evs)))"
proof -
  have "at_start n (new_player r pid t t')"
    using assms(1,3) by (simp add: at_start_def new_player_def lenOr1_def)
  from crossings_laps [OF this assms(2)] show ?thesis by (simp add: best_lap_Min)
qed

theorem best_lap_is_least_witness:
  "\<exists>q evs. crossings 1 4 (\<lambda>_. 0) (\<lambda>k. int k * Second) (\<lambda>_. 0) 8 (new_player demo_race 9 0 0) = (q, evs) \<and>
     lap_times evs = [7000] \<and> BestLapMs q = 7000"
proof -
  let ?run = "crossings 1 4 (\<lambda>_. 0) (\<lambda>k. int k * Second) (\<lambda>_. 0) 8 (new_player demo_race 9 0 0)"
  have l: "lap_times (snd ?run) = [7000]" by code_simp
  have d: "raceTrack demo_race = square" "MaxLaps demo_race = 1" by code_simp+
  have "BestLapMs (fst ?run) = 7000"
    using best_lap_is_least [of 4 demo_race "\<lambda>_. 0" "\<lambda>k. int k * Second" "\<lambda>_. 0" 8 9 0 0 "fst ?run" "snd ?run"]
    by (simp add: d square_def l)
  with l show ?thesis by (metis prod.collapse)
qed

subsection \<open>Places\<close>

text \<open>C15. Go visits the players of a race in an unspecified order; whatever the order, a tick
  returns or not, moves every player the same way and lets the same players
  finish. Only the places of players that cross the line in the same tick can differ.\<close>

theorem tick_order_irrelevant:
  assumes "race_wf r" and "gm_order ord1 (players r)" and "gm_order ord2 (players r)"
  shows "(advanceTickLocked M dt tick now ord1 r = None \<longleftrightarrow> advanceTickLocked M dt tick now ord2 r = None) \<and>
    (\<forall>r1 r2. advanceTickLocked M dt tick now ord1 r = Some r1 \<and>
       advanceTickLocked M dt tick now ord2 r = Some r2 \<longrightarrow>
       (\<forall>pid. map_option forget_place (gm_get (players r1) pid) =
              map_option forget_place (gm_get (players r2) pid)) \<and>
       mset (finishedOrder r1) = mset (finishedOrder r2))"
proof -
  note one = tick_order_independent [OF assms(1,2,3), of M dt tick now]
    and two = tick_order_independent [OF assms(1,3,2), of M dt tick now]
  have "advanceTickLocked M dt tick now ord1 r = None \<longleftrightarrow> advanceTickLocked M dt tick now ord2 r = None"
    using one two by (cases "advanceTickLocked M dt tick now ord1 r";
        cases "advanceTickLocked M dt tick now ord2 r") auto
  with one show ?thesis by auto
qed

theorem tick_order_irrelevant_witness:
  "gm_order [3, 9] (players (snd (AddPlayer 3 DefaultSpec 0 0 demo_race))) \<and>
   (advanceTickLocked flat_lib (Fin 0) 0 (\<lambda>_. 0) [3, 9] (snd (AddPlayer 3 DefaultSpec 0 0 demo_race)) = None \<longleftrightarrow>
    advanceTickLocked flat_lib (Fin 0) 0 (\<lambda>_. 0) [9, 3] (snd (AddPlayer 3 DefaultSpec 0 0 demo_race)) = None)"
proof -
  let ?r = "snd (AddPlayer 3 DefaultSpec 0 0 demo_race)"
  have wf: "race_wf ?r" by (simp add: AddPlayer_wf demo_race_def)
  have o: "gm_order [3, 9] (players ?r)" "gm_order [9, 3] (players ?r)" by code_simp+
  show ?thesis using tick_order_irrelevant [OF wf o, of flat_lib "Fin 0" 0 "\<lambda>_. 0"] o by simp
qed

text \<open>C7. While nobody leaves, \<open>FinalResults\<close> has one entry for each finished player, in the
  order they crossed the line: entry \<open>i\<close> is in position \<open>i + 1\<close>, which is the
  \<open>FinishPos\<close> its player was given, and no player appears twice.\<close>

theorem results_are_exact:
  assumes "reachable_staying M us (init_run ((New rid track hz laps mp t)\<lparr>OnFinish := cb\<rparr>)) s"
  shows "map rr_PlayerID (FinalResults (race s)) = finishedOrder (race s) \<and>
    distinct (map rr_PlayerID (FinalResults (race s))) \<and>
    (\<forall>i < length (FinalResults (race s)).
       \<exists>p. gm_get (players (race s)) (rr_PlayerID (FinalResults (race s) ! i)) = Some p \<and> Finished p \<and>
           rr_Position (FinalResults (race s) ! i) = i + 1 \<and> FinishPos p = i + 1)"
proof -
  let ?r = "race s" and ?f = "\<lambda>pid. let p = the (gm_get (players (race s)) pid) in result_of pid (FinishPos p - 1) p"
  have "order_exact (New rid track hz laps mp t\<lparr>OnFinish := cb\<rparr>)"
    by (simp add: order_exact_def New_def)
  then have inv: "race_wf ?r" "order_exact ?r"
    using reachable_staying_exact [OF assms] init_run_inv [of cb rid track hz laps mp t]
    by (simp_all add: init_run_def loop_inv_def New_def)
  note res = order_exact_results [OF inv]
  have ids: "map rr_PlayerID (FinalResults ?r) = finishedOrder ?r"
    by (simp add: res o_def result_of_def Let_def)
  moreover have "\<exists>p. gm_get (players ?r) (rr_PlayerID (FinalResults ?r ! i)) = Some p \<and> Finished p \<and>
      rr_Position (FinalResults ?r ! i) = i + 1 \<and> FinishPos p = i + 1"
    if i: "i < length (finishedOrder ?r)" for i
  proof -
    let ?pid = "finishedOrder ?r ! i"
    obtain p where p: "gm_get (players ?r) ?pid = Some p" "Finished p"
      using inv(2) nth_mem [OF i] by (auto simp: order_exact_def)
    have f: "0 < FinishPos p" "FinishPos p \<le> length (finishedOrder ?r)"
      "finishedOrder ?r ! (FinishPos p - 1) = ?pid"
      using race_wf_player [OF inv(1) p(1)] p(2) by (auto simp: player_ok_def)
    then have "FinishPos p - 1 = i"
      using inv(2) i nth_eq_iff_index_eq [of "finishedOrder ?r" "FinishPos p - 1" i]
      by (auto simp: order_exact_def)
    then show ?thesis using i p f(1) by (auto simp: res result_of_def Let_def)
  qed
  ultimately show ?thesis using inv(2) by (auto simp: order_exact_def res)
qed

theorem results_are_exact_witness:
  "map rr_PlayerID (FinalResults (race duel_end)) = [3, 9] \<and> map rr_Position (FinalResults (race duel_end)) = [1, 2] \<and>
   (\<exists>p. gm_get (players (race duel_end)) 9 = Some p \<and> Finished p \<and> FinishPos p = 2)"
proof -
  have run: "reachable_staying flat_lib (\<lambda>_. ''id'') (init_run ((New 1 duel_track 30 1 4 50)\<lparr>OnFinish := True\<rparr>)) duel_end"
    using duel_reachable by (simp add: duel_start_def)
  note exact = results_are_exact [OF run, unfolded duel_facts(2)]
  then have ids: "map rr_PlayerID (FinalResults (race duel_end)) = [3, 9]" by blast
  then obtain a b where res: "FinalResults (race duel_end) = [a, b]" and ab: "rr_PlayerID b = 9"
    by (auto simp: map_eq_Cons_conv)
  have "rr_Position a = 1" using exact unfolding res by (auto dest!: spec [of _ "0 :: nat"])
  moreover have "rr_Position b = 2 \<and> (\<exists>p. gm_get (players (race duel_end)) 9 = Some p \<and> Finished p \<and> FinishPos p = 2)"
    using exact ab unfolding res by (auto dest!: spec [of _ "1 :: nat"])
  ultimately show ?thesis using ids res by simp
qed

text \<open>C18. At every point of a race, whatever the goroutines do: there are no more players than
  \<open>MaxPlayers\<close>, each has a car, no two finished players share a \<open>FinishPos\<close>, and
  each finished player's place is its own entry of the finish order.\<close>

theorem places_are_unique:
  assumes "reachable M us (init_run ((New rid track hz laps mp t)\<lparr>OnFinish := cb\<rparr>)) s"
  shows "int (gm_len (players (race s))) \<le> MaxPlayers (race s) \<and>
    dom (gm_get (specs (race s))) = dom (gm_get (players (race s))) \<and>
    (\<forall>a b p q. gm_get (players (race s)) a = Some p \<and> gm_get (players (race s)) b = Some q \<and>
       Finished p \<and> Finished q \<and> a \<noteq> b \<longrightarrow> FinishPos p \<noteq> FinishPos q) \<and>
    (\<forall>a p. gm_get (players (race s)) a = Some p \<and> Finished p \<longrightarrow>
       0 < FinishPos p \<and> FinishPos p \<le> length (finishedOrder (race s)) \<and>
       finishedOrder (race s) ! (FinishPos p - 1) = a)"
proof -
  have wf: "race_wf (race s)" using reachable_inv [OF assms init_run_inv] by (simp add: loop_inv_def)
  have place: "gm_get (players (race s)) a = Some p \<Longrightarrow> Finished p \<Longrightarrow>
       0 < FinishPos p \<and> FinishPos p \<le> length (finishedOrder (race s)) \<and>
       finishedOrder (race s) ! (FinishPos p - 1) = a" for a p
    using race_wf_player [OF wf] by (auto simp: player_ok_def)
  have "gm_get (players (race s)) a = Some p \<Longrightarrow> gm_get (players (race s)) b = Some q \<Longrightarrow>
       Finished p \<Longrightarrow> Finished q \<Longrightarrow> FinishPos p = FinishPos q \<Longrightarrow> a = b" for a b p q
    using place [of a p] place [of b q] by simp
  then show ?thesis using wf place by (auto simp: race_wf_def)
qed

theorem places_are_unique_witness:
  "int (gm_len (players (snd (AddPlayer 9 DefaultSpec 0 0 ((New 1 square 30 1 4 50)\<lparr>OnFinish := True\<rparr>))))) \<le> 4"
proof -
  let ?s = "init_run ((New 1 square 30 1 4 50)\<lparr>OnFinish := True\<rparr>)"
  have step: "reachable flat_lib (\<lambda>_. []) ?s (?s\<lparr>race := snd (AddPlayer 9 DefaultSpec 0 0 (race ?s))\<rparr>)"
    by (rule reachable.more [OF reachable.start sys_step.register])
      (simp add: init_run_def lock_held_def)
  have "MaxPlayers (snd (AddPlayer 9 DefaultSpec 0 0 (race ?s))) = 4" by code_simp
  with places_are_unique [OF step] show ?thesis by (simp add: init_run_def)
qed

text \<open>Registering a player: refused when the race is finished or full; a player that is already
  in is accepted and nothing changes; a new one gets a fresh state, at rest on its spawn
  point, heading for waypoint 1 (waypoint 0 on a track of one), and everybody else keeps theirs.\<close>

theorem AddPlayer_outcomes:
  assumes "race_wf r" and "AddPlayer pid spec now now' r = (ok, r')"
  shows "(ok \<longleftrightarrow> status r \<noteq> StatusFinished \<and> int (gm_len (players r)) < MaxPlayers r) \<and>
    (\<not> ok \<or> gm_get (players r) pid \<noteq> None \<longrightarrow> r' = r) \<and>
    (ok \<and> gm_get (players r) pid = None \<longrightarrow>
       gm_get (players r') = (gm_get (players r))(pid \<mapsto> new_player r pid now now') \<and>
       gm_get (specs r') pid = Some spec \<and>
       gm_len (players r') = Suc (gm_len (players r)) \<and> race_wf r')"
proof -
  have "race_wf r'" using AddPlayer_wf [OF assms(1)] assms(2) by (metis snd_conv)
  moreover have "gm_wf (players r)" using assms(1) by (simp add: race_wf_def)
  ultimately show ?thesis
    using assms(2) by (auto simp: AddPlayer_def gm.get_put gm.len_put split: option.splits if_splits)
qed

theorem AddPlayer_outcomes_witness:
  "fst (AddPlayer 9 DefaultSpec 5 5 (New 1 square 30 1 4 50))
   \<and> \<not> fst (AddPlayer 9 DefaultSpec 5 5 (snd (AddPlayer 9 DefaultSpec 5 5 (New 1 square 30 1 1 50))))"
proof -
  let ?r = "New 1 square 30 1 4 50" and ?r1 = "snd (AddPlayer 9 DefaultSpec 5 5 (New 1 square 30 1 1 50))"
  have "race_wf ?r1" by (simp add: AddPlayer_wf)
  moreover have "status ?r = StatusPending" "int (gm_len (players ?r)) < MaxPlayers ?r"
    "\<not> int (gm_len (players ?r1)) < MaxPlayers ?r1" by code_simp+
  ultimately show ?thesis
    using AddPlayer_outcomes [of ?r 9 DefaultSpec 5 5, OF _ prod.collapse [symmetric]]
      AddPlayer_outcomes [of ?r1 9 DefaultSpec 5 5, OF _ prod.collapse [symmetric]] by simp
qed

subsection \<open>The life of a race, abstractly\<close>

text \<open>
  What a race promises to the outside: it waits for players, counts down for three seconds,
  races, and is over for good, with results that never change again. It may be over from
  any point, since its context can end.
\<close>

datatype life = Waiting | Counting gotime | Racing | Over "RaceResult list"

inductive life_step :: "life \<Rightarrow> life \<Rightarrow> bool" where
  countdown: "life_step Waiting (Counting t)"
| go: "CountdownMillis * Millisecond \<le> time_sub now t \<Longrightarrow> life_step (Counting t) Racing"
| over: "\<forall>res. l \<noteq> Over res \<Longrightarrow> life_step l (Over res)"

inductive_simps life_step_Over: "life_step (Over res) l"

definition life_of :: "Race \<Rightarrow> life" where
  "life_of r =
     (case status r of
        StatusPending \<Rightarrow> Waiting
      | StatusStarting \<Rightarrow> Counting (StartRealTime r)
      | StatusInProgress \<Rightarrow> Racing
      | StatusFinished \<Rightarrow> Over (FinalResults r))"

lemma life_of_same:
  assumes "status r' = status r" and "StartRealTime r' = StartRealTime r"
    and "status r = StatusFinished \<Longrightarrow> players r' = players r \<and> finishedOrder r' = finishedOrder r"
  shows "life_of r' = life_of r"
  using assms by (auto simp: life_of_def FinalResults_def split: RaceStatus.split)

lemma StartRealTime_keeps:
  "StartRealTime (snd (AddPlayer pid spec now now' r)) = StartRealTime r"
  "StartRealTime (RemovePlayer pid r) = StartRealTime r"
  "StartRealTime (applyInputLocked m r) = StartRealTime r"
  "StartRealTime (ApplyInput im r) = StartRealTime r"
  "StartRealTime (EnqueueJoin jm r) = StartRealTime r"
  "StartRealTime (EnqueueLeave lm r) = StartRealTime r"
  by (simp_all add: AddPlayer_def RemovePlayer_def applyInputLocked_def ApplyInput_def
      EnqueueJoin_def EnqueueLeave_def split: option.split)

lemma StartRealTime_tick:
  "advanceTickLocked M dt tick now ord r = Some r' \<Longrightarrow> StartRealTime r' = StartRealTime r"
  by (subst advanceTickLocked_frame, assumption) simp

text \<open>Outside the two sections that move the status, the loop leaves the status and its clock alone.\<close>

lemma run_step_same_life:
  assumes "pc s \<noteq> LockTick" and "pc s \<noteq> FinishLock"
  shows "pred_option (\<lambda>s'. status (race s') = status (race s) \<and>
    StartRealTime (race s') = StartRealTime (race s)) (run_step M us e s)"
proof (cases "pc s")
  case Advance
  then show ?thesis
    by (auto simp: run_step_def advance_locked_def StartRealTime_tick
        split: option.split if_splits dest: tick_keeps)
next
  case (SendSnapshot w)
  then show ?thesis by (cases w) (auto simp: run_step_def Let_def)
qed (use assms in \<open>auto simp: run_step_def Let_def step_simps StartRealTime_keeps split: option.split wake.split\<close>)

lemma LockTick_life:
  assumes "pc s = LockTick" and "run_step M us e s = Some s'"
  shows "life_step\<^sup>*\<^sup>* (life_of (race s)) (life_of (race s'))"
proof -
  let ?r = "race s" and ?r1 = "auto_start (e_now e) (race s)"
  have one: "life_step\<^sup>*\<^sup>* (life_of ?r) (life_of ?r1)"
    by (auto simp: auto_start_def life_of_def intro: life_step.countdown)
  have two: "life_step\<^sup>*\<^sup>* (life_of ?r1) (life_of (race s'))"
  proof (cases "countdown_over (e_now' e) ?r1")
    case True
    then have "life_of ?r1 = Counting (StartRealTime ?r1)"
      and "CountdownMillis * Millisecond \<le> time_sub (e_now' e) (StartRealTime ?r1)"
      by (simp_all add: countdown_over_def life_of_def)
    moreover have "life_of (race s') = Racing"
      using assms True by (auto simp: run_step_def Let_def life_of_def)
    ultimately show ?thesis by (simp add: life_step.go r_into_rtranclp)
  next
    case False
    then have "race s' = ?r1" using assms by (auto simp: run_step_def Let_def)
    then show ?thesis by simp
  qed
  from one two show ?thesis by simp
qed

lemma FinishLock_life:
  assumes "pc s = FinishLock" and "run_step M us e s = Some s'"
  shows "life_step\<^sup>*\<^sup>* (life_of (race s)) (life_of (race s'))"
proof (cases "status (race s) = StatusFinished")
  case False
  have "\<forall>res. life_of (race s) \<noteq> Over res"
    using False by (auto simp: life_of_def split: RaceStatus.split)
  then have "life_step (life_of (race s)) (Over (FinalResults (race s')))" by (rule life_step.over)
  moreover have "life_of (race s') = Over (FinalResults (race s'))"
    using assms False by (auto simp: run_step_def Let_def life_of_def step_simps)
  ultimately show ?thesis by (simp add: r_into_rtranclp)
qed (use assms in \<open>auto simp: run_step_def Let_def\<close>)

text \<open>C1. The race implements its abstract life: whatever its loop and the other goroutines do, one
  step of them is a sequence of steps of the abstract race, so the countdown
  lasts at least three seconds, statuses only go forward, and the results of a race that
  is over never change.\<close>

theorem race_refines_life:
  assumes "loop_inv s" and "sys_step M us s s'"
  shows "loop_inv s' \<and> life_step\<^sup>*\<^sup>* (life_of (race s)) (life_of (race s'))"
proof -
  have frozen: "status (race s) = StatusFinished \<Longrightarrow>
      players (race s') = players (race s) \<and> finishedOrder (race s') = finishedOrder (race s)"
    using sys_step_frozen [OF assms(1) _ assms(2)] by simp
  have same: "life_step\<^sup>*\<^sup>* (life_of (race s)) (life_of (race s'))"
    if "status (race s') = status (race s)" "StartRealTime (race s') = StartRealTime (race s)"
    using life_of_same [OF that frozen] by simp
  have "life_step\<^sup>*\<^sup>* (life_of (race s)) (life_of (race s'))"
    using assms(2)
  proof cases
    case (loop e)
    consider "pc s = LockTick" | "pc s = FinishLock" | "pc s \<noteq> LockTick" "pc s \<noteq> FinishLock" by blast
    then show ?thesis
    proof cases
      case 3
      then have "status (race s') = status (race s)" "StartRealTime (race s') = StartRealTime (race s)"
        using run_step_same_life [OF 3, of M us e] loop(2) by simp_all
      then show ?thesis by (rule same)
    qed (use loop(2) LockTick_life FinishLock_life in blast)+
  qed (rule same; simp add: step_simps StartRealTime_keeps)+
  with sys_step_inv [OF assms] show ?thesis by simp
qed

theorem race_refines_life_witness:
  "life_step\<^sup>*\<^sup>* (life_of demo_race) (life_of (auto_start 100 demo_race)) \<and>
   life_of (auto_start 100 demo_race) = Counting 100"
proof -
  let ?s = "(init_run demo_race)\<lparr>pc := LockTick\<rparr>"
  have inv: "loop_inv ?s"
    using New_wf [of 1 square 30 1 4 50]
    by (simp add: loop_inv_def ctl_inv_def init_run_def demo_race_def AddPlayer_wf step_simps)
      (simp add: New_def status_le)
  have env: "env_ok quiet_env demo_race" by code_simp
  have over: "\<not> countdown_over 100 (auto_start 100 demo_race)" by code_simp
  have "run_step flat_lib (\<lambda>_. []) quiet_env ?s =
      Some (?s\<lparr>race := auto_start 100 demo_race, pc := DrainInputs\<rparr>)"
    using over by (simp add: run_step_def init_run_def quiet_env_def)
  then have step: "sys_step flat_lib (\<lambda>_. []) ?s (?s\<lparr>race := auto_start 100 demo_race, pc := DrainInputs\<rparr>)"
    using env by (intro sys_step.loop [of quiet_env]) (simp_all add: init_run_def)
  have "life_of (auto_start 100 demo_race) = Counting 100" by code_simp
  with race_refines_life [OF inv step] show ?thesis by (simp add: init_run_def)
qed

subsection \<open>The loop\<close>

text \<open>\<open>OnFinish\<close> is called at most once, never before the race is finished, and exactly once, if it
  is set, by the time \<open>Done\<close> is closed. \<open>Done\<close> is closed exactly when the loop has returned.\<close>

theorem finish_once:
  assumes "reachable M us (init_run ((New rid track hz laps mp t)\<lparr>OnFinish := cb\<rparr>)) s"
  shows "finishCalls s \<le> 1 \<and> (0 < finishCalls s \<longrightarrow> status (race s) = StatusFinished) \<and>
    (DoneClosed (race s) \<longleftrightarrow> pc s = Returned) \<and>
    (DoneClosed (race s) \<longrightarrow> status (race s) = StatusFinished \<and>
       finishCalls s = (if OnFinish (race s) then 1 else 0))"
  using reachable_inv [OF assms init_run_inv] by (auto simp: loop_inv_def ctl_inv_def)

theorem finish_once_witness:
  "DoneClosed (race (init_run ((New 1 square 30 1 4 50)\<lparr>OnFinish := True\<rparr>))) \<longleftrightarrow>
   pc (init_run ((New 1 square 30 1 4 50)\<lparr>OnFinish := True\<rparr>)) = Returned"
  using finish_once [OF reachable.start [of flat_lib "\<lambda>_. []"
        "init_run ((New 1 square 30 1 4 50)\<lparr>OnFinish := True\<rparr>)"]]
  by simp

text \<open>C16. When the context is done, the loop returns: from any state that keeps its invariant, as long as the inputs, the
  queued inputs and the cars are finite and not absurdly large (\<open>race_kin\<close>), and with nobody sending to it or closing \<open>Done\<close> any more, it needs at
  most 14 steps and one or two for each message its channels can hold, and then
  the race is finished, \<open>Done\<close> closed and the callback, if set, called once. (An infinite steering value
  is beyond \<open>race_kin\<close>: with it the loop may never notice that its context is done.)\<close>

theorem cancel_returns:
  assumes "loop_inv s" and "race_kin (race s)" and "\<forall>e \<in> set es. e_ctx e \<and> e_wake e \<noteq> WakeDone"
    and "14 + 2 * ch_cap (JoinCh (race s)) + 2 * ch_cap (LeaveCh (race s)) + ch_cap (InputCh (race s))
      \<le> length es"
  shows "\<exists>s'. run_steps M us es s = Some s' \<and> pc s' = Returned \<and> DoneClosed (race s') \<and>
    status (race s') = StatusFinished \<and> finishCalls s' = (if OnFinish (race s') then 1 else 0)"
proof -
  have "steps_left s \<le> length es"
    using steps_left_bound [of s] assms(1,4) by (simp add: loop_inv_def)
  from run_steps_return [OF assms(1-3) this]
  obtain s' where "run_steps M us es s = Some s'" "loop_inv s'" "pc s' = Returned" by blast
  then show ?thesis by (auto simp: loop_inv_def ctl_inv_def)
qed

theorem cancel_returns_witness:
  "\<exists>s'. run_steps flat_lib (\<lambda>_. []) (replicate 302 quiet_env) (init_run demo_race) = Some s' \<and>
     status (race s') = StatusFinished"
proof -
  have inv: "loop_inv (init_run demo_race)"
    using New_wf [of 1 square 30 1 4 50]
    by (simp add: loop_inv_def ctl_inv_def init_run_def demo_race_def AddPlayer_wf step_simps)
      (simp add: New_def status_le)
  have kin: "race_kin (race (init_run demo_race))" by (simp add: init_run_def demo_race_def AddPlayer_kin)
  have caps: "ch_cap (JoinCh (race (init_run demo_race))) = 8"
    "ch_cap (LeaveCh (race (init_run demo_race))) = 8" "ch_cap (InputCh (race (init_run demo_race))) = 256"
    by code_simp+
  have env: "\<forall>e \<in> set (replicate 302 quiet_env). e_ctx e \<and> e_wake e \<noteq> WakeDone"
    by (simp add: quiet_env_def)
  show ?thesis using cancel_returns [OF inv kin env, of flat_lib "\<lambda>_. []"] caps by auto
qed

text \<open>C17. As long as inputs and car specs are finite and not absurdly large, no step of the loop
  hangs, every car stays within its top speed and every heading within \<open>[-\<pi>, \<pi>]\<close>.\<close>

theorem loop_never_hangs:
  assumes "race_wf (race s)" and "race_kin (race s)"
  shows "\<exists>s'. run_step M us e s = Some s' \<and> race_wf (race s') \<and> race_kin (race s') \<and>
    (\<forall>pid p. gm_get (players (race s')) pid = Some p \<longrightarrow>
       (\<exists>spec. gm_get (specs (race s')) pid = Some spec \<and> kin_ok spec p))"
proof -
  obtain s' where s': "run_step M us e s = Some s'" "race_kin (race s')"
    using run_step_kin [OF assms] by blast
  with run_step_wf [OF assms(1) s'(1)] show ?thesis by (fastforce simp: race_kin_def)
qed

theorem loop_never_hangs_witness:
  "\<exists>s'. run_step flat_lib (\<lambda>_. []) quiet_env
     ((init_run (demo_race\<lparr>status := StatusInProgress\<rparr>))\<lparr>pc := Advance\<rparr>) = Some s' \<and> race_kin (race s')"
proof -
  let ?s = "(init_run (demo_race\<lparr>status := StatusInProgress\<rparr>))\<lparr>pc := Advance\<rparr>"
  have "race_wf (race ?s)" "race_kin (race ?s)"
    by (simp_all add: init_run_def demo_race_def AddPlayer_wf AddPlayer_kin race_wf_updates race_kin_updates)
  from loop_never_hangs [OF this, of flat_lib "\<lambda>_. []" quiet_env] show ?thesis by blast
qed

text \<open>The loop heads for the end of the race only when its context is done, when it has seen no
  players for more than thirty seconds, or when the race has started and every player has finished.\<close>

theorem why_races_end:
  assumes "run_step M us e s = Some s'" and "pc s' = FinishLock" and "pc s \<noteq> FinishLock"
  shows "e_ctx e \<or>
    gm_len (players (race s)) = 0 \<and> lastEmpty s \<noteq> zero_time \<and>
      EmptyRaceReapAfter < time_sub (e_now e) (lastEmpty s) \<or>
    started s \<and> players (race s) \<noteq> [] \<and> (\<forall>(pid, p) \<in> set (players (race s)). Finished p)"
  using finish_reasons [OF assms]
  by (auto simp: allPlayersFinished_def list_all_iff gm_len_def split: if_splits)

theorem why_races_end_witness:
  "e_ctx quiet_env \<or> started (init_run demo_race)"
proof -
  have "run_step flat_lib (\<lambda>_. []) quiet_env (init_run demo_race) = Some ((init_run demo_race)\<lparr>pc := FinishLock\<rparr>)"
    by code_simp
  from why_races_end [OF this] show ?thesis by (simp add: init_run_def)
qed

subsection \<open>Inputs that are not finite\<close>

text \<open>C20. A NaN throttle or brake, which the dispatcher lets through, ruins a player: after one
  tick in the race its velocity is NaN, and from then on, unless it leaves, it never
  finishes, so the race never ends by everyone finishing.\<close>

theorem NaN_never_finishes:
  assumes "hypot_doc M" and "distinct ord" and "pid \<in> set ord"
    and "gm_get (players r) pid = Some p" and "\<not> Finished p"
    and "Throttle (LastInput p) = NaN \<or> Brake (LastInput p) = NaN"
    and "advanceTickLocked M dt tick now ord r = Some r'"
    and "race s0 = r'" and "ch_buf (LeaveCh r') = []" and "reachable_staying M us s0 s"
  shows "\<not> allPlayersFinished (race s) \<and>
    (\<exists>q. gm_get (players (race s)) pid = Some q \<and> \<not> Finished q \<and> Velocity q = NaN)"
proof -
  have "stuck pid (race s0)" using tick_stuck [OF assms(1,2,7,4,5)] assms(3,6,8) by blast
  then have "stuck pid (race s)" using reachable_staying_stuck [OF assms(10,1)] assms(8,9) by simp
  then show ?thesis
    using stuck_not_all_finished by (auto simp: stuck_def split: option.splits)
qed

lemma triple_exists [simp]: "\<exists>a b c. t = (a, b, c)"
  by (cases t) auto

lemma advance_player_None_iff:
  "advance_player M track ml dt tick now fin spec p = None \<longleftrightarrow> Step M p (LastInput p) spec dt = None"
  by (cases "Step M p (LastInput p) spec dt") (auto simp: advance_player_def Let_def)

definition nan_race :: Race where
  "nan_race = applyInputLocked
     \<lparr>im_PlayerID = 9, im_Input = zero_input\<lparr>Throttle := NaN\<rparr>, im_Sequence = 1\<rparr> demo_race"

theorem NaN_never_finishes_witness:
  "\<exists>r'. advanceTickLocked flat_lib (Fin 0) 0 (\<lambda>_. 0) [9] nan_race = Some r' \<and> \<not> allPlayersFinished r'"
proof -
  have hyp: "hypot_doc flat_lib" by (simp add: hypot_doc_def flat_lib_def)
  have p: "gm_get (players nan_race) 9 = Some ((new_player (New 1 square 30 1 4 50) 9 100 100)
      \<lparr>LastInput := zero_input\<lparr>Throttle := NaN\<rparr>, LastInputTick := 1\<rparr>)" by code_simp
  let ?p = "(new_player (New 1 square 30 1 4 50) 9 100 100)
      \<lparr>LastInput := zero_input\<lparr>Throttle := NaN\<rparr>, LastInputTick := 1\<rparr>"
  have sp: "gm_get (specs nan_race) 9 = Some DefaultSpec" by code_simp
  have z: "rnd64 0 = Fin 0" by code_simp
  obtain h where h: "wrapAngle (Fin 0) = Some h" using wrapAngle_small [of 0] by auto
  have f: "PlayerID ?p = 9" "\<not> Finished ?p" "Throttle (LastInput ?p) = NaN"
    by (simp_all add: new_player_def)
  have "Step flat_lib ?p (LastInput ?p) DefaultSpec (Fin 0) \<noteq> None"
    by (simp add: Step_def Let_def new_player_def zero_input_def DefaultSpec_def z h)
  then have "tick_of flat_lib (Fin 0) 0 (\<lambda>_. 0) nan_race 9 ?p \<noteq> None"
    using f(1,2) by (simp add: tick_of_def sp advance_player_None_iff)
  then obtain r' where r': "advanceTickLocked flat_lib (Fin 0) 0 (\<lambda>_. 0) [9] nan_race = Some r'"
    using tick_returns [of "[9]" flat_lib "Fin 0" 0 "\<lambda>_. 0" nan_race] p
    by (cases "advanceTickLocked flat_lib (Fin 0) 0 (\<lambda>_. 0) [9] nan_race") auto
  have l: "ch_buf (LeaveCh r') = []" using tick_keeps(6) [OF r'] by simp code_simp
  have "\<not> allPlayersFinished r'"
    using NaN_never_finishes [OF hyp _ _ p _ _ r' _ l reachable_staying.start [of flat_lib "\<lambda>_. []" "init_run r'"]]
    using f by (simp add: init_run_def)
  with r' show ?thesis by blast
qed

text \<open>C19. An infinite steering value, of either sign, hangs the race: at 30 ticks a second and with the default car, as the game
  server runs races, once it is the last input of a player that has not finished and whose heading is a number, the tick never returns. Whatever
  the other goroutines do from then on, the mutex stays locked, nobody is registered, no car moves, and the
  race stays in progress, its cancelled context unnoticed.\<close>

theorem infinite_steering_hangs:
  assumes "pc s = Advance" and "status (race s) = StatusInProgress" and "TickRateHz (race s) = 30"
    and "gm_get (players (race s)) pid = Some p" and "\<not> Finished p" and "Heading p = Fin h"
    and "Steering (LastInput p) = PInf \<or> Steering (LastInput p) = NInf"
    and "gm_get (specs (race s)) (PlayerID p) = Some DefaultSpec"
    and "reachable M us s s'"
  shows "(\<forall>e. env_ok e (race s') \<longrightarrow> run_step M us e s' = None) \<and> lock_held (pc s') \<and>
    players (race s') = players (race s) \<and> status (race s') = StatusInProgress \<and> finishCalls s' = finishCalls s"
proof -
  have "duration_Seconds 33333333 = Fin (4803839554490133 / 144115188075855872)" by code_simp
  moreover have "loop_dt (race s) = 33333333" by (simp add: loop_dt_def assms(3) go_div_def)
  ultimately have "duration_Seconds (loop_dt (race s)) = Fin (4803839554490133 / 144115188075855872)" by simp
  then obtain d where d: "duration_Seconds (loop_dt (race s)) = Fin d" "0 < d" by (rule that) simp
  have step: "Step M p (LastInput p) DefaultSpec (Fin d) = None"
    by (rule Step_infinite_steering [OF assms(7,6) _ _ refl d(2), of _ "3 / 2"]) (simp_all add: DefaultSpec_def)
  define same where "same t \<longleftrightarrow> pc t = Advance \<and> status (race t) = StatusInProgress \<and> TickRateHz (race t) = 30 \<and>
      players (race t) = players (race s) \<and> specs (race t) = specs (race s) \<and> finishCalls t = finishCalls s" for t :: RunState
  have hangs: "run_step M us e t = None" if "same t" "env_ok e (race t)" for e t
  proof -
    have "loop_dt (race t) = loop_dt (race s)" using that(1) assms(3) by (simp add: same_def loop_dt_def)
    moreover have "advanceTickLocked M (Fin d) (tickIdx t) (e_clock e) (e_ord e) (race t) = None"
      using that gm_order_dom [of "e_ord e" "players (race t)"] assms(4,5,8) step
      by (intro tick_hangs [of "race t" pid p]) (auto simp: same_def env_ok_def gm_order_def)
    ultimately show ?thesis using that(1) d(1) by (simp add: same_def run_step_def advance_locked_def)
  qed
  have "same s'" using assms(9)
  proof (induction rule: reachable.induct)
    case start
    then show ?case using assms(1-3) by (simp add: same_def)
  next
    case (more t t')
    from more(2) show ?case
    proof cases
      case (loop e)
      then show ?thesis using hangs [OF more.IH] by simp
    qed (use more.IH in \<open>simp_all add: same_def step_simps lock_held_def ApplyInput_def EnqueueJoin_def EnqueueLeave_def\<close>)
  qed
  then show ?thesis using hangs by (simp add: same_def lock_held_def)
qed

definition hang_input :: "flt \<Rightarrow> InputMsg" where
  "hang_input x = \<lparr>im_PlayerID = 9, im_Input = zero_input\<lparr>Steering := x\<rparr>, im_Sequence = 1\<rparr>"

definition hung_race :: "flt \<Rightarrow> RunState" where
  "hung_race x = (init_run ((applyInputLocked (hang_input x) demo_race)\<lparr>status := StatusInProgress\<rparr>))\<lparr>pc := Advance\<rparr>"

text \<open>With both infinities, and after a further input that would set the steering right.\<close>

theorem infinite_steering_hangs_witness:
  "run_step flat_lib (\<lambda>_. []) quiet_env (hung_race PInf) = None \<and> run_step flat_lib (\<lambda>_. []) quiet_env (hung_race NInf) = None \<and>
   run_step flat_lib (\<lambda>_. []) quiet_env ((hung_race NInf)\<lparr>race := ApplyInput (hang_input (Fin 0)) (race (hung_race NInf))\<rparr>) = None"
proof -
  let ?p = "\<lambda>x. the (gm_get (players (race (hung_race x))) 9)"
  have ok: "pc (hung_race x) = Advance" "status (race (hung_race x)) = StatusInProgress" for x
    by (simp_all add: hung_race_def init_run_def)
  have P: "TickRateHz (race (hung_race PInf)) = 30" "env_ok quiet_env (race (hung_race PInf))"
    "gm_get (players (race (hung_race PInf))) 9 \<noteq> None" "\<not> Finished (?p PInf)" "Heading (?p PInf) = Fin 0"
    "Steering (LastInput (?p PInf)) = PInf" "gm_get (specs (race (hung_race PInf))) (PlayerID (?p PInf)) = Some DefaultSpec"
    by code_simp+
  have N: "TickRateHz (race (hung_race NInf)) = 30" "env_ok quiet_env (race (hung_race NInf))"
    "env_ok quiet_env (ApplyInput (hang_input (Fin 0)) (race (hung_race NInf)))"
    "gm_get (players (race (hung_race NInf))) 9 \<noteq> None" "\<not> Finished (?p NInf)" "Heading (?p NInf) = Fin 0"
    "Steering (LastInput (?p NInf)) = NInf" "gm_get (specs (race (hung_race NInf))) (PlayerID (?p NInf)) = Some DefaultSpec"
    by code_simp+
  obtain pP where pP: "gm_get (players (race (hung_race PInf))) 9 = Some pP" using P(3) by blast
  obtain pN where pN: "gm_get (players (race (hung_race NInf))) 9 = Some pN" using N(4) by blast
  note minus = infinite_steering_hangs [OF ok N(1) pN, of 0 flat_lib "\<lambda>_. []"]
  have stuck: "run_step flat_lib (\<lambda>_. []) quiet_env s' = None"
    if "reachable flat_lib (\<lambda>_. []) (hung_race NInf) s'" "env_ok quiet_env (race s')" for s'
    using minus [OF _ _ _ _ that(1)] N(5-8) that(2) unfolding pN option.sel by simp
  have "run_step flat_lib (\<lambda>_. []) quiet_env (hung_race PInf) = None"
    using infinite_steering_hangs [OF ok P(1) pP, of 0 flat_lib "\<lambda>_. []", OF _ _ _ _ reachable.start] P(2,4-7)
    unfolding pP option.sel by simp
  then show ?thesis using stuck reachable.start reachable.more [OF reachable.start sys_step.input] N(2,3) by simp
qed

subsection \<open>The car\<close>

text \<open>C40. \<open>wrapAngle\<close>: whatever it returns lies in \<open>[-Pi, Pi]\<close> (for the double Pi) or is the NaN it
  was given, and it returns for every angle up to \<open>2^50\<close>. For an infinite angle, and for every
  double from \<open>2^60\<close> on, subtracting \<open>2 Pi\<close> changes nothing and it never returns.\<close>

theorem wrapAngle_behaviour:
  "(wrapAngle a = Some r \<longrightarrow> r = NaN \<and> a = NaN \<or> (\<exists>q. r = Fin q \<and> \<bar>q\<bar> \<le> pi_q \<and> Pi64 = Fin pi_q)) \<and>
   (\<bar>x\<bar> \<le> 2 ^ 50 \<longrightarrow> (\<exists>q. wrapAngle (Fin x) = Some (Fin q))) \<and>
   wrapAngle PInf = None \<and> wrapAngle NInf = None \<and>
   (rnd64 y = Fin z \<and> 2 ^ 60 \<le> \<bar>z\<bar> \<longrightarrow> wrapAngle (Fin z) = None)"
proof -
  have "wrapAngle (Fin z) = None" if z: "rnd64 y = Fin z" "2 ^ 60 \<le> \<bar>z\<bar>"
  proof -
    obtain m k where "\<bar>z\<bar> = of_int m * 2 powi k" "\<bar>m\<bar> < 2 ^ 53" "0 \<le> k" "\<bar>z\<bar> < 2 powi 1024"
      using rnd64_rep [OF z] by auto
    from wrapAngle_big [OF this(1-3) z(2) this(4)] show ?thesis by (cases "0 \<le> z") simp_all
  qed
  then show ?thesis using wrapAngle_exit Pi64_eq wrapAngle_small wrapAngle_infinite by blast
qed

theorem wrapAngle_behaviour_witness:
  "wrapAngle (Fin (2 ^ 70)) = None \<and> (\<exists>q. wrapAngle (Fin 100) = Some (Fin q))"
proof -
  have "round_fmt 53 (-1074) (2 ^ 70) = 2 ^ 70"
    by (rule f64.round_fixed [of _ 1 70]) simp_all
  then have "rnd64 (2 ^ 70) = Fin (2 ^ 70)" by (simp add: rnd64_Fin)
  then show ?thesis
    using wrapAngle_behaviour [of NaN NaN 100 "2 ^ 70" "2 ^ 70"] by simp
qed

text \<open>With finite controls, tunables and time step within bounds, a step of a car returns, keeps its speed
  within \<open>MaxSpeed\<close> and its heading wrapped, and moves nothing but its velocity, heading and position.\<close>

theorem Step_bounds:
  assumes "sane_spec spec" and "sane_input i" and "sane_dt dt" and "kin_ok spec st"
  shows "\<exists>st'. Step M st i spec dt = Some st' \<and> kin_ok spec st' \<and>
    st' = st\<lparr>Velocity := Velocity st', Heading := Heading st', Position := Position st'\<rparr> \<and>
    vec_Y (Position st') = vec_Y (Position st)"
proof -
  obtain st' where st': "Step M st i spec dt = Some st'" "kin_ok spec st'"
    using Step_keeps_kin [OF assms] by blast
  then have "vec_Y (Position st') = vec_Y (Position st)"
    by (auto simp: Step_def Let_def split: option.splits)
  with st' Step_frame [OF st'(1)] show ?thesis by blast
qed

theorem Step_bounds_witness:
  "\<exists>st'. Step flat_lib (new_player demo_race 9 0 0) zero_input DefaultSpec (Fin 1) = Some st' \<and>
     kin_ok DefaultSpec st'"
proof -
  have "sane_dt (Fin 1)" by (simp add: sane_dt_def)
  from Step_bounds [OF sane_basics(2,1) this sane_spec_standing [OF sane_basics(2)]]
  show ?thesis by blast
qed

end
