(* ===== verification/Manager.thy ===== *)
theory Manager
  imports RaceLoop
begin

text \<open>
  \<open>internal/race/manager.go\<close>: the registry of in-flight races. A \<open>*Race\<close> is an index into
  the heap of races, which only grows: a race that \<open>CleanupFinished\<close> drops from the manager
  is still referenced by its goroutine and by the sessions of its players. \<open>None\<close> is the nil pointer.
\<close>

type_synonym raceptr = nat

record Manager =
  heap :: "Race list"
  m_races :: "(uuid, raceptr) gomap"
  m_byMatch :: "(uuid, uuid) gomap"
  m_onFinish :: bool
  m_tickHz :: int
  m_maxLaps :: int
  m_maxPlayers :: int

definition NewManager :: "int \<Rightarrow> int \<Rightarrow> int \<Rightarrow> bool \<Rightarrow> Manager" where
  "NewManager tickHz maxLaps maxPlayers onFinish =
     \<lparr>heap = [], m_races = [], m_byMatch = [], m_onFinish = onFinish,
      m_tickHz = (if tickHz \<le> 0 then DefaultTickHz else tickHz),
      m_maxLaps = (if maxLaps \<le> 0 then DefaultMaxLaps else maxLaps),
      m_maxPlayers = (if maxPlayers \<le> 0 then DefaultMaxPlayers else maxPlayers)\<rparr>"

definition Get :: "uuid \<Rightarrow> Manager \<Rightarrow> raceptr option" where
  "Get rid m = gm_get (m_races m) rid"

text \<open>The race and whether the match is known: the race is nil for a match whose race is gone.\<close>

definition ByMatch :: "uuid \<Rightarrow> Manager \<Rightarrow> raceptr option \<times> bool" where
  "ByMatch matchID m =
     (case gm_get (m_byMatch m) matchID of
        None \<Rightarrow> (None, False)
      | Some rid \<Rightarrow> (gm_get (m_races m) rid, True))"

definition List :: "uuid list \<Rightarrow> Manager \<Rightarrow> raceptr list" where
  "List ord m = List.map_filter (gm_get (m_races m)) ord"

text \<open>The first race, in the visiting order, that has the player.\<close>

definition PlayerRace :: "uuid list \<Rightarrow> uuid \<Rightarrow> Manager \<Rightarrow> raceptr option" where
  "PlayerRace ord playerID m =
     (case filter (\<lambda>p. gm_get (players (heap m ! p)) playerID \<noteq> None) (List ord m) of
        [] \<Rightarrow> None
      | p # _ \<Rightarrow> Some p)"

text \<open>\<open>rid\<close> is what \<open>uuid.New()\<close> returns; \<open>go r.Run(ctx)\<close> starts the loop of the new race.\<close>

definition NewRace ::
    "(uuid \<Rightarrow> string + Track) \<Rightarrow> uuid \<Rightarrow> gotime \<Rightarrow> uuid \<Rightarrow> Manager \<Rightarrow> (string + raceptr) \<times> Manager" where
  "NewRace trackFn rid now matchID m =
     (case trackFn matchID of
        Inl err \<Rightarrow> (Inl err, m)
      | Inr track \<Rightarrow>
          let r = (New rid track (m_tickHz m) (m_maxLaps m) (m_maxPlayers m) now)\<lparr>OnFinish := m_onFinish m\<rparr>
          in (Inr (length (heap m)),
              m\<lparr>heap := heap m @ [r],
                m_races := gm_put rid (length (heap m)) (m_races m),
                m_byMatch := gm_put matchID rid (m_byMatch m)\<rparr>))"

definition SetOnFinish :: "bool \<Rightarrow> Manager \<Rightarrow> Manager" where
  "SetOnFinish cb m = m\<lparr>m_onFinish := cb\<rparr>"

definition err_full :: string where
  "err_full = ''race: could not add player (full or finished)''"

text \<open>
  The end of \<open>RegisterPlayer\<close>: \<open>r.AddPlayer\<close> on the race found or created. Calling
  \<open>AddPlayer\<close> on a nil race dereferences nil.
\<close>

definition join_race :: "raceptr \<Rightarrow> uuid \<Rightarrow> gotime \<Rightarrow> Manager \<Rightarrow> (string + raceptr) go \<times> Manager" where
  "join_race p playerID now m =
     (let (ok, r) = AddPlayer playerID DefaultSpec now now (heap m ! p)
      in (Returns (if ok then Inr p else Inl err_full), m\<lparr>heap := (heap m)[p := r]\<rparr>))"

definition RegisterPlayer ::
    "(uuid \<Rightarrow> string + Track) \<Rightarrow> uuid \<Rightarrow> gotime \<Rightarrow> uuid \<Rightarrow> uuid \<Rightarrow> Manager \<Rightarrow>
     (string + raceptr) go \<times> Manager" where
  "RegisterPlayer trackFn rid now matchID playerID m =
     (let (found, m') =
        (case ByMatch matchID m of
           (r, True) \<Rightarrow> (Inr r, m)
         | (_, False) \<Rightarrow>
             (case NewRace trackFn rid now matchID m of
                (Inl err, m') \<Rightarrow> (Inl err, m')
              | (Inr p, m') \<Rightarrow> (Inr (Some p), m')))
      in case found of
           Inl err \<Rightarrow> (Returns (Inl err), m')
         | Inr None \<Rightarrow> (Panics ''invalid memory address or nil pointer dereference'', m')
         | Inr (Some p) \<Rightarrow> join_race p playerID now m')"

text \<open>Every entry of a finished race is deleted; \<open>byMatch\<close> is not touched.\<close>

definition CleanupFinished :: "Manager \<Rightarrow> Manager" where
  "CleanupFinished m =
     m\<lparr>m_races := filter (\<lambda>(_, p). Status (heap m ! p) \<noteq> StatusFinished) (m_races m)\<rparr>"

text \<open>What the goroutine of a race does to the shared heap.\<close>

definition race_moves :: "raceptr \<Rightarrow> Race \<Rightarrow> Manager \<Rightarrow> Manager" where
  "race_moves p r m = m\<lparr>heap := (heap m)[p := r]\<rparr>"

subsection \<open>Invariant\<close>

text \<open>
  Every registered race is in the heap under its own id, and well formed. A match names
  at most one race; the race may be gone.
\<close>

definition mgr_wf :: "Manager \<Rightarrow> bool" where
  "mgr_wf m \<longleftrightarrow>
     gm_wf (m_races m) \<and> gm_wf (m_byMatch m) \<and> list_all race_wf (heap m) \<and>
     (\<forall>rid p. gm_get (m_races m) rid = Some p \<longrightarrow> p < length (heap m) \<and> raceID (heap m ! p) = rid)"

lemma gm_wf_filter: "gm_wf xs \<Longrightarrow> gm_wf (filter P xs)"
  by (simp add: gm_wf_def distinct_map_filter)

lemma gm_get_filter:
  "gm_wf xs \<Longrightarrow> gm_get (filter P xs) k = (case gm_get xs k of None \<Rightarrow> None
     | Some v \<Rightarrow> if P (k, v) then Some v else None)"
  by (induction xs) (auto simp: gm_get_def gm_wf_def map_of_eq_None_iff rev_image_eqI split: option.splits)

lemma AddPlayer_raceID [simp]: "raceID (snd (AddPlayer pid spec now now' r)) = raceID r"
  by (simp add: AddPlayer_def split: option.split)

lemma mgr_wf_heap: "mgr_wf m \<Longrightarrow> gm_get (m_races m) rid = Some p \<Longrightarrow> p < length (heap m) \<and> race_wf (heap m ! p)"
  by (auto simp: mgr_wf_def list_all_length)

lemma mgr_wf_update:
  assumes "mgr_wf m" and "race_wf r" and "p < length (heap m) \<Longrightarrow> raceID r = raceID (heap m ! p)"
  shows "mgr_wf (m\<lparr>heap := (heap m)[p := r]\<rparr>)"
proof (cases "p < length (heap m)")
  case True
  have nth: "(heap m)[p := r] ! k = (if k = p then r else heap m ! k)" for k
    using True by simp
  show ?thesis using assms True by (auto simp: mgr_wf_def list_all_length nth)
next
  case False
  then have "m\<lparr>heap := (heap m)[p := r]\<rparr> = m" by (cases m) (simp add: list_update_beyond)
  then show ?thesis using assms(1) by simp
qed

lemma NewManager_wf [simp]: "mgr_wf (NewManager hz laps mp cb)"
  by (simp add: mgr_wf_def NewManager_def)

lemma New_raceID [simp]: "raceID ((New rid track hz laps mp now)\<lparr>OnFinish := cb\<rparr>) = rid"
  by (simp add: New_def)

lemma NewRace_wf [keeps_intros]:
  assumes "mgr_wf m"
  shows "mgr_wf (snd (NewRace trackFn rid now matchID m))"
proof (cases "trackFn matchID")
  case (Inr track)
  let ?r = "(New rid track (m_tickHz m) (m_maxLaps m) (m_maxPlayers m) now)\<lparr>OnFinish := m_onFinish m\<rparr>"
  have "race_wf ?r" by (simp add: race_wf_updates)
  then show ?thesis
    using assms by (fastforce simp: NewRace_def Inr Let_def mgr_wf_def gm.get_put nth_append)
qed (use assms in \<open>simp add: NewRace_def\<close>)

lemma SetOnFinish_wf [keeps_intros]: "mgr_wf m \<Longrightarrow> mgr_wf (SetOnFinish cb m)"
  by (simp add: SetOnFinish_def mgr_wf_def)

lemma CleanupFinished_wf [keeps_intros]: "mgr_wf m \<Longrightarrow> mgr_wf (CleanupFinished m)"
  by (auto simp: mgr_wf_def CleanupFinished_def gm_wf_filter gm_get_filter split: option.splits if_splits)

lemma race_moves_wf [keeps_intros]:
  "mgr_wf m \<Longrightarrow> race_wf r \<Longrightarrow> raceID r = raceID (heap m ! p) \<Longrightarrow> mgr_wf (race_moves p r m)"
  by (simp add: race_moves_def mgr_wf_update)

subsection \<open>Registering a player\<close>

text \<open>The manager a registration works on, and the race it finds there.\<close>

lemma RegisterPlayer_cases:
  obtains p where "ByMatch matchID m = (Some p, True)"
      "RegisterPlayer trackFn rid now matchID playerID m = join_race p playerID now m"
  | (gone) "ByMatch matchID m = (None, True)"
      "RegisterPlayer trackFn rid now matchID playerID m =
        (Panics ''invalid memory address or nil pointer dereference'', m)"
  | (no_track) err where "ByMatch matchID m = (None, False)" "trackFn matchID = Inl err"
      "RegisterPlayer trackFn rid now matchID playerID m = (Returns (Inl err), m)"
  | (created) track where "ByMatch matchID m = (None, False)" "trackFn matchID = Inr track"
      "RegisterPlayer trackFn rid now matchID playerID m =
        join_race (length (heap m)) playerID now (snd (NewRace trackFn rid now matchID m))"
proof (cases "gm_get (m_byMatch m) matchID")
  case None
  then have b: "ByMatch matchID m = (None, False)" by (simp add: ByMatch_def)
  show ?thesis
  proof (cases "trackFn matchID")
    case (Inl err)
    then show ?thesis using no_track [OF b Inl] b by (simp add: RegisterPlayer_def NewRace_def)
  next
    case (Inr track)
    then show ?thesis
      using created [OF b Inr] b by (simp add: RegisterPlayer_def NewRace_def Let_def)
  qed
next
  case (Some rid')
  then show ?thesis
    using that(1) gone
    by (cases "gm_get (m_races m) rid'") (simp_all add: RegisterPlayer_def ByMatch_def Let_def)
qed

lemma NewRace_wf_heap:
  assumes "trackFn matchID = Inr track"
  shows "heap (snd (NewRace trackFn rid now matchID m)) = heap m @
    [(New rid track (m_tickHz m) (m_maxLaps m) (m_maxPlayers m) now)\<lparr>OnFinish := m_onFinish m\<rparr>]"
  using assms by (simp add: NewRace_def Let_def)

lemma join_race_wf [keeps_intros]:
  assumes "mgr_wf m" and "p < length (heap m)"
  shows "mgr_wf (snd (join_race p pid now m))"
proof -
  have "race_wf (heap m ! p)" using assms by (simp add: mgr_wf_def list_all_length)
  then show ?thesis
    using mgr_wf_update [OF assms(1) AddPlayer_wf, of "heap m ! p" p pid DefaultSpec now now]
    by (simp add: join_race_def case_prod_unfold Let_def)
qed

lemma ByMatch_in_heap: "mgr_wf m \<Longrightarrow> ByMatch matchID m = (Some p, b) \<Longrightarrow> p < length (heap m)"
  by (auto simp: ByMatch_def mgr_wf_def split: option.splits)

lemma RegisterPlayer_wf [keeps_intros]:
  assumes "mgr_wf m"
  shows "mgr_wf (snd (RegisterPlayer trackFn rid now matchID playerID m))"
proof (cases rule: RegisterPlayer_cases [of matchID m trackFn rid now playerID])
  case (1 p)
  then show ?thesis using join_race_wf [OF assms ByMatch_in_heap [OF assms]] by simp
next
  case (created track)
  have "mgr_wf (snd (NewRace trackFn rid now matchID m))" using assms by (rule NewRace_wf)
  then show ?thesis
    by (simp add: created(3) join_race_wf
        NewRace_wf_heap [where trackFn = trackFn and matchID = matchID, OF created(2)])
qed (use assms in simp_all)

subsection \<open>The registry the dispatcher works with\<close>

definition has_player :: "raceptr \<Rightarrow> uuid \<Rightarrow> Manager \<Rightarrow> bool" where
  "has_player p pid m \<longleftrightarrow> p < length (heap m) \<and> gm_get (players (heap m ! p)) pid \<noteq> None"

text \<open>
  The contract of the dispatcher's \<open>RaceManager\<close>: a registration that succeeds puts the
  player into the race it returns, one that fails puts nobody anywhere, and none takes
  a player out of a race.
\<close>

locale race_registry =
  fixes register :: "uuid \<Rightarrow> uuid \<Rightarrow> 'm \<Rightarrow> (string + 'r) go \<times> 'm"
    and has :: "'r \<Rightarrow> uuid \<Rightarrow> 'm \<Rightarrow> bool"
    and inv :: "'m \<Rightarrow> bool"
  assumes register_inv: "inv m \<Longrightarrow> inv (snd (register match pid m))"
    and register_joins: "inv m \<Longrightarrow> register match pid m = (Returns (Inr r), m') \<Longrightarrow> has r pid m'"
    and register_keeps: "inv m \<Longrightarrow> has r q m \<Longrightarrow> has r q (snd (register match pid m))"
    and register_only: "inv m \<Longrightarrow> register match pid m = (res, m') \<Longrightarrow> has r q m' \<Longrightarrow>
      has r q m \<or> q = pid \<and> res = Returns (Inr r)"
begin

lemma failed_adds_nobody:
  "inv m \<Longrightarrow> register match pid m = (Returns (Inl err), m') \<Longrightarrow> has r q m' \<longleftrightarrow> has r q m"
  using register_keeps [of m r q match pid] register_only [of m match pid "Returns (Inl err)" m' r q]
  by auto

lemma others_unmoved:
  "inv m \<Longrightarrow> register match pid m = (res, m') \<Longrightarrow> q \<noteq> pid \<Longrightarrow> has r q m' \<longleftrightarrow> has r q m"
  using register_keeps [of m r q match pid] register_only [of m match pid res m' r q] by auto

end

lemma AddPlayer_has:
  "gm_get (players (snd (AddPlayer pid spec now now' r))) q \<noteq> None \<longleftrightarrow>
     gm_get (players r) q \<noteq> None \<or> q = pid \<and> fst (AddPlayer pid spec now now' r)"
  by (auto simp: AddPlayer_def gm.get_put split: option.splits)

lemma join_race_has:
  assumes "join_race p pid now m = (res, m')" and "p < length (heap m)"
  shows "has_player k q m' \<longleftrightarrow> has_player k q m \<or> k = p \<and> q = pid \<and> res = Returns (Inr p)"
    and "res = Returns (Inr k) \<Longrightarrow> k = p"
proof -
  obtain ok r where ar: "AddPlayer pid DefaultSpec now now (heap m ! p) = (ok, r)" by fastforce
  have m': "m' = m\<lparr>heap := (heap m)[p := r]\<rparr>" and res: "res = Returns (if ok then Inr p else Inl err_full)"
    using assms(1) by (auto simp: ar join_race_def)
  have players: "gm_get (players r) x \<noteq> None \<longleftrightarrow> gm_get (players (heap m ! p)) x \<noteq> None \<or> x = pid \<and> ok" for x
    using AddPlayer_has [of pid DefaultSpec now now "heap m ! p" x] by (simp add: ar)
  show "has_player k q m' \<longleftrightarrow> has_player k q m \<or> k = p \<and> q = pid \<and> res = Returns (Inr p)"
    using assms(2) players [of q] by (cases "k = p") (auto simp: has_player_def m' res)
  show "res = Returns (Inr k) \<Longrightarrow> k = p" by (simp add: res split: if_splits)
qed

lemma NewRace_has:
  assumes "trackFn matchID = Inr track"
  shows "has_player k q (snd (NewRace trackFn rid now matchID m)) \<longleftrightarrow> has_player k q m"
  using assms by (auto simp: has_player_def NewRace_def Let_def nth_append New_def less_Suc_eq)

lemma RegisterPlayer_has:
  assumes "mgr_wf m" and reg: "RegisterPlayer trackFn rid now matchID pid m = (res, m')"
  shows "has_player k q m' \<longleftrightarrow> has_player k q m \<or> q = pid \<and> res = Returns (Inr k)"
proof (cases rule: RegisterPlayer_cases [of matchID m trackFn rid now pid])
  case (1 p)
  note j = join_race_has [OF reg [unfolded 1(2)] ByMatch_in_heap [OF assms(1) 1(1)]]
  show ?thesis using j(1) [of k q] j(2) [of k] by blast
next
  case (created track)
  have "length (heap m) < length (heap (snd (NewRace trackFn rid now matchID m)))"
    by (simp add: NewRace_wf_heap [where trackFn = trackFn and matchID = matchID, OF created(2)])
  note j = join_race_has [OF reg [unfolded created(3)] this]
  have old: "has_player k q (snd (NewRace trackFn rid now matchID m)) \<longleftrightarrow> has_player k q m"
    by (rule NewRace_has [of trackFn matchID track, OF created(2)])
  show ?thesis using j(1) [of k q] j(2) [of k] unfolding old by blast
qed (use reg in \<open>auto\<close>)

interpretation reg: race_registry "RegisterPlayer trackFn rid now" has_player mgr_wf
proof unfold_locales
  fix m match pid r q res m'
  assume wf: "mgr_wf m"
  show "mgr_wf (snd (RegisterPlayer trackFn rid now match pid m))" using wf by (rule RegisterPlayer_wf)
  show "RegisterPlayer trackFn rid now match pid m = (Returns (Inr r), m') \<Longrightarrow> has_player r pid m'"
    using RegisterPlayer_has [OF wf] by simp
  show "has_player r q m \<Longrightarrow> has_player r q (snd (RegisterPlayer trackFn rid now match pid m))"
    using RegisterPlayer_has [OF wf prod.collapse [symmetric]] by simp
  show "RegisterPlayer trackFn rid now match pid m = (res, m') \<Longrightarrow> has_player r q m' \<Longrightarrow>
      has_player r q m \<or> q = pid \<and> res = Returns (Inr r)"
    using RegisterPlayer_has [OF wf] by simp
qed

subsection \<open>Properties\<close>

lemma NewRace_match:
  assumes "trackFn matchID = Inr track"
  shows "ByMatch matchID (snd (NewRace trackFn rid now matchID m)) = (Some (length (heap m)), True)"
  using assms by (simp add: NewRace_def Let_def ByMatch_def)

lemma join_race_ByMatch: "join_race p pid now m = (res, m') \<Longrightarrow> ByMatch k m' = ByMatch k m"
  by (auto simp: join_race_def ByMatch_def split: prod.splits option.split)

lemma Get_cleanup:
  assumes "mgr_wf m"
  shows "Get rid (CleanupFinished m) = (case Get rid m of None \<Rightarrow> None
        | Some p \<Rightarrow> if status (heap m ! p) = StatusFinished then None else Some p)"
  using assms
  by (auto simp: Get_def CleanupFinished_def Status_def mgr_wf_def gm_get_filter split: option.split)

lemma register_dropped:
  assumes "mgr_wf m" and "ByMatch matchID m = (Some p, True)" and "status (heap m ! p) = StatusFinished"
  shows "RegisterPlayer trackFn rid now matchID pid (CleanupFinished m) =
    (Panics ''invalid memory address or nil pointer dereference'', CleanupFinished m)"
proof -
  obtain k where k: "gm_get (m_byMatch m) matchID = Some k" "Get k m = Some p"
    using assms(2) by (auto simp: ByMatch_def Get_def split: option.splits)
  then have "ByMatch matchID (CleanupFinished m) = (None, True)"
    using Get_cleanup [OF assms(1), of k] assms(3) by (simp add: ByMatch_def Get_def CleanupFinished_def)
  then show ?thesis
    by (cases rule: RegisterPlayer_cases [of matchID "CleanupFinished m" trackFn rid now pid]) simp_all
qed

text \<open>A registration that succeeds returns the one race its match is played in: the match leads to that
  race from then on, the player is in it, everybody else is where they were, and a second player
  who registers for the match while its race is still registered gets the same race or an error.\<close>

theorem one_race_per_match:
  assumes "mgr_wf m" and "RegisterPlayer trackFn rid now matchID pid m = (Returns (Inr p), m')"
  shows "mgr_wf m' \<and> ByMatch matchID m' = (Some p, True) \<and> has_player p pid m' \<and>
    (\<forall>q r. q \<noteq> pid \<longrightarrow> (has_player r q m' \<longleftrightarrow> has_player r q m)) \<and>
    (\<forall>rid' now' q. fst (RegisterPlayer trackFn rid' now' matchID q m') \<in>
       {Returns (Inr p), Returns (Inl err_full)})"
proof -
  have wf: "mgr_wf m'" using reg.register_inv [OF assms(1)] assms(2) by (metis snd_conv)
  have match: "ByMatch matchID m' = (Some p, True)"
  proof (cases rule: RegisterPlayer_cases [of matchID m trackFn rid now pid])
    case (1 k)
    note j = assms(2) [unfolded 1(2)]
    show ?thesis using join_race_ByMatch [OF j] 1(1) join_race_has(2) [OF j ByMatch_in_heap [OF assms(1) 1(1)]]
      by simp
  next
    case (created track)
    note j = assms(2) [unfolded created(3)]
    have "length (heap m) < length (heap (snd (NewRace trackFn rid now matchID m)))"
      by (simp add: NewRace_wf_heap [where trackFn = trackFn and matchID = matchID, OF created(2)])
    from join_race_has(2) [OF j this] show ?thesis
      using join_race_ByMatch [OF j] NewRace_match [of trackFn matchID track, OF created(2)] by simp
  qed (use assms(2) in auto)
  have "fst (RegisterPlayer trackFn rid' now' matchID q m') \<in> {Returns (Inr p), Returns (Inl err_full)}"
    for rid' now' q
  proof (cases rule: RegisterPlayer_cases [of matchID m' trackFn rid' now' q])
    case (1 k)
    then show ?thesis using match by (auto simp: join_race_def split: prod.splits)
  qed (use match in simp_all)
  with wf match reg.register_joins [OF assms] reg.others_unmoved [OF assms] show ?thesis by blast
qed

definition demo_mgr :: Manager where
  "demo_mgr = snd (RegisterPlayer (buildTrackLookup None) 77 0 5 9 (NewManager 30 1 4 True))"

theorem one_race_per_match_witness:
  "ByMatch 5 demo_mgr = (Some 0, True) \<and> has_player 0 9 demo_mgr"
proof -
  have "fst (RegisterPlayer (buildTrackLookup None) 77 0 5 9 (NewManager 30 1 4 True)) = Returns (Inr 0)"
    by code_simp
  then have "RegisterPlayer (buildTrackLookup None) 77 0 5 9 (NewManager 30 1 4 True) =
      (Returns (Inr 0), demo_mgr)"
    by (simp add: demo_mgr_def prod_eq_iff)
  from one_race_per_match [OF NewManager_wf this] show ?thesis by simp
qed

text \<open>\<open>CleanupFinished\<close> drops exactly the races that are finished and leaves the races themselves,
  their players and every other registration alone; but it leaves \<open>byMatch\<close> pointing at the
  dropped race, so a player who registers for that match afterwards makes the server
  dereference nil.\<close>

theorem register_after_cleanup_panics:
  assumes "mgr_wf m"
  shows "heap (CleanupFinished m) = heap m \<and>
    (\<forall>rid. Get rid (CleanupFinished m) =
       (case Get rid m of None \<Rightarrow> None
        | Some p \<Rightarrow> if status (heap m ! p) = StatusFinished then None else Some p)) \<and>
    (\<forall>matchID p. ByMatch matchID m = (Some p, True) \<and> status (heap m ! p) = StatusFinished \<longrightarrow>
       (\<forall>trackFn rid now pid. \<exists>msg. RegisterPlayer trackFn rid now matchID pid (CleanupFinished m) =
          (Panics msg, CleanupFinished m)))"
  using Get_cleanup [OF assms] register_dropped [OF assms] by (auto simp: CleanupFinished_def)

theorem register_after_cleanup_panics_witness:
  "\<exists>msg. fst (RegisterPlayer (buildTrackLookup None) 78 0 5 3
     (CleanupFinished (race_moves 0 (finish_race 10 (heap demo_mgr ! 0)) demo_mgr))) = Panics msg"
proof -
  let ?m = "race_moves 0 (finish_race 10 (heap demo_mgr ! 0)) demo_mgr"
  have wf: "mgr_wf demo_mgr" by (simp add: demo_mgr_def RegisterPlayer_wf)
  have "ByMatch 5 demo_mgr = (Some 0, True)" by code_simp
  from ByMatch_in_heap [OF wf this] have "race_wf (heap demo_mgr ! 0)"
    using wf by (simp add: mgr_wf_def list_all_length)
  then have "mgr_wf ?m" using wf by (intro race_moves_wf finish_race_wf) (simp_all add: finish_race_def Let_def)
  moreover have "ByMatch 5 ?m = (Some 0, True)" "status (heap ?m ! 0) = StatusFinished" by code_simp+
  ultimately obtain msg where "RegisterPlayer (buildTrackLookup None) 78 0 5 3 (CleanupFinished ?m) =
      (Panics msg, CleanupFinished ?m)"
    using register_after_cleanup_panics [of ?m] by blast
  then show ?thesis by (metis fst_conv)
qed

end
