(* ===== verification/Hmac.thy ===== *)
theory Hmac
  imports Prelude
begin

text \<open>
  What \<open>internal/matchmaking/token.go\<close> uses of \<open>crypto/sha256\<close> and \<open>crypto/hmac\<close>: the hash of FIPS 180-4 on
  32-bit words, and the keyed hash of FIPS 198-1 over it.
\<close>

unbundle bit_operations_syntax

subsection \<open>SHA-256\<close>

definition rotr32 :: "nat \<Rightarrow> 32 word \<Rightarrow> 32 word" where
  "rotr32 n x = drop_bit n x OR push_bit (32 - n) x"

text \<open>The constants of the rounds and the initial hash value: the first 32 bits of the fractional parts of the cube roots of the
  first 64 primes, and of the square roots of the first eight.\<close>

definition sha256_K :: "32 word list" where
  "sha256_K = [
     1116352408, 1899447441, 3049323471, 3921009573, 961987163, 1508970993, 2453635748, 2870763221,
     3624381080, 310598401, 607225278, 1426881987, 1925078388, 2162078206, 2614888103, 3248222580,
     3835390401, 4022224774, 264347078, 604807628, 770255983, 1249150122, 1555081692, 1996064986, 2554220882,
     2821834349, 2952996808, 3210313671, 3336571891, 3584528711, 113926993, 338241895, 666307205, 773529912,
     1294757372, 1396182291, 1695183700, 1986661051, 2177026350, 2456956037, 2730485921, 2820302411,
     3259730800, 3345764771, 3516065817, 3600352804, 4094571909, 275423344, 430227734, 506948616, 659060556,
     883997877, 958139571, 1322822218, 1537002063, 1747873779, 1955562222, 2024104815, 2227730452,
     2361852424, 2428436474, 2756734187, 3204031479, 3329325298]"

definition sha256_init :: "32 word list" where
  "sha256_init = [1779033703, 3144134277, 1013904242, 2773480762, 1359893119, 2600822924, 528734635, 1541459225]"

text \<open>The message schedule, latest word first, grown by one word.\<close>

definition schedule_step :: "32 word list \<Rightarrow> 32 word list" where
  "schedule_step ws =
     (let x = ws ! 1; y = ws ! 14;
          s1 = rotr32 17 x XOR rotr32 19 x XOR drop_bit 10 x;
          s0 = rotr32 7 y XOR rotr32 18 y XOR drop_bit 3 y
      in (s1 + ws ! 6 + s0 + ws ! 15) # ws)"

fun sha256_round :: "32 word \<Rightarrow> 32 word list \<Rightarrow> 32 word list" where
  "sha256_round kw [a, b, c, d, e, f, g, h] =
     (let t1 = h + (rotr32 6 e XOR rotr32 11 e XOR rotr32 25 e) + ((e AND f) XOR (NOT e AND g)) + kw;
          t2 = (rotr32 2 a XOR rotr32 13 a XOR rotr32 22 a) + ((a AND b) XOR (a AND c) XOR (b AND c))
      in [t1 + t2, a, b, c, d + t1, e, f, g])"
| "sha256_round kw hs = hs"

definition sha256_block :: "32 word list \<Rightarrow> 32 word list \<Rightarrow> 32 word list" where
  "sha256_block hs ws =
     map2 (+) hs (fold sha256_round (map2 (+) sha256_K (rev ((schedule_step ^^ 48) (rev ws)))) hs)"

fun be_words :: "bytes \<Rightarrow> 32 word list" where
  "be_words (a # b # c # d # bs) =
     (push_bit 24 (ucast a) OR push_bit 16 (ucast b) OR push_bit 8 (ucast c) OR ucast d) # be_words bs"
| "be_words bs = []"

definition be_bytes :: "32 word \<Rightarrow> bytes" where
  "be_bytes w = [ucast (drop_bit 24 w), ucast (drop_bit 16 w), ucast (drop_bit 8 w), ucast w]"

text \<open>Padding: a one bit, zeros up to 56 modulo 64 octets, and the length in bits.\<close>

definition sha256_pad :: "bytes \<Rightarrow> bytes" where
  "sha256_pad msg =
     (let n = 8 * of_nat (length msg) :: 64 word
      in msg @ [0x80] @ replicate ((119 - length msg mod 64) mod 64) 0 @
           be_bytes (ucast (drop_bit 32 n)) @ be_bytes (ucast n))"

fun sha256_blocks :: "32 word list \<Rightarrow> 32 word list \<Rightarrow> 32 word list" where
  "sha256_blocks hs [] = hs"
| "sha256_blocks hs (w # ws) = sha256_blocks (sha256_block hs (w # take 15 ws)) (drop 15 ws)"

definition sha256 :: "bytes \<Rightarrow> bytes" where
  "sha256 msg = concat (map be_bytes (sha256_blocks sha256_init (be_words (sha256_pad msg))))"

lemma length_schedule: "length ws = 16 \<Longrightarrow> length ((schedule_step ^^ n) ws) = n + 16"
  by (induction n) (simp_all add: schedule_step_def Let_def)

lemma length_round: "length (sha256_round kw hs) = length hs"
  by (induction kw hs rule: sha256_round.induct) (simp_all add: Let_def)

lemma length_rounds: "length (fold sha256_round ks hs) = length hs"
  by (induction ks arbitrary: hs) (simp_all add: length_round)

lemma length_block: "length (sha256_block hs ws) = length hs"
  by (simp add: sha256_block_def length_rounds)

lemma length_blocks: "length (sha256_blocks hs ws) = length hs"
  by (induction hs ws rule: sha256_blocks.induct) (simp_all add: length_block)

lemma length_sha256: "length (sha256 msg) = 32"
proof -
  have "length (concat (map be_bytes ws)) = 4 * length ws" for ws
    by (induction ws) (simp_all add: be_bytes_def)
  then show ?thesis by (simp add: sha256_def length_blocks sha256_init_def)
qed

subsection \<open>HMAC\<close>

definition hmac_key :: "bytes \<Rightarrow> bytes" where
  "hmac_key key = (let k = (if 64 < length key then sha256 key else key) in k @ replicate (64 - length k) 0)"

definition hmac_sha256 :: "bytes \<Rightarrow> bytes \<Rightarrow> bytes" where
  "hmac_sha256 msg secret =
     (let key = hmac_key secret
      in sha256 (map (\<lambda>b. b XOR 0x5c) key @ sha256 (map (\<lambda>b. b XOR 0x36) key @ msg)))"

lemma length_hmac_sha256: "length (hmac_sha256 msg secret) = 32"
  by (simp add: hmac_sha256_def length_sha256 Let_def)

end
