(* ===== verification/Token.thy ===== *)
theory Token
  imports Hmac
begin

text \<open>
  \<open>internal/matchmaking/token.go\<close> and \<open>errors.go\<close>: signing and checking game tokens, on a concrete
  unpadded base64url codec (\<open>base64.RawURLEncoding\<close>) and HMAC-SHA256. The JSON of the payload is a
  parameter; \<open>hmac.Equal\<close> is equality. A Go string is the list of its bytes, as characters.
\<close>

subsection \<open>Base64url without padding\<close>

definition b64_alphabet :: string where
  "b64_alphabet = ''ABCDEFGHIJKLMNOPQRSTUVWXYZabcdefghijklmnopqrstuvwxyz0123456789-_''"

definition b64_char :: "nat \<Rightarrow> char" where
  "b64_char n = b64_alphabet ! n"

definition b64_value :: "char \<Rightarrow> nat option" where
  "b64_value c = map_of (zip b64_alphabet [0..<64]) c"

fun b64_digits :: "nat list \<Rightarrow> nat list" where
  "b64_digits [] = []"
| "b64_digits [a] = [a div 4, a mod 4 * 16]"
| "b64_digits [a, b] = [a div 4, a mod 4 * 16 + b div 16, b mod 16 * 4]"
| "b64_digits (a # b # c # bs) =
     a div 4 # (a mod 4 * 16 + b div 16) # (b mod 16 * 4 + c div 64) # c mod 64 # b64_digits bs"

definition EncodeToString :: "bytes \<Rightarrow> string" where
  "EncodeToString bs = map b64_char (b64_digits (map unat bs))"

fun b64_octets :: "nat list \<Rightarrow> nat list option" where
  "b64_octets [] = Some []"
| "b64_octets [a] = None"
| "b64_octets [a, b] = Some [a * 4 + b div 16]"
| "b64_octets [a, b, c] = Some [a * 4 + b div 16, b mod 16 * 16 + c div 4]"
| "b64_octets (a # b # c # d # ds) =
     map_option ((@) [a * 4 + b div 16, b mod 16 * 16 + c div 4, c mod 4 * 64 + d]) (b64_octets ds)"

text \<open>The decoder skips carriage returns and line feeds and ignores left-over low bits.\<close>

definition DecodeString :: "string \<Rightarrow> bytes option" where
  "DecodeString s =
     (case those (map b64_value (filter (\<lambda>c. c \<noteq> CHR 0x0A \<and> c \<noteq> CHR 0x0D) s)) of
        None \<Rightarrow> None
      | Some ds \<Rightarrow> map_option (map of_nat) (b64_octets ds))"

subsection \<open>Tokens\<close>

datatype token_error =
    ErrNoGameServer
  | ErrRaceFull
  | ErrTokenInvalid
  | ErrTokenExpired
  | ErrTokenConsumed
  | TokenFailure string

fun token_error_String :: "token_error \<Rightarrow> string" where
  "token_error_String ErrNoGameServer = ''matchmaking: no game server configured''"
| "token_error_String ErrRaceFull = ''matchmaking: race full''"
| "token_error_String ErrTokenInvalid = ''matchmaking: invalid token''"
| "token_error_String ErrTokenExpired = ''matchmaking: token expired''"
| "token_error_String ErrTokenConsumed = ''matchmaking: token already consumed''"
| "token_error_String (TokenFailure msg) = msg"

definition TokenTTL :: duration where
  "TokenTTL = 5 * 60 * Second"

record tokenPayload =
  tp_MatchID :: uuid
  tp_PlayerID :: uuid
  tp_Exp :: int

record tokenlib =
  marshalPayload :: "tokenPayload \<Rightarrow> string + bytes"
  unmarshalPayload :: "bytes \<Rightarrow> tokenPayload option"

definition str_bytes :: "string \<Rightarrow> bytes" where
  "str_bytes s = map of_char s"

definition hmacSHA256 :: "bytes \<Rightarrow> string \<Rightarrow> bytes" where
  "hmacSHA256 msg secret = hmac_sha256 msg (str_bytes secret)"

definition SignGameToken ::
    "tokenlib \<Rightarrow> string \<Rightarrow> uuid \<Rightarrow> uuid \<Rightarrow> gotime \<Rightarrow> token_error + (string \<times> gotime)" where
  "SignGameToken T secret matchID playerID now =
     (if secret = [] then Inl (TokenFailure ''matchmaking: empty secret'')
      else if matchID = uuid_Nil \<or> playerID = uuid_Nil then Inl (TokenFailure ''matchmaking: zero uuid'')
      else
        let exp = time_Unix (now + TokenTTL)
        in case marshalPayload T \<lparr>tp_MatchID = matchID, tp_PlayerID = playerID, tp_Exp = exp\<rparr> of
             Inl err \<Rightarrow> Inl (TokenFailure err)
           | Inr raw \<Rightarrow>
               let payload = EncodeToString raw;
                   sig = EncodeToString (hmacSHA256 (str_bytes payload) secret)
               in Inr (payload @ ''.'' @ sig, unix_time exp))"

text \<open>\<open>splitToken\<close> cuts at the last dot.\<close>

definition splitToken :: "string \<Rightarrow> (string \<times> string) option" where
  "splitToken s =
     (if CHR ''.'' \<in> set s
      then Some (rev (tl (dropWhile (\<lambda>c. c \<noteq> CHR ''.'') (rev s))),
                 rev (takeWhile (\<lambda>c. c \<noteq> CHR ''.'') (rev s)))
      else None)"

definition VerifyHMAC :: "string \<Rightarrow> string \<Rightarrow> bool" where
  "VerifyHMAC secret raw =
     (case splitToken raw of
        None \<Rightarrow> False
      | Some (p, s) \<Rightarrow> EncodeToString (hmacSHA256 (str_bytes p) secret) = s)"

text \<open>
  \<open>VerifyGameToken\<close>; the store's \<open>AssignmentIsFresh\<close>, when there is one, is an argument that
  answers for the payload's match and player and the raw token.
\<close>

definition VerifyGameToken ::
    "tokenlib \<Rightarrow> string \<Rightarrow> string \<Rightarrow> (uuid \<Rightarrow> uuid \<Rightarrow> string \<Rightarrow> gotime \<Rightarrow> token_error + bool) option \<Rightarrow>
     gotime \<Rightarrow> token_error + tokenPayload" where
  "VerifyGameToken T secret raw db now =
     (case splitToken raw of
        None \<Rightarrow> Inl ErrTokenInvalid
      | Some (p, s) \<Rightarrow>
          if EncodeToString (hmacSHA256 (str_bytes p) secret) \<noteq> s then Inl ErrTokenInvalid
          else case DecodeString p of
                 None \<Rightarrow> Inl ErrTokenInvalid
               | Some body \<Rightarrow>
              (case unmarshalPayload T body of
                 None \<Rightarrow> Inl ErrTokenInvalid
               | Some pl \<Rightarrow>
                   if tp_Exp pl < time_Unix now then Inl ErrTokenExpired
                   else case db of
                          None \<Rightarrow> Inr pl
                        | Some isFresh \<Rightarrow>
                            (case isFresh (tp_MatchID pl) (tp_PlayerID pl) raw now of
                               Inl err \<Rightarrow> Inl err
                             | Inr ok \<Rightarrow> if ok then Inr pl else Inl ErrTokenInvalid)))"

subsection \<open>The codec's round trip\<close>

lemma b64_alphabet_facts: "length b64_alphabet = 64" "distinct b64_alphabet"
  "CHR ''.'' \<notin> set b64_alphabet" "CHR 0x0A \<notin> set b64_alphabet" "CHR 0x0D \<notin> set b64_alphabet"
  by code_simp+

lemma b64_value_char: "n < 64 \<Longrightarrow> b64_value (b64_char n) = Some n"
  using map_of_zip_nth [of b64_alphabet "[0..<64]" n] b64_alphabet_facts
  by (simp add: b64_value_def b64_char_def)

lemma b64_char_mem: "n < 64 \<Longrightarrow> b64_char n \<in> set b64_alphabet"
  using b64_alphabet_facts(1) by (simp add: b64_char_def)

lemma b64_digits_bound: "\<forall>b \<in> set bs. b < 256 \<Longrightarrow> \<forall>d \<in> set (b64_digits bs). d < 64"
  by (induction bs rule: b64_digits.induct) auto

lemma b64_octets_digits: "\<forall>b \<in> set bs. b < 256 \<Longrightarrow> b64_octets (b64_digits bs) = Some bs"
proof (induction bs rule: b64_digits.induct)
  case (4 a b c bs)
  have "c div 64 < 4" using 4(2) less_mult_imp_div_less [of c 4 64] by simp
  then have "(b mod 16 * 4 + c div 64) div 4 = b mod 16" "(b mod 16 * 4 + c div 64) mod 4 = c div 64" by simp_all
  moreover have "b div 16 < 16" using 4(2) less_mult_imp_div_less [of b 16 16] by simp
  then have "(a mod 4 * 16 + b div 16) div 16 = a mod 4" "(a mod 4 * 16 + b div 16) mod 16 = b div 16" by simp_all
  ultimately show ?case using 4 by (simp add: mult.commute [of _ 4] mult.commute [of _ 16] mult.commute [of _ 64])
next
  case (3 a b)
  have "b div 16 < 16" using 3 less_mult_imp_div_less [of b 16 16] by simp
  then have "(a mod 4 * 16 + b div 16) div 16 = a mod 4" "(a mod 4 * 16 + b div 16) mod 16 = b div 16" by simp_all
  then show ?case by (simp add: mult.commute [of _ 4] mult.commute [of _ 16])
qed (simp_all add: mult.commute [of _ 4])

lemma those_map_Some: "\<forall>x \<in> set xs. f x = Some (g x) \<Longrightarrow> those (map f xs) = Some (map g xs)"
  by (induction xs) auto

lemma EncodeToString_set: "set (EncodeToString bs) \<subseteq> set b64_alphabet"
proof -
  have "\<forall>d \<in> set (b64_digits (map unat bs)). d < 64"
    by (rule b64_digits_bound) auto
  then show ?thesis by (auto simp: EncodeToString_def b64_char_mem)
qed

lemma EncodeToString_no_dot: "CHR ''.'' \<notin> set (EncodeToString bs)"
  using EncodeToString_set [of bs] b64_alphabet_facts(3) by blast

lemma Decode_EncodeToString: "DecodeString (EncodeToString bs) = Some bs"
proof -
  let ?ds = "b64_digits (map unat bs)"
  have b: "\<forall>b \<in> set (map unat bs). b < 256" by auto
  have keep: "filter (\<lambda>c. c \<noteq> CHR 0x0A \<and> c \<noteq> CHR 0x0D) (EncodeToString bs) = EncodeToString bs"
    using EncodeToString_set [of bs] b64_alphabet_facts(4,5) by (intro filter_True) blast
  have "\<forall>d \<in> set ?ds. (b64_value \<circ> b64_char) d = Some (id d)"
    using b64_digits_bound [OF b] b64_value_char by simp
  then have "those (map (b64_value \<circ> b64_char) ?ds) = Some ?ds"
    using those_map_Some [of ?ds "b64_value \<circ> b64_char" id] by simp
  moreover have "map (b64_value \<circ> b64_char) ?ds = map b64_value (EncodeToString bs)"
    by (simp add: EncodeToString_def)
  ultimately have "those (map b64_value (EncodeToString bs)) = Some ?ds" by simp
  moreover have "map (of_nat :: nat \<Rightarrow> byte) (map unat bs) = bs" by (simp add: map_idI)
  ultimately show ?thesis
    using b64_octets_digits [OF b] by (simp add: DecodeString_def keep)
qed

lemma EncodeToString_inj: "EncodeToString a = EncodeToString b \<longleftrightarrow> a = b"
  using Decode_EncodeToString [of a] Decode_EncodeToString [of b] by (metis option.inject)

text \<open>A codec between octets and text, as the tokens use it.\<close>

locale text_codec =
  fixes enc :: "'b \<Rightarrow> string" and dec :: "string \<Rightarrow> 'b option" and sep :: char
  assumes dec_enc: "dec (enc b) = Some b"
    and no_sep: "sep \<notin> set (enc b)"
begin

lemma enc_inject: "enc a = enc b \<longleftrightarrow> a = b"
  using dec_enc [of a] dec_enc [of b] by (metis option.inject)

lemma joined_inject:
  assumes "p @ sep # enc a = q @ sep # enc b"
  shows "p = q \<and> a = b"
proof -
  have "rev (enc a) @ sep # rev p = rev (enc b) @ sep # rev q"
    using arg_cong [OF assms, of rev] by simp
  then have "rev (enc a) = rev (enc b) \<and> rev p = rev q"
    using no_sep by (intro split_sep) simp_all
  then show ?thesis using enc_inject by simp
qed

end

interpretation b64: text_codec EncodeToString DecodeString "CHR ''.''"
  by unfold_locales (simp_all add: Decode_EncodeToString EncodeToString_no_dot)

lemma splitToken_join: "CHR ''.'' \<notin> set s \<Longrightarrow> splitToken (p @ CHR ''.'' # s) = Some (p, s)"
proof -
  assume "CHR ''.'' \<notin> set s"
  then have "CHR ''.'' \<notin> set (rev s)" by simp
  then show ?thesis by (simp add: splitToken_def)
qed

lemma splitToken_Some:
  assumes "splitToken raw = Some (p, s)"
  shows "raw = p @ CHR ''.'' # s \<and> CHR ''.'' \<notin> set s"
proof -
  let ?P = "\<lambda>c. c \<noteq> CHR ''.''"
  have dot: "CHR ''.'' \<in> set (rev raw)" and p: "p = rev (tl (dropWhile ?P (rev raw)))"
    and s: "s = rev (takeWhile ?P (rev raw))"
    using assms by (auto simp: splitToken_def split: if_splits)
  have ne: "dropWhile ?P (rev raw) \<noteq> []" using dot by (auto simp: dropWhile_eq_Nil_conv)
  then have "dropWhile ?P (rev raw) = CHR ''.'' # rev p"
    using hd_dropWhile [OF ne] by (cases "dropWhile ?P (rev raw)") (auto simp: p)
  then have "rev raw = rev s @ CHR ''.'' # rev p"
    using takeWhile_dropWhile_id [of ?P "rev raw"] by (simp add: s)
  then have "raw = p @ CHR ''.'' # s" by (metis rev_append rev.simps(2) rev_rev_ident append.assoc append_Cons append_Nil)
  moreover have "CHR ''.'' \<notin> set s" by (auto simp: s dest: set_takeWhileD)
  ultimately show ?thesis by simp
qed

definition token_of :: "string \<Rightarrow> bytes \<Rightarrow> string" where
  "token_of secret raw =
     EncodeToString raw @ CHR ''.'' # EncodeToString (hmacSHA256 (str_bytes (EncodeToString raw)) secret)"

lemma Sign_token:
  assumes "SignGameToken T secret m p now = Inr (tok, till)"
  shows "secret \<noteq> [] \<and> m \<noteq> 0 \<and> p \<noteq> 0 \<and> till = unix_time (time_Unix now + 300) \<and>
    (\<exists>raw. marshalPayload T \<lparr>tp_MatchID = m, tp_PlayerID = p, tp_Exp = time_Unix now + 300\<rparr> = Inr raw \<and>
       tok = token_of secret raw)"
  using assms time_Unix_add [of now 300]
  by (auto simp: SignGameToken_def Let_def TokenTTL_def token_of_def split: if_splits sum.splits)

lemma VerifyHMAC_token: "VerifyHMAC secret (token_of secret raw)"
  by (simp add: VerifyHMAC_def token_of_def splitToken_join EncodeToString_no_dot)

lemma VerifyHMAC_iff:
  "VerifyHMAC secret raw \<longleftrightarrow>
     (\<exists>p. raw = p @ CHR ''.'' # EncodeToString (hmacSHA256 (str_bytes p) secret))"
  using splitToken_Some splitToken_join [OF EncodeToString_no_dot]
  by (fastforce simp: VerifyHMAC_def split: option.splits)

lemma Verify_needs_HMAC: "VerifyGameToken T secret raw db now = Inr pl \<Longrightarrow> VerifyHMAC secret raw"
  by (auto simp: VerifyGameToken_def VerifyHMAC_def split: option.splits if_splits)

subsection \<open>Properties\<close>

text \<open>Base64url as the tokens use it: decoding what was encoded gives it back, different octets
  have different encodings, and no encoding contains the dot that separates payload and signature.\<close>

theorem base64_roundtrip:
  "DecodeString (EncodeToString bs) = Some bs \<and> (EncodeToString bs = EncodeToString cs \<longleftrightarrow> bs = cs) \<and>
   CHR ''.'' \<notin> set (EncodeToString bs)"
  using b64.dec_enc b64.enc_inject b64.no_sep by blast

text \<open>A token signed at \<open>now\<close> verifies under the same secret, as the match and player it was signed for,
  up to and including second 300 after it was issued, and is reported expired from then on.\<close>

theorem sign_then_verify:
  assumes "SignGameToken T secret m p now = Inr (tok, till)"
    and "\<And>pl raw. marshalPayload T pl = Inr raw \<Longrightarrow> unmarshalPayload T raw = Some pl"
  shows "VerifyGameToken T secret tok None now' =
      (if time_Unix now' \<le> time_Unix now + 300
       then Inr \<lparr>tp_MatchID = m, tp_PlayerID = p, tp_Exp = time_Unix now + 300\<rparr>
       else Inl ErrTokenExpired) \<and>
    till = unix_time (time_Unix now + 300) \<and> VerifyHMAC secret tok"
proof -
  obtain raw where raw: "marshalPayload T \<lparr>tp_MatchID = m, tp_PlayerID = p, tp_Exp = time_Unix now + 300\<rparr> = Inr raw"
    "tok = token_of secret raw" and till: "till = unix_time (time_Unix now + 300)"
    using Sign_token [OF assms(1)] by blast
  have "VerifyHMAC secret tok" by (simp add: raw(2) VerifyHMAC_token)
  then show ?thesis
    using assms(2) [OF raw(1)] till
    by (simp add: raw(2) VerifyGameToken_def token_of_def splitToken_join b64.no_sep b64.dec_enc)
qed

text \<open>A payload library that knows a single payload, to run the tokens with.\<close>

definition demo_tokenlib :: tokenlib where
  "demo_tokenlib = \<lparr>
     marshalPayload = (\<lambda>pl. if tp_MatchID pl = 5 \<and> tp_PlayerID pl = 9 \<and> tp_Exp pl = 300 - unix_epoch div Second
                            then Inr [1] else Inl ''unsupported''),
     unmarshalPayload = (\<lambda>b. Some \<lparr>tp_MatchID = 5, tp_PlayerID = 9, tp_Exp = 300 - unix_epoch div Second\<rparr>)\<rparr>"

theorem sign_then_verify_witness:
  "\<exists>tok till. SignGameToken demo_tokenlib ''k'' 5 9 0 = Inr (tok, till) \<and>
     VerifyGameToken demo_tokenlib ''k'' tok None (301 * Second) = Inl ErrTokenExpired"
proof -
  have "\<exists>tok till. SignGameToken demo_tokenlib ''k'' 5 9 0 = Inr (tok, till)"
    by (simp add: SignGameToken_def demo_tokenlib_def TokenTTL_def time_Unix_def unix_epoch_def Let_def)
  then obtain tok till where t: "SignGameToken demo_tokenlib ''k'' 5 9 0 = Inr (tok, till)" by blast
  have "marshalPayload demo_tokenlib pl = Inr raw \<Longrightarrow> unmarshalPayload demo_tokenlib raw = Some pl" for pl raw
    by (cases pl) (auto simp: demo_tokenlib_def split: if_splits)
  from sign_then_verify [OF t this, of "301 * Second"] t show ?thesis
    by (auto simp: time_Unix_def unix_epoch_def)
qed

text \<open>Whatever the payload codec, a token is accepted only if its last dot is followed by exactly the
  encoded MAC, under the verifier's secret, of everything before that dot, its payload decodes, has not
  expired, and the store, where there is one, finds it fresh. So nobody without the MAC of
  some text can make an accepted token of it, and no signature but the one is accepted.\<close>

theorem accepted_tokens_are_signed:
  assumes "VerifyGameToken T secret raw db now = Inr pl"
  shows "\<exists>p. raw = p @ CHR ''.'' # EncodeToString (hmacSHA256 (str_bytes p) secret) \<and>
    (\<exists>body. DecodeString p = Some body \<and> unmarshalPayload T body = Some pl) \<and>
    time_Unix now \<le> tp_Exp pl \<and>
    (\<forall>isFresh. db = Some isFresh \<longrightarrow> isFresh (tp_MatchID pl) (tp_PlayerID pl) raw now = Inr True) \<and>
    (\<forall>s. CHR ''.'' \<notin> set s \<and> VerifyHMAC secret (p @ CHR ''.'' # s) \<longrightarrow> p @ CHR ''.'' # s = raw)"
proof -
  obtain p s where sp: "splitToken raw = Some (p, s)" "EncodeToString (hmacSHA256 (str_bytes p) secret) = s"
    using assms by (auto simp: VerifyGameToken_def split: option.splits if_splits)
  have raw: "raw = p @ CHR ''.'' # s" using splitToken_Some [OF sp(1)] by simp
  have rest: "(\<exists>body. DecodeString p = Some body \<and> unmarshalPayload T body = Some pl) \<and> time_Unix now \<le> tp_Exp pl \<and>
    (\<forall>isFresh. db = Some isFresh \<longrightarrow> isFresh (tp_MatchID pl) (tp_PlayerID pl) raw now = Inr True)"
    using assms sp by (auto simp: VerifyGameToken_def split: option.splits if_splits sum.splits)
  have "CHR ''.'' \<notin> set s' \<Longrightarrow> VerifyHMAC secret (p @ CHR ''.'' # s') \<Longrightarrow> s' = s" for s'
    using sp(2) by (simp add: VerifyHMAC_def splitToken_join)
  with raw rest sp(2) show ?thesis by (intro exI [of _ p]) auto
qed

theorem accepted_tokens_are_signed_witness:
  "\<exists>p. token_of ''k'' [1] =
     p @ CHR ''.'' # EncodeToString (hmacSHA256 (str_bytes p) ''k'')"
proof -
  have "VerifyGameToken demo_tokenlib ''k'' (token_of ''k'' [1]) None 0 =
      Inr \<lparr>tp_MatchID = 5, tp_PlayerID = 9, tp_Exp = 300 - unix_epoch div Second\<rparr>"
    by (simp add: VerifyGameToken_def VerifyHMAC_token token_of_def splitToken_join b64.no_sep b64.dec_enc)
      (simp add: demo_tokenlib_def time_Unix_def unix_epoch_def)
  from accepted_tokens_are_signed [OF this] show ?thesis by blast
qed

subsection \<open>The token verifier the dispatcher relies on\<close>

text \<open>The answers of a verifier to a sequence of attempts.\<close>

fun answers ::
    "(uuid \<Rightarrow> uuid \<Rightarrow> string \<Rightarrow> 'e \<Rightarrow> 'v \<Rightarrow> string option \<times> 'v) \<Rightarrow>
     (uuid \<times> uuid \<times> string \<times> 'e) list \<Rightarrow> 'v \<Rightarrow> string option list" where
  "answers verify [] v = []"
| "answers verify ((m, p, t, e) # as) v =
     fst (verify m p t e v) # answers verify as (snd (verify m p t e v))"

text \<open>
  The contract of \<open>TokenVerifier\<close>: accepting a token spends it, a spent token stays spent and is
  refused, and a refusal changes nothing. So no token is accepted twice.
\<close>

locale token_verifier =
  fixes verify :: "uuid \<Rightarrow> uuid \<Rightarrow> string \<Rightarrow> 'e \<Rightarrow> 'v \<Rightarrow> string option \<times> 'v"
    and spent :: "uuid \<Rightarrow> uuid \<Rightarrow> string \<Rightarrow> 'v \<Rightarrow> bool"
  assumes accept_spends: "verify m p t e v = (None, v') \<Longrightarrow> spent m p t v'"
    and spent_stays: "spent m p t v \<Longrightarrow> spent m p t (snd (verify m' p' t' e v))"
    and spent_refused: "spent m p t v \<Longrightarrow> fst (verify m p t e v) \<noteq> None"
    and refusal_keeps: "verify m p t e v = (Some err, v') \<Longrightarrow> v' = v"
begin

lemma spent_never_accepted:
  "spent m p t v \<Longrightarrow> i < length as \<Longrightarrow> (\<exists>e. as ! i = (m, p, t, e)) \<Longrightarrow> answers verify as v ! i \<noteq> None"
proof (induction as arbitrary: v i)
  case (Cons a as)
  obtain m' p' t' e' where a: "a = (m', p', t', e')" using prod_cases4 by blast
  show ?case
  proof (cases i)
    case 0
    then show ?thesis using Cons.prems spent_refused by (auto simp: a)
  next
    case (Suc j)
    then show ?thesis using Cons.prems Cons.IH [OF spent_stays [OF Cons.prems(1)], of j] by (simp add: a)
  qed
qed simp

lemma accepted_at_most_once:
  "i < j \<Longrightarrow> j < length as \<Longrightarrow> as ! i = (m, p, t, e) \<Longrightarrow> as ! j = (m, p, t, e') \<Longrightarrow>
     answers verify as v ! i = None \<Longrightarrow> answers verify as v ! j \<noteq> None"
proof (induction as arbitrary: v i j)
  case (Cons a as)
  obtain m' p' t' e'' where a: "a = (m', p', t', e'')" using prod_cases4 by blast
  obtain j' where j: "j = Suc j'" using Cons.prems(1) by (cases j) auto
  show ?case
  proof (cases i)
    case 0
    then have "verify m p t e v = (None, snd (verify m p t e v))"
      using Cons.prems by (auto simp: a prod_eq_iff)
    from spent_never_accepted [OF accept_spends [OF this], of j' as] show ?thesis
      using Cons.prems 0 by (auto simp: a j)
  next
    case (Suc i')
    then show ?thesis using Cons.IH [of i' j'] Cons.prems by (simp add: a j)
  qed
qed simp

end

end
