(* ===== verification/GoString.thy ===== *)
theory GoString
  imports Prelude
begin

text \<open>
  What the program uses of \<open>strings\<close> and \<open>strconv\<close>. A Go string is the list of its bytes, as characters.
\<close>

subsection \<open>White space\<close>

text \<open>The UTF-8 encodings of the white space characters.\<close>

definition spaces :: "string list" where
  "spaces = map (map char_of :: nat list \<Rightarrow> string)
     ([[9], [10], [11], [12], [13], [32], [0xC2, 0x85], [0xC2, 0xA0], [0xE1, 0x9A, 0x80]] @
      map (\<lambda>n. [0xE2, 0x80, n]) ([0x80..<0x8B] @ [0xA8, 0xA9, 0xAF]) @ [[0xE2, 0x81, 0x9F], [0xE3, 0x80, 0x80]])"

definition strip_one :: "string list \<Rightarrow> string \<Rightarrow> string option" where
  "strip_one sps s =
     (case filter (\<lambda>p. p \<noteq> [] \<and> take (length p) s = p) sps of [] \<Rightarrow> None | p # _ \<Rightarrow> Some (drop (length p) s))"

lemma strip_one_shorter:
  assumes "strip_one sps s = Some s'"
  shows "length s' < length s"
proof -
  obtain p ps where "filter (\<lambda>p. p \<noteq> [] \<and> take (length p) s = p) sps = p # ps" and s': "s' = drop (length p) s"
    using assms by (auto simp: strip_one_def split: list.splits)
  then have "p \<in> set (filter (\<lambda>p. p \<noteq> [] \<and> take (length p) s = p) sps)" by simp
  then have "p \<noteq> []" "length (take (length p) s) = length p" by simp_all
  then show ?thesis by (cases p) (simp_all add: s' min_def split: if_splits)
qed

function strip_all :: "string list \<Rightarrow> string \<Rightarrow> string" where
  "strip_all sps s = (case strip_one sps s of None \<Rightarrow> s | Some s' \<Rightarrow> strip_all sps s')"
  by pat_completeness auto

termination by (relation "measure (\<lambda>(_, s). length s)") (auto dest: strip_one_shorter)

declare strip_all.simps [simp del]

definition TrimSpace :: "string \<Rightarrow> string" where
  "TrimSpace s = rev (strip_all (map rev spaces) (rev (strip_all spaces s)))"

lemma strip_all_none:
  assumes "\<forall>p \<in> set sps. \<forall>c \<in> set p. c \<notin> set s"
  shows "strip_all sps s = s"
proof -
  have "\<not> (p \<noteq> [] \<and> take (length p) s = p)" if "p \<in> set sps" for p
  proof
    assume p: "p \<noteq> [] \<and> take (length p) s = p"
    then have "hd p \<in> set (take (length p) s)" by simp
    then have "hd p \<in> set s" by (rule in_set_takeD)
    then show False using assms that p by auto
  qed
  then have "filter (\<lambda>p. p \<noteq> [] \<and> take (length p) s = p) sps = []" by (simp add: filter_empty_conv)
  then show ?thesis by (subst strip_all.simps) (simp add: strip_one_def)
qed

lemma spaces_bytes: "\<forall>p \<in> set spaces. \<forall>c \<in> set p. of_char c < (33 :: nat) \<or> (127 :: nat) < of_char c"
  by (simp add: spaces_def upt_rec numeral_2_eq_2 [symmetric])

lemma TrimSpace_none:
  assumes "\<forall>c \<in> set s. (33 :: nat) \<le> of_char c \<and> of_char c \<le> (127 :: nat)"
  shows "TrimSpace s = s"
proof -
  have "\<forall>p \<in> set spaces. \<forall>c \<in> set p. c \<notin> set s" using spaces_bytes assms by fastforce
  then show ?thesis by (simp add: TrimSpace_def strip_all_none)
qed

subsection \<open>Case\<close>

text \<open>\<open>strings.EqualFold\<close> against text whose letters fold only to their ASCII counterparts.\<close>

definition fold_ascii :: "char \<Rightarrow> char" where
  "fold_ascii c = (let n = of_char c :: nat in if 65 \<le> n \<and> n \<le> 90 then char_of (n + 32) else c)"

subsection \<open>Decimal numbers\<close>

text \<open>
  \<open>strconv.Atoi\<close>: an optional sign and decimal digits, within the range of an int.
\<close>

definition Atoi :: "string \<Rightarrow> int option" where
  "Atoi s =
     (let ds = (case s of c # cs \<Rightarrow> if c = CHR ''-'' \<or> c = CHR ''+'' then cs else s | [] \<Rightarrow> []);
          n = foldl (\<lambda>n c. 10 * n + (of_char c - 48)) 0 ds;
          v = (if take 1 s = ''-'' then - n else n)
      in if ds \<noteq> [] \<and> list_all (\<lambda>c. (48 :: nat) \<le> of_char c \<and> of_char c \<le> (57 :: nat)) ds \<and>
            - (2 ^ 63) \<le> v \<and> v < 2 ^ 63
         then Some v else None)"

text \<open>The verb \<open>%d\<close>.\<close>

fun itoa_nat :: "nat \<Rightarrow> string" where
  "itoa_nat n = (if n < 10 then [char_of (48 + n)] else itoa_nat (n div 10) @ [char_of (48 + n mod 10)])"

declare itoa_nat.simps [simp del]

definition itoa :: "int \<Rightarrow> string" where
  "itoa n = (if n < 0 then CHR ''-'' # itoa_nat (nat (- n)) else itoa_nat (nat n))"

definition is_digit :: "char \<Rightarrow> bool" where
  "is_digit c \<longleftrightarrow> 48 \<le> (of_char c :: nat) \<and> (of_char c :: nat) \<le> 57"

text \<open>What is needed of the digits of a number: they are digits, and reading them gives the number back.\<close>

definition digit :: "nat \<Rightarrow> char" where
  "digit n = char_of (48 + n)"

lemma digit_facts:
  assumes "n < 10"
  shows "of_char (digit n) = 48 + n" and "is_digit (digit n)"
proof -
  show *: "of_char (digit n) = 48 + n" using assms by (simp add: digit_def of_char_of)
  show "is_digit (digit n)" using assms by (simp add: is_digit_def *)
qed

lemma itoa_nat_digits: "c \<in> set (itoa_nat n) \<Longrightarrow> is_digit c"
proof (induction n rule: itoa_nat.induct)
  case (1 n)
  show ?case
  proof (cases "n < 10")
    case True
    then show ?thesis using 1(2) digit_facts(2) [of n] by (simp add: itoa_nat.simps [of n] digit_def)
  next
    case False
    then show ?thesis using 1 digit_facts(2) [of "n mod 10"] by (auto simp: itoa_nat.simps [of n] digit_def)
  qed
qed

lemma itoa_nat_ne: "itoa_nat n \<noteq> []"
  by (subst itoa_nat.simps) simp

lemma itoa_nat_value: "foldl (\<lambda>n c. 10 * n + (of_char c - 48)) 0 (itoa_nat n) = int n"
proof (induction n rule: itoa_nat.induct)
  case (1 n)
  have d: "(of_char (char_of (48 + k) :: char) :: int) = 48 + int k" if "k < 10" for k :: nat
  proof -
    have "(of_char (char_of (48 + k) :: char) :: nat) = 48 + k" using digit_facts(1) [OF that] by (simp add: digit_def)
    then show ?thesis by (metis of_nat_of_char of_nat_add of_nat_numeral)
  qed
  show ?case
  proof (cases "n < 10")
    case True
    then show ?thesis by (simp add: itoa_nat.simps [of n] d)
  next
    case False
    then show ?thesis using 1 d [of "n mod 10"] by (subst itoa_nat.simps) (simp add: zdiv_int zmod_int)
  qed
qed

end
