(* ===== verification/Http.thy ===== *)
theory Http
  imports Prelude GoString
begin

text \<open>
  What the REST handlers share: a reply is \<open>http.Error\<close> with a status and text, or a JSON
  value with a status; a request's context carries the player id that the authentication
  middleware attached, if it ran (\<open>internal/auth/middleware.go\<close>).
\<close>

datatype 'a response =
    HttpError nat string
  | HttpJSON nat 'a

definition status_of :: "'a response \<Rightarrow> nat" where
  "status_of r = (case r of HttpError n _ \<Rightarrow> n | HttpJSON n _ \<Rightarrow> n)"

definition PlayerIDFromContext :: "uuid option \<Rightarrow> uuid option" where
  "PlayerIDFromContext ctx =
     (case ctx of None \<Rightarrow> None | Some pid \<Rightarrow> if pid \<noteq> uuid_Nil then Some pid else None)"

lemma response_status [simp]:
  "status_of (HttpError n msg) = n" "status_of (HttpJSON n v) = n"
  by (simp_all add: status_of_def)

lemma PlayerIDFromContext_Some: "PlayerIDFromContext ctx = Some pid \<Longrightarrow> ctx = Some pid \<and> pid \<noteq> 0"
  by (auto simp: PlayerIDFromContext_def split: option.splits if_splits)

end
