(* ===== verification/Matchmaking.thy ===== *)
theory Matchmaking
  imports Token Http
begin

text \<open>
  \<open>internal/matchmaking/repo.go\<close>, \<open>service.go\<close> and \<open>handler.go\<close>: the assignments table, the token
  check of the game server, and joining a match. The table is the list of its rows. A query
  that can return any of several rows takes the choice as an argument; \<open>fault i\<close> says whether
  the \<open>i\<close>th statement of an operation fails in the database, and with which message.
\<close>

type_synonym fault = "nat \<Rightarrow> string option"

record Assignment =
  as_match :: uuid
  as_player :: uuid
  as_token :: string
  as_expires :: gotime
  as_consumed :: bool
  as_created :: gotime

definition row_of :: "uuid \<Rightarrow> uuid \<Rightarrow> string \<Rightarrow> Assignment \<Rightarrow> bool" where
  "row_of matchID playerID token a \<longleftrightarrow>
     as_match a = matchID \<and> as_player a = playerID \<and> as_token a = token"

subsection \<open>The repository\<close>

definition CreateAssignment ::
    "fault \<Rightarrow> uuid \<Rightarrow> uuid \<Rightarrow> string \<Rightarrow> gotime \<Rightarrow> gotime \<Rightarrow> Assignment list \<Rightarrow>
     token_error option \<times> Assignment list" where
  "CreateAssignment fault matchID playerID token expiry now db =
     (case fault 0 of
        Some err \<Rightarrow> (Some (TokenFailure (''matchmaking: insert assignment: '' @ err)), db)
      | None \<Rightarrow> (None, db @ [\<lparr>as_match = matchID, as_player = playerID, as_token = token,
                    as_expires = expiry, as_consumed = False, as_created = now\<rparr>]))"

text \<open>\<open>QueryRow\<close> reads one of the matching rows, the one the number \<open>pick\<close> chooses.\<close>

definition select_row ::
    "nat \<Rightarrow> uuid \<Rightarrow> uuid \<Rightarrow> string \<Rightarrow> Assignment list \<Rightarrow> Assignment option" where
  "select_row pick matchID playerID token db =
     (let rows = filter (row_of matchID playerID token) db
      in if rows = [] then None else Some (rows ! (pick mod length rows)))"

definition AssignmentIsFresh ::
    "string \<Rightarrow> nat \<Rightarrow> fault \<Rightarrow> uuid \<Rightarrow> uuid \<Rightarrow> string \<Rightarrow> gotime \<Rightarrow>
     Assignment list \<Rightarrow> token_error + bool" where
  "AssignmentIsFresh secret pick fault matchID playerID rawToken now db =
     (case fault 0 of
        Some err \<Rightarrow> Inl (TokenFailure (''matchmaking: lookup assignment: '' @ err))
      | None \<Rightarrow>
          (case select_row pick matchID playerID rawToken db of
             None \<Rightarrow> Inr False
           | Some a \<Rightarrow>
               if as_consumed a then Inr False
               else if as_expires a < now then Inr False
               else if \<not> VerifyHMAC secret rawToken then Inr False
               else Inr True))"

definition MarkConsumed ::
    "fault \<Rightarrow> uuid \<Rightarrow> uuid \<Rightarrow> string \<Rightarrow> Assignment list \<Rightarrow> token_error option \<times> Assignment list" where
  "MarkConsumed fault matchID playerID rawToken db =
     (case fault 0 of
        Some err \<Rightarrow> (Some (TokenFailure (''matchmaking: mark consumed: '' @ err)), db)
      | None \<Rightarrow>
          (None, map (\<lambda>a. if row_of matchID playerID rawToken a then a\<lparr>as_consumed := True\<rparr> else a) db))"

text \<open>
  \<open>VerifyAndConsume\<close> is two statements, with the checks between them: the part up to the
  update, and the update, which does not look at how many rows it changed.
\<close>

definition verify_select ::
    "tokenlib \<Rightarrow> string \<Rightarrow> nat \<Rightarrow> fault \<Rightarrow> uuid \<Rightarrow> uuid \<Rightarrow> string \<Rightarrow> gotime \<Rightarrow>
     Assignment list \<Rightarrow> token_error option" where
  "verify_select T secret pick fault matchID playerID rawToken now db =
     (case fault 0 of
        Some err \<Rightarrow> Some (TokenFailure (''matchmaking: verify: '' @ err))
      | None \<Rightarrow>
          (case select_row pick matchID playerID rawToken db of
             None \<Rightarrow>
               (case VerifyGameToken T secret rawToken None now of
                  Inl verr \<Rightarrow> if verr = ErrTokenExpired then Some ErrTokenExpired else Some ErrTokenInvalid
                | Inr _ \<Rightarrow> Some ErrTokenInvalid)
           | Some a \<Rightarrow>
               if as_consumed a then Some ErrTokenConsumed
               else if as_expires a < now then Some ErrTokenExpired
               else if \<not> VerifyHMAC secret rawToken then Some ErrTokenInvalid
               else None))"

definition verify_update ::
    "fault \<Rightarrow> uuid \<Rightarrow> uuid \<Rightarrow> string \<Rightarrow> Assignment list \<Rightarrow> token_error option \<times> Assignment list" where
  "verify_update fault matchID playerID rawToken db =
     (case fault 1 of
        Some err \<Rightarrow> (Some (TokenFailure (''matchmaking: consume: '' @ err)), db)
      | None \<Rightarrow>
          (None, map (\<lambda>a. if row_of matchID playerID rawToken a \<and> \<not> as_consumed a
                          then a\<lparr>as_consumed := True\<rparr> else a) db))"

definition VerifyAndConsume ::
    "tokenlib \<Rightarrow> string \<Rightarrow> nat \<Rightarrow> fault \<Rightarrow> uuid \<Rightarrow> uuid \<Rightarrow> string \<Rightarrow> gotime \<Rightarrow>
     Assignment list \<Rightarrow> token_error option \<times> Assignment list" where
  "VerifyAndConsume T secret pick fault matchID playerID rawToken now db =
     (case verify_select T secret pick fault matchID playerID rawToken now db of
        Some err \<Rightarrow> (Some err, db)
      | None \<Rightarrow> verify_update fault matchID playerID rawToken db)"

definition active :: "gotime \<Rightarrow> Assignment \<Rightarrow> bool" where
  "active now a \<longleftrightarrow> \<not> as_consumed a \<and> now < as_expires a"

definition CountForMatch :: "fault \<Rightarrow> nat \<Rightarrow> uuid \<Rightarrow> gotime \<Rightarrow> Assignment list \<Rightarrow> token_error + nat" where
  "CountForMatch fault i matchID now db =
     (case fault i of
        Some err \<Rightarrow> Inl (TokenFailure (''matchmaking: count: '' @ err))
      | None \<Rightarrow> Inr (length (filter (\<lambda>a. as_match a = matchID \<and> active now a) db)))"

subsection \<open>The service\<close>

definition MaxPlayersPerMatch :: nat where
  "MaxPlayersPerMatch = 4"

record MatchInfo =
  mi_MatchID :: uuid
  mi_GameServerHost :: string
  mi_GameServerPort :: int
  mi_GameToken :: string
  mi_ExpiresAt :: gotime

record MatchService =
  ms_gameHost :: string
  ms_gamePort :: int
  ms_tokenSecret :: string

text \<open>
  The query of \<open>findOrCreateMatch\<close>: the matches with fewer than four active assignments, the one
  whose newest active assignment is newest first. \<open>groups\<close> is the order in which the database
  produces the groups, which decides between equally new ones.
\<close>

definition newest :: "gotime \<Rightarrow> Assignment list \<Rightarrow> uuid \<Rightarrow> gotime" where
  "newest now db matchID = Max (set (map as_created (filter (\<lambda>a. as_match a = matchID \<and> active now a) db)))"

definition open_matches :: "gotime \<Rightarrow> Assignment list \<Rightarrow> uuid list \<Rightarrow> uuid list" where
  "open_matches now db groups =
     filter (\<lambda>m. let n = length (filter (\<lambda>a. as_match a = m \<and> active now a) db)
                 in 0 < n \<and> n < MaxPlayersPerMatch) groups"

definition first_open :: "gotime \<Rightarrow> Assignment list \<Rightarrow> uuid list \<Rightarrow> uuid option" where
  "first_open now db groups =
     (case sort_key (\<lambda>m. - newest now db m) (open_matches now db groups) of [] \<Rightarrow> None | m # _ \<Rightarrow> Some m)"

definition findOrCreateMatch ::
    "fault \<Rightarrow> uuid list \<Rightarrow> uuid \<Rightarrow> gotime \<Rightarrow> Assignment list \<Rightarrow> token_error + uuid" where
  "findOrCreateMatch fault groups newID now db =
     (case fault 10 of
        Some err \<Rightarrow> Inl (TokenFailure (''matchmaking: pick: '' @ err))
      | None \<Rightarrow>
          (case first_open now db groups of
             None \<Rightarrow> Inr newID
           | Some matchID \<Rightarrow>
               (case CountForMatch fault 11 matchID now db of
                  Inl err \<Rightarrow> Inl err
                | Inr n \<Rightarrow> if n < MaxPlayersPerMatch then Inr matchID else Inr newID)))"

definition Join ::
    "tokenlib \<Rightarrow> MatchService \<Rightarrow> fault \<Rightarrow> uuid list \<Rightarrow> uuid \<Rightarrow> gotime \<Rightarrow> uuid \<Rightarrow> Assignment list \<Rightarrow>
     (token_error + MatchInfo) \<times> Assignment list" where
  "Join T s fault groups newID now playerID db =
     (if ms_gameHost s = [] \<or> ms_gamePort s = 0 then (Inl ErrNoGameServer, db)
      else case findOrCreateMatch fault groups newID now db of
        Inl err \<Rightarrow> (Inl err, db)
      | Inr matchID \<Rightarrow>
          (case SignGameToken T (ms_tokenSecret s) matchID playerID now of
             Inl err \<Rightarrow> (Inl (TokenFailure (''matchmaking: sign: '' @ token_error_String err)), db)
           | Inr (token, expiry) \<Rightarrow>
               (case CreateAssignment fault matchID playerID token expiry now db of
                  (Some err, db') \<Rightarrow> (Inl err, db')
                | (None, db') \<Rightarrow>
                    (Inr \<lparr>mi_MatchID = matchID, mi_GameServerHost = ms_gameHost s,
                          mi_GameServerPort = ms_gamePort s, mi_GameToken = token,
                          mi_ExpiresAt = expiry\<rparr>, db'))))"

text \<open>The handler of \<open>POST /api/v1/matchmaking/join\<close>.\<close>

definition handle_Join ::
    "tokenlib \<Rightarrow> MatchService \<Rightarrow> fault \<Rightarrow> uuid list \<Rightarrow> uuid \<Rightarrow> gotime \<Rightarrow> uuid option \<Rightarrow> Assignment list \<Rightarrow>
     MatchInfo response \<times> Assignment list" where
  "handle_Join T s fault groups newID now ctx db =
     (case PlayerIDFromContext ctx of
        None \<Rightarrow> (HttpError 401 ''unauthorized'', db)
      | Some playerID \<Rightarrow>
          (case Join T s fault groups newID now playerID db of
             (Inl err, db') \<Rightarrow>
               (if err = ErrNoGameServer \<or> err = ErrRaceFull
                then HttpError 503 (token_error_String err) else HttpError 500 ''internal'', db')
           | (Inr info, db') \<Rightarrow> (HttpJSON 200 info, db')))"

subsection \<open>Lemmas\<close>

lemma select_row_Some:
  "select_row pick m p t db = Some a \<Longrightarrow> a \<in> set db \<and> row_of m p t a"
proof -
  assume "select_row pick m p t db = Some a"
  then have ne: "filter (row_of m p t) db \<noteq> []" and
    a: "a = filter (row_of m p t) db ! (pick mod length (filter (row_of m p t) db))"
    by (auto simp: select_row_def Let_def split: if_splits)
  have "a \<in> set (filter (row_of m p t) db)" unfolding a using ne by (intro nth_mem) simp
  then show ?thesis by simp
qed

lemma select_row_None: "select_row pick m p t db = None \<longleftrightarrow> (\<forall>a \<in> set db. \<not> row_of m p t a)"
  by (auto simp: select_row_def Let_def filter_empty_conv)

lemma row_of_consumed [simp]: "row_of m p t (a\<lparr>as_consumed := b\<rparr>) = row_of m p t a"
  by (simp add: row_of_def)

text \<open>A token is spent when it has rows and all of them are consumed.\<close>

definition spent_token :: "uuid \<Rightarrow> uuid \<Rightarrow> string \<Rightarrow> Assignment list \<Rightarrow> bool" where
  "spent_token m p t db \<longleftrightarrow>
     (\<exists>a \<in> set db. row_of m p t a) \<and> (\<forall>a \<in> set db. row_of m p t a \<longrightarrow> as_consumed a)"

lemma VerifyAndConsume_ok:
  assumes "VerifyAndConsume T secret pick fault m p t now db = (None, db')"
  shows "fault 0 = None" and "fault 1 = None"
    and "\<exists>a \<in> set db. row_of m p t a \<and> \<not> as_consumed a \<and> now \<le> as_expires a"
    and "VerifyHMAC secret t"
    and "db' = map (\<lambda>a. if row_of m p t a \<and> \<not> as_consumed a then a\<lparr>as_consumed := True\<rparr> else a) db"
  using assms
  by (auto simp: VerifyAndConsume_def verify_select_def verify_update_def
      dest!: select_row_Some split: option.splits if_splits sum.splits)

lemma VerifyAndConsume_refused:
  "VerifyAndConsume T secret pick fault m p t now db = (Some err, db') \<Longrightarrow> db' = db"
  by (auto simp: VerifyAndConsume_def verify_update_def split: option.splits)

text \<open>The verifier as the dispatcher calls it: its answer is the error's message.\<close>

type_synonym venv = "nat \<times> fault \<times> gotime"

definition repo_verify ::
    "tokenlib \<Rightarrow> string \<Rightarrow> uuid \<Rightarrow> uuid \<Rightarrow> string \<Rightarrow> venv \<Rightarrow> Assignment list \<Rightarrow>
     string option \<times> Assignment list" where
  "repo_verify T secret m p t e db =
     (let (pick, fault, now) = e;
          (err, db') = VerifyAndConsume T secret pick fault m p t now db
      in (map_option token_error_String err, db'))"

lemma repo_verify_eq:
  "repo_verify T secret m p t (pick, fault, now) db =
     map_prod (map_option token_error_String) id (VerifyAndConsume T secret pick fault m p t now db)"
  by (simp add: repo_verify_def split: prod.split)

lemma VerifyAndConsume_spent:
  assumes "spent_token m p t db"
  shows "spent_token m p t (snd (VerifyAndConsume T secret pick fault m' p' t' now db))"
proof (cases "VerifyAndConsume T secret pick fault m' p' t' now db")
  case (Pair r db')
  show ?thesis
  proof (cases r)
    case None
    from VerifyAndConsume_ok(5) [OF Pair [unfolded None]] assms show ?thesis
      by (auto simp: Pair spent_token_def)
  next
    case (Some err)
    then show ?thesis using VerifyAndConsume_refused [OF Pair [unfolded Some]] assms by (simp add: Pair)
  qed
qed

interpretation repo: token_verifier "repo_verify T secret" spent_token
proof unfold_locales
  fix m p t m' p' t' db db' err and e :: venv
  obtain pick fault now where e: "e = (pick, fault, now)" by (cases e)
  show "spent_token m p t db'" if "repo_verify T secret m p t e db = (None, db')"
  proof -
    have v: "VerifyAndConsume T secret pick fault m p t now db = (None, db')"
      using that by (cases "VerifyAndConsume T secret pick fault m p t now db") (auto simp: e repo_verify_eq)
    define f where "f = (\<lambda>a. if row_of m p t a \<and> \<not> as_consumed a then a\<lparr>as_consumed := True\<rparr> else a)"
    have db': "db' = map f db" using VerifyAndConsume_ok(5) [OF v] by (simp add: f_def)
    have f: "row_of m p t (f a) = row_of m p t a" "row_of m p t a \<Longrightarrow> as_consumed (f a)" for a
      by (auto simp: f_def)
    show ?thesis using VerifyAndConsume_ok(3) [OF v] f by (auto simp: spent_token_def db')
  qed
  show "spent_token m p t (snd (repo_verify T secret m' p' t' e db))" if "spent_token m p t db"
    using VerifyAndConsume_spent [OF that] by (simp add: e repo_verify_eq)
  show "fst (repo_verify T secret m p t e db) \<noteq> None" if spent: "spent_token m p t db"
  proof
    assume "fst (repo_verify T secret m p t e db) = None"
    then obtain db'' where v: "VerifyAndConsume T secret pick fault m p t now db = (None, db'')"
      by (cases "VerifyAndConsume T secret pick fault m p t now db") (auto simp: e repo_verify_eq)
    show False using VerifyAndConsume_ok(3) [OF v] spent by (auto simp: spent_token_def)
  qed
  show "db' = db" if v: "repo_verify T secret m p t e db = (Some err, db')"
  proof -
    obtain err' where "VerifyAndConsume T secret pick fault m p t now db = (Some err', db')"
      using v by (cases "VerifyAndConsume T secret pick fault m p t now db") (auto simp: e repo_verify_eq)
    then show ?thesis by (rule VerifyAndConsume_refused)
  qed
qed

subsection \<open>Properties\<close>

text \<open>Exactly when the game server accepts a token: neither statement fails, the row read for this match,
  player and token is neither consumed nor expired, and the signature is right. Accepting consumes all
  rows of the token and touches no other; a refusal changes nothing.\<close>

theorem VerifyAndConsume_outcomes:
  "VerifyAndConsume T secret pick fault m p t now db =
     (if fault 0 = None \<and> fault 1 = None \<and> VerifyHMAC secret t \<and>
         (\<exists>a. select_row pick m p t db = Some a \<and> \<not> as_consumed a \<and> now \<le> as_expires a)
      then (None, map (\<lambda>a. if row_of m p t a then a\<lparr>as_consumed := True\<rparr> else a) db)
      else (fst (VerifyAndConsume T secret pick fault m p t now db), db)) \<and>
   (fst (VerifyAndConsume T secret pick fault m p t now db) = None \<longleftrightarrow>
      fault 0 = None \<and> fault 1 = None \<and> VerifyHMAC secret t \<and>
      (\<exists>a. select_row pick m p t db = Some a \<and> \<not> as_consumed a \<and> now \<le> as_expires a)) \<and>
   (fault 0 = None \<and> (\<exists>a. select_row pick m p t db = Some a \<and> as_consumed a) \<longrightarrow>
      fst (VerifyAndConsume T secret pick fault m p t now db) = Some ErrTokenConsumed)"
proof -
  have upd: "(if row_of m p t a \<and> \<not> as_consumed a then a\<lparr>as_consumed := True\<rparr> else a) =
      (if row_of m p t a then a\<lparr>as_consumed := True\<rparr> else a)" for a :: Assignment
    by (cases a) auto
  let ?ok = "fault 0 = None \<and> fault 1 = None \<and> VerifyHMAC secret t \<and>
      (\<exists>a. select_row pick m p t db = Some a \<and> \<not> as_consumed a \<and> now \<le> as_expires a)"
  have ok: "?ok \<Longrightarrow> VerifyAndConsume T secret pick fault m p t now db =
      (None, map (\<lambda>a. if row_of m p t a then a\<lparr>as_consumed := True\<rparr> else a) db)"
    by (auto simp: VerifyAndConsume_def verify_select_def verify_update_def upd)
  have iff: "fst (VerifyAndConsume T secret pick fault m p t now db) = None \<longleftrightarrow> ?ok"
    by (auto simp: VerifyAndConsume_def verify_select_def verify_update_def not_less
        split: option.splits sum.splits if_splits)
  have no: "\<not> ?ok \<Longrightarrow> snd (VerifyAndConsume T secret pick fault m p t now db) = db"
    using iff VerifyAndConsume_refused
    by (cases "VerifyAndConsume T secret pick fault m p t now db"; cases "fst (VerifyAndConsume T secret pick fault m p t now db)") auto
  have cons: "fault 0 = None \<Longrightarrow> select_row pick m p t db = Some a \<Longrightarrow> as_consumed a \<Longrightarrow>
      fst (VerifyAndConsume T secret pick fault m p t now db) = Some ErrTokenConsumed" for a
    by (simp add: VerifyAndConsume_def verify_select_def)
  show ?thesis
  proof (intro conjI)
    show "VerifyAndConsume T secret pick fault m p t now db =
     (if ?ok then (None, map (\<lambda>a. if row_of m p t a then a\<lparr>as_consumed := True\<rparr> else a) db)
      else (fst (VerifyAndConsume T secret pick fault m p t now db), db))"
      using ok no by (cases ?ok) (simp_all add: prod_eq_iff)
    show "fst (VerifyAndConsume T secret pick fault m p t now db) = None \<longleftrightarrow> ?ok" by (rule iff)
  qed (use cons in blast)
qed

text \<open>Whatever is presented to a game server, in whatever order and with whatever database failures, no
  token is accepted twice for the same match and player.\<close>

theorem token_single_use:
  assumes "i < j" and "j < length as" and "as ! i = (m, p, t, e)" and "as ! j = (m, p, t, e')"
    and "answers (repo_verify T secret) as db ! i = None"
  shows "answers (repo_verify T secret) as db ! j \<noteq> None"
  using assms by (rule repo.accepted_at_most_once)

definition no_fault :: fault where
  "no_fault = (\<lambda>_. None)"

definition demo_db :: "Assignment list" where
  "demo_db = [\<lparr>as_match = 5, as_player = 9, as_token = token_of ''k'' [1],
     as_expires = 100, as_consumed = False, as_created = 0\<rparr>]"

lemma demo_accept: "fst (VerifyAndConsume demo_tokenlib ''k'' 0 no_fault 5 9 (token_of ''k'' [1]) 50 demo_db) = None"
  by (simp add: VerifyAndConsume_def verify_select_def verify_update_def no_fault_def demo_db_def
      select_row_def row_of_def VerifyHMAC_token)

theorem token_single_use_witness:
  "let a = (5, 9, token_of ''k'' [1], (0, no_fault, 50))
   in answers (repo_verify demo_tokenlib ''k'') [a, a] demo_db ! 1 \<noteq> None"
proof -
  let ?a = "(5, 9, token_of ''k'' [1], (0, no_fault, 50))"
  have "answers (repo_verify demo_tokenlib ''k'') [?a, ?a] demo_db ! 0 = None"
    using demo_accept by (simp add: repo_verify_eq)
  from token_single_use [OF _ _ _ _ this, of 1] show ?thesis by (simp add: Let_def)
qed

text \<open>C34. The check and the update of \<open>VerifyAndConsume\<close> are separate statements: two servers that both read
  the row before either updates it both accept the token.\<close>

theorem concurrent_double_accept:
  assumes "verify_select T secret pick fault m p t now db = None" and "fault 1 = None"
  shows "verify_select T secret pick fault m p t now db = None \<and>
    (let db1 = snd (verify_update fault m p t db)
     in fst (verify_update fault m p t db) = None \<and> fst (verify_update fault m p t db1) = None \<and>
        verify_select T secret pick fault m p t now db1 = Some ErrTokenConsumed)"
proof -
  let ?db1 = "snd (verify_update fault m p t db)"
  obtain a where a: "a \<in> set db" "row_of m p t a" and f: "fault 0 = None"
    using assms(1) by (auto simp: verify_select_def dest!: select_row_Some split: option.splits sum.splits if_splits)
  define f' where "f' = (\<lambda>a. if row_of m p t a \<and> \<not> as_consumed a then a\<lparr>as_consumed := True\<rparr> else a)"
  have db1: "?db1 = map f' db" using assms(2) by (simp add: verify_update_def f'_def)
  have f': "row_of m p t (f' b) = row_of m p t b" "row_of m p t b \<Longrightarrow> as_consumed (f' b)" for b
    by (auto simp: f'_def)
  obtain b where b: "select_row pick m p t ?db1 = Some b"
    using a f'(1) select_row_None [of pick m p t ?db1] by (cases "select_row pick m p t ?db1") (auto simp: db1)
  have "as_consumed b" using select_row_Some [OF b] f' by (auto simp: db1)
  then have "verify_select T secret pick fault m p t now ?db1 = Some ErrTokenConsumed"
    using b f by (simp add: verify_select_def)
  then show ?thesis using assms by (simp add: Let_def verify_update_def)
qed

theorem concurrent_double_accept_witness:
  "fst (verify_update no_fault 5 9 (token_of ''k'' [1])
     (snd (verify_update no_fault 5 9 (token_of ''k'' [1]) demo_db))) = None"
proof -
  have "verify_select demo_tokenlib ''k'' 0 no_fault 5 9 (token_of ''k'' [1]) 50 demo_db = None"
    by (simp add: verify_select_def no_fault_def demo_db_def select_row_def row_of_def VerifyHMAC_token)
  from concurrent_double_accept [OF this] show ?thesis by (simp add: no_fault_def Let_def)
qed

subsection \<open>Joining\<close>

definition active_count :: "gotime \<Rightarrow> Assignment list \<Rightarrow> uuid \<Rightarrow> nat" where
  "active_count now db m = length (filter (\<lambda>a. as_match a = m \<and> active now a) db)"

lemma first_open_Some:
  assumes "first_open now db groups = Some m"
  shows "m \<in> set groups \<and> 0 < active_count now db m \<and> active_count now db m < 4"
proof -
  obtain ms where eq: "sort_key (\<lambda>m. - newest now db m) (open_matches now db groups) = m # ms"
    using assms by (auto simp: first_open_def split: list.splits)
  have "set (m # ms) = set (open_matches now db groups)"
    unfolding eq [symmetric] by (rule set_sort)
  then have "m \<in> set (open_matches now db groups)" by auto
  then show ?thesis by (auto simp: open_matches_def active_count_def Let_def MaxPlayersPerMatch_def)
qed

lemma findOrCreateMatch_cases:
  assumes "findOrCreateMatch fault groups newID now db = Inr m"
  shows "m = newID \<or> m \<in> set groups \<and> 0 < active_count now db m \<and> active_count now db m < 4"
  using assms first_open_Some
  by (auto simp: findOrCreateMatch_def split: option.splits sum.splits if_splits)

lemma Join_ok:
  assumes "Join T s fault groups newID now pid db = (Inr info, db')"
  shows "findOrCreateMatch fault groups newID now db = Inr (mi_MatchID info)"
    and "SignGameToken T (ms_tokenSecret s) (mi_MatchID info) pid now = Inr (mi_GameToken info, mi_ExpiresAt info)"
    and "db' = db @ [\<lparr>as_match = mi_MatchID info, as_player = pid, as_token = mi_GameToken info,
      as_expires = mi_ExpiresAt info, as_consumed = False, as_created = now\<rparr>]"
    and "mi_GameServerHost info = ms_gameHost s \<and> mi_GameServerPort info = ms_gamePort s"
  using assms
  by (auto simp: Join_def CreateAssignment_def split: if_splits sum.splits option.splits prod.splits)

lemma Join_failed:
  "Join T s fault groups newID now pid db = (Inl err, db') \<Longrightarrow> db' = db"
  by (auto simp: Join_def CreateAssignment_def split: if_splits sum.splits option.splits prod.splits)

text \<open>A token just handed out is signed, and its row is the only one with it.\<close>

lemma joined_token:
  assumes "Join T s fault groups newID now pid db = (Inr info, db')"
    and "\<forall>a \<in> set db. as_token a \<noteq> mi_GameToken info"
  shows "mi_ExpiresAt info = unix_time (time_Unix now + 300)" and "VerifyHMAC (ms_tokenSecret s) (mi_GameToken info)"
    and "select_row pick m' p' (mi_GameToken info) db' =
      (if m' = mi_MatchID info \<and> p' = pid
       then Some \<lparr>as_match = mi_MatchID info, as_player = pid, as_token = mi_GameToken info,
         as_expires = mi_ExpiresAt info, as_consumed = False, as_created = now\<rparr> else None)"
proof -
  note j = Join_ok [OF assms(1)] and tok = Sign_token [OF Join_ok(2) [OF assms(1)]]
  show "mi_ExpiresAt info = unix_time (time_Unix now + 300)" "VerifyHMAC (ms_tokenSecret s) (mi_GameToken info)"
    using tok VerifyHMAC_token by auto
  have "filter (row_of m' p' (mi_GameToken info)) db = []"
    using assms(2) by (auto simp: filter_empty_conv row_of_def)
  then show "select_row pick m' p' (mi_GameToken info) db' =
      (if m' = mi_MatchID info \<and> p' = pid
       then Some \<lparr>as_match = mi_MatchID info, as_player = pid, as_token = mi_GameToken info,
         as_expires = mi_ExpiresAt info, as_consumed = False, as_created = now\<rparr> else None)"
    by (auto simp: j(3) select_row_def row_of_def)
qed

text \<open>Tokens are a function of the match, the player and the second, so two joins in one second get the same token.\<close>

lemma same_second_same_token:
  assumes "Join T s fault groups newID now pid db = (Inr info, db')" and "Join T s fault' groups' newID' now' pid db1 = (Inr info', db1')"
    and "mi_MatchID info = mi_MatchID info'" and "time_Unix now = time_Unix now'"
  shows "mi_GameToken info = mi_GameToken info'"
  using Sign_token [OF Join_ok(2) [OF assms(1)]] Sign_token [OF Join_ok(2) [OF assms(2)]] assms(3,4) by auto

text \<open>The row that the database hands back is any of those with the token.\<close>

lemma select_row_any:
  assumes "a \<in> set db" and "row_of m p t a"
  shows "\<exists>pick. select_row pick m p t db = Some a"
proof -
  have a: "a \<in> set (filter (row_of m p t) db)" using assms by simp
  then obtain k where "k < length (filter (row_of m p t) db)" "filter (row_of m p t) db ! k = a"
    by (meson in_set_conv_nth)
  then have "select_row k m p t db = Some a" using a by (auto simp: select_row_def Let_def filter_empty_conv)
  then show ?thesis by blast
qed

text \<open>C11. The API and the game server agree on tokens. A token handed out by \<open>Join\<close> expires five minutes later, to the second. As long as no
  earlier assignment carries the same token, a server with the same secret and a working database accepts it for that match and player until it
  expires, refuses it as expired after that, and refuses it as invalid or expired for any match or player it was not recorded
  for. That condition is not kept by the code: a player that joins the same match twice in one second is given the same token
  again, and if the first assignment has been used by then, the database may hand back its row, and the new token is
  refused as consumed.\<close>

theorem join_then_accept:
  assumes "Join T s fault groups newID now pid db = (Inr info, db')"
  shows "mi_ExpiresAt info = unix_time (time_Unix now + 300) \<and>
    ((\<forall>a \<in> set db. as_token a \<noteq> mi_GameToken info) \<longrightarrow>
      fst (VerifyAndConsume T (ms_tokenSecret s) pick no_fault (mi_MatchID info) pid (mi_GameToken info) now' db') =
        (if now' \<le> mi_ExpiresAt info then None else Some ErrTokenExpired) \<and>
      ((m', p') \<noteq> (mi_MatchID info, pid) \<longrightarrow>
         fst (VerifyAndConsume T (ms_tokenSecret s) pick no_fault m' p' (mi_GameToken info) now' db')
           \<in> {Some ErrTokenInvalid, Some ErrTokenExpired})) \<and>
    ((\<exists>a \<in> set db. row_of (mi_MatchID info) pid (mi_GameToken info) a \<and> as_consumed a) \<longrightarrow>
      (\<exists>pick'. fst (VerifyAndConsume T (ms_tokenSecret s) pick' no_fault (mi_MatchID info) pid (mi_GameToken info) now' db') =
        Some ErrTokenConsumed))"
proof -
  note j = Join_ok [OF assms]
  have "mi_ExpiresAt info = unix_time (time_Unix now + 300)" using Sign_token [OF j(2)] by blast
  moreover have "fst (VerifyAndConsume T (ms_tokenSecret s) pick no_fault (mi_MatchID info) pid (mi_GameToken info) now' db') =
        (if now' \<le> mi_ExpiresAt info then None else Some ErrTokenExpired) \<and>
      ((m', p') \<noteq> (mi_MatchID info, pid) \<longrightarrow>
         fst (VerifyAndConsume T (ms_tokenSecret s) pick no_fault m' p' (mi_GameToken info) now' db')
           \<in> {Some ErrTokenInvalid, Some ErrTokenExpired})" if "\<forall>a \<in> set db. as_token a \<noteq> mi_GameToken info"
    using joined_token [OF assms that]
    by (auto simp: VerifyAndConsume_def verify_select_def verify_update_def no_fault_def split: sum.split)
  moreover have "\<exists>pick'. fst (VerifyAndConsume T (ms_tokenSecret s) pick' no_fault (mi_MatchID info) pid (mi_GameToken info) now' db') =
        Some ErrTokenConsumed" if a: "a \<in> set db" "row_of (mi_MatchID info) pid (mi_GameToken info) a" "as_consumed a" for a
  proof -
    have "a \<in> set db'" using a(1) j(3) by simp
    then obtain pick' where "select_row pick' (mi_MatchID info) pid (mi_GameToken info) db' = Some a"
      using select_row_any a(2) by blast
    then show ?thesis using a(3)
      by (intro exI [of _ pick']) (simp add: VerifyAndConsume_def verify_select_def no_fault_def)
  qed
  ultimately show ?thesis by blast
qed

definition demo_service :: MatchService where
  "demo_service = \<lparr>ms_gameHost = ''localhost'', ms_gamePort = 7000, ms_tokenSecret = ''k''\<rparr>"

text \<open>The player 9 joins, is let in, and joins the same match again within the second: the player 8 keeps it open.\<close>

theorem join_then_accept_witness:
  "\<exists>info db'. Join demo_tokenlib demo_service no_fault [] 5 0 9 [] = (Inr info, db') \<and>
     fst (VerifyAndConsume demo_tokenlib ''k'' 0 no_fault 5 9 (mi_GameToken info) (300 * Second) db') = None \<and>
     (\<exists>info2 db2 pick. Join demo_tokenlib demo_service no_fault [5] 77 0 9
         (\<lparr>as_match = 5, as_player = 8, as_token = ''t'', as_expires = 900 * Second, as_consumed = False, as_created = 0\<rparr> #
          map (\<lambda>a. a\<lparr>as_consumed := True\<rparr>) db') = (Inr info2, db2) \<and> mi_GameToken info2 = mi_GameToken info \<and>
       fst (VerifyAndConsume demo_tokenlib ''k'' pick no_fault 5 9 (mi_GameToken info2) (300 * Second) db2) = Some ErrTokenConsumed)"
proof -
  note join_defs = Join_def demo_service_def findOrCreateMatch_def no_fault_def first_open_def open_matches_def
    SignGameToken_def demo_tokenlib_def TokenTTL_def time_Unix_def unix_epoch_def Let_def CreateAssignment_def
  obtain info db' where j: "Join demo_tokenlib demo_service no_fault [] 5 0 9 [] = (Inr info, db')"
    and m: "mi_MatchID info = 5" by (simp add: join_defs)
  let ?db = "\<lparr>as_match = 5, as_player = 8, as_token = ''t'', as_expires = 900 * Second, as_consumed = False, as_created = 0\<rparr> #
          map (\<lambda>a. a\<lparr>as_consumed := True\<rparr>) db'"
  have db': "db' = [\<lparr>as_match = 5, as_player = 9, as_token = mi_GameToken info, as_expires = mi_ExpiresAt info,
      as_consumed = False, as_created = 0\<rparr>]" using Join_ok(3) [OF j] m by simp
  have "findOrCreateMatch no_fault [5] 77 0 ?db = Inr 5"
    by (simp add: db' findOrCreateMatch_def no_fault_def first_open_def open_matches_def active_def MaxPlayersPerMatch_def
        CountForMatch_def Let_def)
  then obtain info2 db2 where j2: "Join demo_tokenlib demo_service no_fault [5] 77 0 9 ?db = (Inr info2, db2)"
    and m2: "mi_MatchID info2 = 5"
    by (simp add: Join_def demo_service_def SignGameToken_def demo_tokenlib_def TokenTTL_def time_Unix_def unix_epoch_def
        Let_def CreateAssignment_def no_fault_def)
  have tok: "mi_GameToken info2 = mi_GameToken info" using same_second_same_token [OF j2 j] m m2 by simp
  have secret: "ms_tokenSecret demo_service = ''k''" by (simp add: demo_service_def)
  have exp: "mi_ExpiresAt info = 300 * Second"
    using join_then_accept [OF j, of 0 0 0 0] by (simp add: time_Unix_def unix_time_def unix_epoch_def)
  have "fst (VerifyAndConsume demo_tokenlib ''k'' 0 no_fault 5 9 (mi_GameToken info) (300 * Second) db') = None"
    using join_then_accept [OF j, of 0 "300 * Second" 0 0] exp by (simp add: m secret)
  moreover have "\<exists>a \<in> set ?db. row_of 5 9 (mi_GameToken info2) a \<and> as_consumed a"
    using Join_ok(3) [OF j] by (simp add: row_of_def m tok)
  then have "\<exists>pick. fst (VerifyAndConsume demo_tokenlib ''k'' pick no_fault 5 9 (mi_GameToken info2) (300 * Second) db2) = Some ErrTokenConsumed"
    using join_then_accept [OF j2, of 0 "300 * Second" 0 0] unfolding m2 secret by blast
  ultimately show ?thesis using j j2 tok by blast
qed

theorem VerifyAndConsume_outcomes_witness:
  "snd (VerifyAndConsume demo_tokenlib ''k'' 0 no_fault 5 9 (token_of ''k'' [1]) 50 demo_db) =
     map (\<lambda>a. a\<lparr>as_consumed := True\<rparr>) demo_db"
proof -
  note v = VerifyAndConsume_outcomes [of demo_tokenlib "''k''" 0 no_fault 5 9 "token_of ''k'' [1]" 50 demo_db]
  have "VerifyAndConsume demo_tokenlib ''k'' 0 no_fault 5 9 (token_of ''k'' [1]) 50 demo_db =
      (None, map (\<lambda>a. if row_of 5 9 (token_of ''k'' [1]) a then a\<lparr>as_consumed := True\<rparr> else a) demo_db)"
    using v demo_accept by metis
  then show ?thesis by (simp add: demo_db_def row_of_def)
qed

text \<open>\<open>Join\<close> keeps the number of active assignments of every match at four or fewer, provided
  \<open>uuid.New()\<close> gives an id no assignment has.\<close>

theorem active_capacity:
  assumes "\<forall>m. active_count now db m \<le> 4" and "\<forall>a \<in> set db. as_match a \<noteq> newID"
    and "Join T s fault groups newID now pid db = (res, db')"
  shows "\<forall>m. active_count now db' m \<le> 4"
proof (cases res)
  case (Inl err)
  then show ?thesis using Join_failed assms(1,3) by blast
next
  case (Inr info)
  note j = Join_ok [OF assms(3) [unfolded Inr]]
  have new: "active_count now db newID = 0"
    using assms(2) by (auto simp: active_count_def filter_empty_conv)
  have "active_count now db (mi_MatchID info) < 4"
    using findOrCreateMatch_cases [OF j(1)] new by auto
  then show ?thesis
    using assms(1) by (auto simp: j(3) active_count_def)
qed

theorem active_capacity_witness:
  "\<forall>m. active_count 0 (snd (Join demo_tokenlib demo_service no_fault [] 5 0 9 [])) m \<le> 4"
  using active_capacity [of 0 "[]" 5 demo_tokenlib demo_service no_fault "[]" 9,
      OF _ _ prod.collapse [symmetric]]
  by (simp add: active_count_def)

text \<open>The cap counts only unconsumed assignments, so it does not cap the players of a match: a match whose
  first four players have already been let in still takes more.\<close>

theorem join_over_capacity:
  "let row = (\<lambda>p b. \<lparr>as_match = 5, as_player = p, as_token = ''t'', as_expires = 900 * Second,
                     as_consumed = b, as_created = 0\<rparr>);
       db = [row 1 True, row 2 True, row 3 True, row 4 True, row 6 False]
   in (case Join demo_tokenlib demo_service no_fault [5] 77 0 9 db of
         (Inr info, db') \<Rightarrow> mi_MatchID info = 5 \<and> length (filter (\<lambda>a. as_match a = 5) db') = 6
       | _ \<Rightarrow> False)"
  by (simp add: Join_def demo_service_def findOrCreateMatch_def no_fault_def first_open_def open_matches_def
      active_def MaxPlayersPerMatch_def CountForMatch_def SignGameToken_def demo_tokenlib_def TokenTTL_def
      time_Unix_def unix_epoch_def Let_def CreateAssignment_def)

end
