(* ===== verification/NetAddr.thy ===== *)
theory NetAddr
  imports GoString
begin

text \<open>
  What the sessions use of package \<open>net\<close> to keep an address as text and to read it back: \<open>UDPAddr.String\<close>,
  \<open>SplitHostPort\<close> and \<open>ParseIP\<close>, with the text forms of \<open>net/netip\<close>. An IP is its octets, four or sixteen of
  them; the nil IP is the empty list. What is read back is the address that was written, unless it has a zone.
\<close>

record UDPAddr =
  ua_IP :: bytes
  ua_Port :: int
  ua_Zone :: string

subsection \<open>Writing an address\<close>

text \<open>\<open>To4\<close>: the last four octets of an IPv4-mapped address.\<close>

definition To4 :: "bytes \<Rightarrow> bytes option" where
  "To4 ip =
     (if length ip = 4 then Some ip
      else if length ip = 16 \<and> list_all (\<lambda>b. b = 0) (take 10 ip) \<and> ip ! 10 = 0xff \<and> ip ! 11 = 0xff then Some (drop 12 ip)
      else None)"

definition hex_digit :: "nat \<Rightarrow> char" where
  "hex_digit n = ''0123456789abcdef'' ! n"

fun hex_nat :: "nat \<Rightarrow> string" where
  "hex_nat n = (if n < 16 then [hex_digit n] else hex_nat (n div 16) @ [hex_digit (n mod 16)])"

declare hex_nat.simps [simp del]

definition hexString :: "bytes \<Rightarrow> string" where
  "hexString bs = concat (map (\<lambda>b. [hex_digit (unat b div 16), hex_digit (unat b mod 16)]) bs)"

fun join :: "char \<Rightarrow> string list \<Rightarrow> string" where
  "join c [] = []"
| "join c [s] = s"
| "join c (s # ss) = s @ c # join c ss"

definition show_v4 :: "bytes \<Rightarrow> string" where
  "show_v4 ip = join CHR ''.'' (map (\<lambda>b. itoa_nat (unat b)) ip)"

fun octet_pairs :: "bytes \<Rightarrow> nat list" where
  "octet_pairs (a # b # bs) = (256 * unat a + unat b) # octet_pairs bs"
| "octet_pairs bs = []"

text \<open>\<open>appendTo6\<close>: the first of the longest runs of at least two zero groups, as a half-open interval, and the groups
  with that run written as two colons. The groups left to write start at index \<open>i\<close>.\<close>

fun longest_run :: "nat \<Rightarrow> nat list \<Rightarrow> nat \<times> nat \<Rightarrow> nat \<times> nat" where
  "longest_run i [] z = z"
| "longest_run i (g # gs) (zs, ze) =
     (let l = length (takeWhile (\<lambda>g. g = 0) (g # gs))
      in longest_run (i + 1) gs (if 2 \<le> l \<and> ze - zs < l then (i, i + l) else (zs, ze)))"

function put_groups :: "nat \<Rightarrow> nat \<Rightarrow> nat \<Rightarrow> nat list \<Rightarrow> string" where
  "put_groups zs ze i gs =
     (case gs of
        [] \<Rightarrow> []
      | g # gs' \<Rightarrow>
          if i = zs then ''::'' @ (case drop (ze - i) gs of [] \<Rightarrow> [] | h # hs \<Rightarrow> hex_nat h @ put_groups zs ze (ze + 1) hs)
          else (if 0 < i then '':'' else []) @ hex_nat g @ put_groups zs ze (i + 1) gs')"
  by pat_completeness auto
termination
proof (relation "measure (\<lambda>(zs, ze, i, gs). length gs)")
  fix zs ze i :: nat and gs g gs' h hs
  assume "gs = g # gs'" and "i = zs" and "drop (ze - i) gs = h # hs"
  then have "length (drop (ze - i) gs) = Suc (length hs)" by simp
  then show "((zs, ze, ze + 1, hs), (zs, ze, i, gs)) \<in> measure (\<lambda>(zs, ze, i, gs). length gs)" by simp
qed auto

declare put_groups.simps [simp del]

definition show_v6 :: "bytes \<Rightarrow> string" where
  "show_v6 ip = (let gs = octet_pairs ip; (zs, ze) = longest_run 0 gs (255, 255) in put_groups zs ze 0 gs)"

definition IP_String :: "bytes \<Rightarrow> string" where
  "IP_String ip =
     (if ip = [] then ''<nil>''
      else if length ip \<noteq> 4 \<and> length ip \<noteq> 16 then ''?'' @ hexString ip
      else case To4 ip of Some p \<Rightarrow> show_v4 p | None \<Rightarrow> show_v6 ip)"

definition JoinHostPort :: "string \<Rightarrow> string \<Rightarrow> string" where
  "JoinHostPort host port = (if CHR '':'' \<in> set host then ''['' @ host @ '']:'' @ port else host @ '':'' @ port)"

definition UDPAddr_String :: "UDPAddr \<Rightarrow> string" where
  "UDPAddr_String a =
     (let ip = (if ua_IP a = [] then [] else IP_String (ua_IP a))
      in JoinHostPort (if ua_Zone a \<noteq> [] then ip @ ''%'' @ ua_Zone a else ip) (itoa (ua_Port a)))"

subsection \<open>Reading an address\<close>

text \<open>\<open>SplitHostPort\<close>; its errors differ only in their text. The last colon is found first.\<close>

definition SplitHostPort :: "string \<Rightarrow> (string \<times> string) option" where
  "SplitHostPort hp =
     (if CHR '':'' \<notin> set hp then None
      else
        let port = rev (takeWhile (\<lambda>c. c \<noteq> CHR '':'') (rev hp));
            pre = rev (tl (dropWhile (\<lambda>c. c \<noteq> CHR '':'') (rev hp)))
        in if hd hp = CHR ''['' then
             if CHR '']'' \<notin> set hp then None
             else let host = takeWhile (\<lambda>c. c \<noteq> CHR '']'') (tl hp)
               in if pre \<noteq> ''['' @ host @ '']'' then None
                  else if CHR ''['' \<in> set (tl hp) \<or> CHR '']'' \<in> set port then None
                  else Some (host, port)
           else if CHR '':'' \<in> set pre then None
           else if CHR ''['' \<in> set hp \<or> CHR '']'' \<in> set hp then None
           else Some (pre, port))"

text \<open>\<open>parseIPv4Fields\<close>: the fields read so far, the value of the current one and its number of digits, which is 0
  exactly at the start and after a dot.\<close>

fun v4_fields :: "string \<Rightarrow> bytes \<Rightarrow> nat \<Rightarrow> nat \<Rightarrow> bytes option" where
  "v4_fields [] fs val digLen = (if length fs < 3 then None else Some (fs @ [of_nat val]))"
| "v4_fields (c # s) fs val digLen =
     (if is_digit c then
        if digLen = 1 \<and> val = 0 then None
        else let val = 10 * val + (of_char c - 48)
          in if 255 < val then None else v4_fields s fs val (digLen + 1)
      else if c = CHR ''.'' then
        if digLen = 0 \<or> s = [] then None
        else if length fs = 3 then None
        else v4_fields s (fs @ [of_nat val]) 0 0
      else None)"

definition hex_value :: "char \<Rightarrow> nat option" where
  "hex_value c =
     (let n = of_char c
      in if 48 \<le> n \<and> n \<le> 57 then Some (n - 48)
         else if 97 \<le> n \<and> n \<le> 102 then Some (n - 87)
         else if 65 \<le> n \<and> n \<le> 70 then Some (n - 55)
         else None)"

definition hex_acc :: "string \<Rightarrow> nat" where
  "hex_acc ds = foldl (\<lambda>n c. 16 * n + the (hex_value c)) 0 ds"

text \<open>The loop of \<open>parseIPv6\<close>: the octets so far, where the ellipsis stood, and the text left. A group has at most four
  digits; text left after sixteen octets is an error.\<close>

function v6_loop :: "bytes \<Rightarrow> nat option \<Rightarrow> string \<Rightarrow> (bytes \<times> nat option) option" where
  "v6_loop ip ell s =
     (if 16 \<le> length ip then (if s = [] then Some (ip, ell) else None)
      else
        let ds = takeWhile (\<lambda>c. hex_value c \<noteq> None) s;
            acc = hex_acc ds;
            ip' = ip @ [of_nat (acc div 256), of_nat (acc mod 256)]
        in if ds = [] \<or> 4 < length ds then None
           else case drop (length ds) s of
                  [] \<Rightarrow> Some (ip', ell)
                | c # s' \<Rightarrow>
                    if c = CHR ''.'' then
                      if ell = None \<and> length ip \<noteq> 12 then None
                      else if 16 < length ip + 4 then None
                      else (case v4_fields s [] 0 0 of None \<Rightarrow> None | Some p \<Rightarrow> Some (ip @ p, ell))
                    else if c \<noteq> CHR '':'' then None
                    else (case s' of
                        [] \<Rightarrow> None
                      | d # s'' \<Rightarrow>
                          if d = CHR '':'' then
                            if ell \<noteq> None then None
                            else if s'' = [] then Some (ip', Some (length ip'))
                            else v6_loop ip' (Some (length ip')) s''
                          else v6_loop ip' ell s'))"
  by pat_completeness auto
termination
proof (relation "measure (\<lambda>(ip, ell, s). length s)")
  fix ip :: bytes and ell :: "nat option" and s ds c s' d s''
  assume "drop (length ds) s = c # s'" and s': "s' = d # s''"
  then have "length s - length ds = Suc (length s')" by (metis length_drop length_Cons)
  then show "((x, y, s''), (ip, ell, s)) \<in> measure (\<lambda>(ip, ell, s). length s)"
    and "((x, z, s'), (ip, ell, s)) \<in> measure (\<lambda>(ip, ell, s). length s)" for x y z
    using s' by simp_all
qed auto

declare v6_loop.simps [simp del]

definition v6_expand :: "bytes \<times> nat option \<Rightarrow> bytes option" where
  "v6_expand r =
     (case r of (ip, ell) \<Rightarrow>
        if length ip < 16 then
          (case ell of None \<Rightarrow> None | Some e \<Rightarrow> Some (take e ip @ replicate (16 - length ip) 0 @ drop e ip))
        else if ell \<noteq> None then None
        else Some ip)"

definition parseIPv6 :: "string \<Rightarrow> (bytes \<times> string) option" where
  "parseIPv6 s =
     (let host = takeWhile (\<lambda>c. c \<noteq> CHR ''%'') s;
          zone = tl (dropWhile (\<lambda>c. c \<noteq> CHR ''%'') s)
      in if CHR ''%'' \<in> set s \<and> zone = [] then None
         else if host = ''::'' then Some (replicate 16 0, zone)
         else case (if take 2 host = ''::'' then v6_loop [] (Some 0) (drop 2 host) else v6_loop [] None host) of
                None \<Rightarrow> None
              | Some r \<Rightarrow> map_option (\<lambda>ip. (ip, zone)) (v6_expand r))"

text \<open>\<open>netip.ParseAddr\<close> decides by the first dot, colon or percent sign. \<open>net.ParseIP\<close> takes no zone and gives 16 octets.\<close>

definition v4_mapped :: "bytes \<Rightarrow> bytes" where
  "v4_mapped ip = replicate 10 0 @ [0xff, 0xff] @ ip"

definition ParseIP :: "string \<Rightarrow> bytes option" where
  "ParseIP s =
     (case dropWhile (\<lambda>c. c \<notin> {CHR ''.'', CHR '':'', CHR ''%''}) s of
        [] \<Rightarrow> None
      | c # _ \<Rightarrow>
          if c = CHR ''.'' then map_option v4_mapped (v4_fields s [] 0 0)
          else if c = CHR '':'' then
            (case parseIPv6 s of None \<Rightarrow> None | Some (ip, zone) \<Rightarrow> if zone \<noteq> [] then None else Some ip)
          else None)"

subsection \<open>Hexadecimal numbers\<close>

lemma hex_digit_facts:
  assumes "n < 16"
  shows "hex_value (hex_digit n) = Some n" and "hex_digit n \<notin> {CHR '':'', CHR ''.'', CHR ''%'', CHR ''['', CHR '']''}"
proof -
  have "\<forall>n \<in> set [0..<16]. hex_value (hex_digit n) = Some n \<and> hex_digit n \<notin> {CHR '':'', CHR ''.'', CHR ''%'', CHR ''['', CHR '']''}"
    by code_simp
  then show "hex_value (hex_digit n) = Some n" and "hex_digit n \<notin> {CHR '':'', CHR ''.'', CHR ''%'', CHR ''['', CHR '']''}"
    using assms by auto
qed

lemma hex_nat_chars: "c \<in> set (hex_nat n) \<Longrightarrow> \<exists>k < 16. c = hex_digit k"
proof (induction n rule: hex_nat.induct)
  case (1 n)
  show ?case
  proof (cases "n < 16")
    case True
    then show ?thesis using 1(2) by (auto simp: hex_nat.simps [of n])
  next
    case False
    then show ?thesis using 1 by (auto simp: hex_nat.simps [of n] intro: exI [of _ "n mod 16"])
  qed
qed

lemma hex_nat_ne: "hex_nat n \<noteq> []"
  by (subst hex_nat.simps) simp

lemma hex_nat_value: "hex_acc (hex_nat n) = n"
proof (induction n rule: hex_nat.induct)
  case (1 n)
  then show ?case using hex_digit_facts(1)
    by (cases "n < 16") (simp_all add: hex_acc_def hex_nat.simps [of n])
qed

lemma hex_nat_length: "n < 16 ^ k \<Longrightarrow> 0 < k \<Longrightarrow> length (hex_nat n) \<le> k"
proof (induction k arbitrary: n)
  case (Suc k)
  show ?case
  proof (cases "n < 16")
    case False
    then have "n div 16 < 16 ^ k" "0 < k" using Suc.prems(1) by (auto simp: less_mult_imp_div_less mult.commute intro: Suc_leI ccontr)
    then show ?thesis using Suc.IH False by (simp add: hex_nat.simps [of n])
  qed (simp add: hex_nat.simps [of n])
qed simp

lemma hex_nat_scan:
  assumes "rest = [] \<or> hex_value (hd rest) = None"
  shows "takeWhile (\<lambda>c. hex_value c \<noteq> None) (hex_nat n @ rest) = hex_nat n"
proof -
  have "\<forall>c \<in> set (hex_nat n). hex_value c \<noteq> None" using hex_nat_chars hex_digit_facts(1) by fastforce
  then have "takeWhile (\<lambda>c. hex_value c \<noteq> None) (hex_nat n @ rest) = hex_nat n @ takeWhile (\<lambda>c. hex_value c \<noteq> None) rest"
    by (simp add: takeWhile_append2)
  moreover have "takeWhile (\<lambda>c. hex_value c \<noteq> None) rest = []" using assms by (cases rest) simp_all
  ultimately show ?thesis by (simp only: append_Nil2)
qed

subsection \<open>IPv4\<close>

lemma v4_digit:
  assumes "n < 10" and "\<not> (len = 1 \<and> val = 0)" and "10 * val + n \<le> 255"
  shows "v4_fields (digit n # s) fs val len = v4_fields s fs (10 * val + n) (len + 1)"
  using assms digit_facts [OF assms(1)] by (auto simp: Let_def)

lemma v4_number:
  assumes "n < 256"
  shows "\<exists>len > 0. v4_fields (itoa_nat n @ s) fs 0 0 = v4_fields s fs n len"
proof -
  consider "n < 10" | "10 \<le> n" "n < 100" | "100 \<le> n" by linarith
  then show ?thesis
  proof cases
    case 1
    then show ?thesis using v4_digit [of n 0 0 s fs] by (auto simp: itoa_nat.simps [of n] digit_def)
  next
    case 2
    have "itoa_nat n = [digit (n div 10), digit (n mod 10)]"
      using 2 less_mult_imp_div_less [of n 10 10] by (simp add: itoa_nat.simps [of n] itoa_nat.simps [of "n div 10"] digit_def)
    moreover have "10 * (n div 10) + n mod 10 = n" by simp
    ultimately show ?thesis using 2 v4_digit [of "n div 10" 0 0 "digit (n mod 10) # s" fs] v4_digit [of "n mod 10" 1 "n div 10" s fs]
      by (auto intro!: exI [of _ "Suc (Suc 0)"] simp del: v4_fields.simps)
  next
    case 3
    let ?h = "n div 10 div 10" and ?t = "n div 10 mod 10" and ?o = "n mod 10"
    have q: "10 * ?h + ?t = n div 10" "10 * (n div 10) + ?o = n" by simp_all
    have b: "n div 10 < 26" "?h < 10" "0 < ?h" using 3 assms by (simp_all add: less_mult_imp_div_less div_greater_zero_iff)
    have "itoa_nat n = [digit ?h, digit ?t, digit ?o]"
      using 3 b by (simp add: itoa_nat.simps [of n] itoa_nat.simps [of "n div 10"] itoa_nat.simps [of ?h] digit_def)
    moreover have "v4_fields (digit ?h # digit ?t # digit ?o # s) fs 0 0 = v4_fields (digit ?t # digit ?o # s) fs ?h 1"
      using v4_digit [of ?h 0 0 "digit ?t # digit ?o # s" fs] b by (simp del: v4_fields.simps)
    moreover have "v4_fields (digit ?t # digit ?o # s) fs ?h 1 = v4_fields (digit ?o # s) fs (n div 10) (Suc (Suc 0))"
      using v4_digit [of ?t 1 ?h "digit ?o # s" fs] b q(1) by (simp del: v4_fields.simps)
    moreover have "v4_fields (digit ?o # s) fs (n div 10) (Suc (Suc 0)) = v4_fields s fs n (Suc (Suc (Suc 0)))"
      using v4_digit [of ?o "Suc (Suc 0)" "n div 10" s fs] q(2) assms by (simp del: v4_fields.simps)
    ultimately show ?thesis by (auto intro!: exI [of _ "Suc (Suc (Suc 0))"] simp del: v4_fields.simps)
  qed
qed

lemma v4_field:
  assumes "s \<noteq> []" and "length fs \<noteq> 3"
  shows "v4_fields (itoa_nat (unat b) @ CHR ''.'' # s) fs 0 0 = v4_fields s (fs @ [b :: byte]) 0 0"
proof -
  obtain len where len: "0 < len" "v4_fields (itoa_nat (unat b) @ CHR ''.'' # s) fs 0 0 = v4_fields (CHR ''.'' # s) fs (unat b) len"
    using v4_number [of "unat b" "CHR ''.'' # s" fs] unat_byte [of b] by blast
  then show ?thesis using assms by (simp add: is_digit_def)
qed

lemma v4_last: "length fs = 3 \<Longrightarrow> v4_fields (itoa_nat (unat b)) fs 0 0 = Some (fs @ [b :: byte])"
  using v4_number [of "unat b" "[]" fs] unat_byte [of b] by auto

lemma v4_roundtrip: "length ip = 4 \<Longrightarrow> v4_fields (show_v4 ip) [] 0 0 = Some ip"
proof -
  assume "length ip = 4"
  then obtain a b c d where "ip = [a, b, c, d]" by (auto simp: length_Suc_conv eval_nat_numeral)
  then show ?thesis using itoa_nat_ne by (simp add: show_v4_def v4_field v4_last)
qed

subsection \<open>IPv6\<close>

definition two :: "nat \<Rightarrow> bytes" where
  "two g = [of_nat (g div 256), of_nat (g mod 256)]"

definition octets :: "nat list \<Rightarrow> bytes" where
  "octets gs = concat (map two gs)"

definition colons :: "nat list \<Rightarrow> string" where
  "colons gs = join CHR '':'' (map hex_nat gs)"

lemma octets_simps [simp]: "octets [] = []" "octets (g # gs) = two g @ octets gs" "octets (gs @ hs) = octets gs @ octets hs"
  by (simp_all add: octets_def)

lemma length_octets [simp]: "length (octets gs) = 2 * length gs" "length (two g) = 2"
  by (induction gs) (simp_all add: octets_def two_def)

lemma octets_zero: "octets (replicate n 0) = replicate (2 * n) 0"
  by (induction n) (simp_all add: two_def)

lemma octet_pairs_octets: "even (length ip) \<Longrightarrow> octets (octet_pairs ip) = ip \<and> length (octet_pairs ip) = length ip div 2 \<and>
    (\<forall>g \<in> set (octet_pairs ip). g < 65536)"
proof (induction ip rule: octet_pairs.induct)
  case (1 a b bs)
  have "256 * unat a + unat b < 65536" using unat_byte [of a] unat_byte [of b] by linarith
  moreover have "two (256 * unat a + unat b) = [a, b]" using unat_byte [of b] by (simp add: two_def)
  ultimately show ?case using 1 by simp
qed simp_all

lemma colons_simps [simp]: "colons [] = []" "colons [g] = hex_nat g" "gs \<noteq> [] \<Longrightarrow> colons (g # gs) = hex_nat g @ CHR '':'' # colons gs"
  by (simp add: colons_def, simp add: colons_def, cases gs) (simp_all add: colons_def)

lemma colons_Cons: "colons (g # gs) = hex_nat g @ concat (map (\<lambda>g. CHR '':'' # hex_nat g) gs)"
proof (induction gs arbitrary: g)
  case (Cons h gs)
  then show ?case by (cases gs) simp_all
qed simp

lemma colons_hd: "gs \<noteq> [] \<Longrightarrow> \<exists>k s. k < 16 \<and> colons gs = hex_digit k # s"
proof -
  assume "gs \<noteq> []"
  then obtain g gs' where gs: "gs = g # gs'" by (cases gs) auto
  obtain c t where t: "hex_nat g = c # t" using hex_nat_ne [of g] by (cases "hex_nat g") auto
  then have "\<exists>k < 16. c = hex_digit k" using hex_nat_chars [of c g] by simp
  then show ?thesis using t by (auto simp: gs colons_Cons)
qed

text \<open>Reading one group, by what follows it.\<close>

lemma colon_not_hex: "hex_value CHR '':'' = None"
  by code_simp

lemma v6_group:
  assumes "g < 65536" and "length ip < 16" and "rest = [] \<or> hex_value (hd rest) = None"
  shows "v6_loop ip ell (hex_nat g @ rest) =
    (case rest of
       [] \<Rightarrow> Some (ip @ two g, ell)
     | c # s' \<Rightarrow>
         if c = CHR ''.'' then
           if ell = None \<and> length ip \<noteq> 12 then None
           else if 16 < length ip + 4 then None
           else (case v4_fields (hex_nat g @ rest) [] 0 0 of None \<Rightarrow> None | Some p \<Rightarrow> Some (ip @ p, ell))
         else if c \<noteq> CHR '':'' then None
         else (case s' of
             [] \<Rightarrow> None
           | d # s'' \<Rightarrow>
               if d = CHR '':'' then
                 if ell \<noteq> None then None
                 else if s'' = [] then Some (ip @ two g, Some (length ip + 2))
                 else v6_loop (ip @ two g) (Some (length ip + 2)) s''
               else v6_loop (ip @ two g) ell s'))"
proof -
  note scan = hex_nat_scan [OF assms(3), of g]
  have ds: "\<not> (hex_nat g = [] \<or> 4 < length (hex_nat g))" using hex_nat_ne hex_nat_length [of g 4] assms(1) by simp
  have "ip @ [of_nat (g div 256), of_nat (g mod 256)] = ip @ two g" by (simp add: two_def)
  then show ?thesis
    unfolding v6_loop.simps [of ip ell "hex_nat g @ rest"] Let_def scan hex_nat_value
    using ds assms(2) by (simp cong: list.case_cong if_cong)
qed

lemma v6_colon:
  assumes "g < 65536" and "length ip < 16" and "s \<noteq> []" and "hd s \<noteq> CHR '':''"
  shows "v6_loop ip ell (hex_nat g @ CHR '':'' # s) = v6_loop (ip @ two g) ell s"
  using v6_group [OF assms(1,2), of "CHR '':'' # s"] colon_not_hex assms(3,4) by (cases s) auto

lemma v6_ellipsis:
  assumes "g < 65536" and "length ip < 16"
  shows "v6_loop ip None (hex_nat g @ ''::'' @ s) =
    (if s = [] then Some (ip @ two g, Some (length ip + 2)) else v6_loop (ip @ two g) (Some (length ip + 2)) s)"
  using v6_group [OF assms, of "''::'' @ s"] colon_not_hex by simp

lemma v6_groups:
  assumes "gs \<noteq> []" and "\<forall>g \<in> set gs. g < 65536" and "length ip + 2 * length gs \<le> 16"
  shows "v6_loop ip ell (colons gs) = Some (ip @ octets gs, ell)"
  using assms
proof (induction gs arbitrary: ip)
  case (Cons g gs)
  show ?case
  proof (cases "gs = []")
    case True
    then show ?thesis using Cons.prems v6_group [of g ip "[]" ell] by simp
  next
    case False
    obtain k s where k: "k < 16" "colons gs = hex_digit k # s" using colons_hd [OF False] by blast
    then have "colons gs \<noteq> []" "hd (colons gs) \<noteq> CHR '':''" using hex_digit_facts(2) by fastforce+
    then show ?thesis using Cons False by (simp add: v6_colon)
  qed
qed simp

lemma v6_groups_ellipsis:
  assumes "gs \<noteq> []" and "\<forall>g \<in> set gs. g < 65536" and "length ip + 2 * length gs \<le> 16"
  shows "v6_loop ip None (colons gs @ ''::'' @ s) =
    (if s = [] then Some (ip @ octets gs, Some (length ip + 2 * length gs))
     else v6_loop (ip @ octets gs) (Some (length ip + 2 * length gs)) s)"
  using assms
proof (induction gs arbitrary: ip)
  case (Cons g gs)
  show ?case
  proof (cases "gs = []")
    case True
    then show ?thesis using Cons.prems v6_ellipsis [of g ip s] by simp
  next
    case False
    obtain k t where k: "k < 16" "colons gs = hex_digit k # t" using colons_hd [OF False] by blast
    then have "colons gs @ ''::'' @ s \<noteq> []" "hd (colons gs @ ''::'' @ s) \<noteq> CHR '':''" using hex_digit_facts(2) by fastforce+
    then show ?thesis using Cons False v6_colon [of g ip "colons gs @ ''::'' @ s" None] by simp
  qed
qed simp

text \<open>What \<open>appendTo6\<close> writes: the groups with colons between them, the run of zeros as two colons.\<close>

lemma put_simps:
  "put_groups zs ze i [] = []"
  "put_groups zs ze zs (g # gs) = ''::'' @ (case drop (ze - zs) (g # gs) of [] \<Rightarrow> [] | h # hs \<Rightarrow> hex_nat h @ put_groups zs ze (ze + 1) hs)"
  "i \<noteq> zs \<Longrightarrow> put_groups zs ze i (g # gs) = (if 0 < i then '':'' else []) @ hex_nat g @ put_groups zs ze (i + 1) gs"
  by (subst put_groups.simps; simp)+

lemma put_tail:
  "0 < i \<Longrightarrow> zs < i \<or> i + length gs \<le> zs \<Longrightarrow> put_groups zs ze i gs = concat (map (\<lambda>g. CHR '':'' # hex_nat g) gs)"
proof (induction gs arbitrary: i)
  case (Cons g gs)
  then have "i \<noteq> zs" "zs < i + 1 \<or> i + 1 + length gs \<le> zs" by auto
  then show ?case using Cons.IH [of "i + 1"] Cons.prems by (simp add: put_simps(3))
qed (simp add: put_simps)

lemma put_all: "length gs \<le> zs \<Longrightarrow> put_groups zs ze 0 gs = colons gs"
proof (cases gs)
  case (Cons g gs')
  moreover assume "length gs \<le> zs"
  ultimately show ?thesis by (simp add: put_simps put_tail colons_Cons)
qed (simp add: put_simps)

lemma put_run:
  assumes "i \<le> zs" and "zs < i + length gs" and "zs < ze"
  shows "put_groups zs ze i gs =
    (if i = 0 then colons (take zs gs) else concat (map (\<lambda>g. CHR '':'' # hex_nat g) (take (zs - i) gs))) @
      ''::'' @ colons (drop (ze - i) gs)"
  using assms
proof (induction gs arbitrary: i)
  case (Cons g gs)
  show ?case
  proof (cases "i = zs")
    case True
    then show ?thesis using Cons.prems(3)
      by (cases "drop (ze - zs) (g # gs)") (simp_all add: put_simps put_tail colons_Cons)
  next
    case False
    then obtain k m where k: "zs = i + Suc k" and m: "ze = i + Suc m"
      using Cons.prems less_imp_Suc_add [of i zs] less_imp_Suc_add [of i ze] by auto
    have "put_groups zs ze i (g # gs) = (if 0 < i then '':'' else []) @ hex_nat g @ put_groups zs ze (i + 1) gs"
      using put_simps(3) [OF False] by simp
    moreover have "i + 1 \<le> zs" "zs < i + 1 + length gs" using Cons.prems(2) k by simp_all
    ultimately show ?thesis using Cons.IH [of "i + 1"] Cons.prems(3) k m
      by (cases "i = 0") (simp_all add: colons_Cons)
  qed
qed simp

lemma longest_run_zeros:
  assumes "longest_run i gs z = (zs, ze)"
  shows "(zs, ze) = z \<or> i \<le> zs \<and> zs + 2 \<le> ze \<and> ze \<le> i + length gs \<and>
    take (ze - zs) (drop (zs - i) gs) = replicate (ze - zs) 0"
  using assms
proof (induction i gs z rule: longest_run.induct)
  case (2 i g gs zs0 ze0)
  let ?l = "length (takeWhile (\<lambda>g. g = 0) (g # gs))"
  have zeros: "take ?l (g # gs) = replicate ?l 0"
  proof -
    have "take ?l (g # gs) = takeWhile (\<lambda>g. g = 0) (g # gs)" by (simp add: takeWhile_eq_take [symmetric] del: takeWhile.simps)
    moreover have "\<forall>x \<in> set (takeWhile (\<lambda>g. g = 0) (g # gs)). x = 0" using set_takeWhileD by fastforce
    ultimately show ?thesis by (metis replicate_eqI length_take min_absorb2 length_takeWhile_le)
  qed
  have le: "?l \<le> length (g # gs)" by (rule length_takeWhile_le)
  consider "(zs, ze) = (if 2 \<le> ?l \<and> ze0 - zs0 < ?l then (i, i + ?l) else (zs0, ze0))"
    | "i + 1 \<le> zs" "zs + 2 \<le> ze" "ze \<le> i + 1 + length gs" "take (ze - zs) (drop (zs - (i + 1)) gs) = replicate (ze - zs) 0"
    using 2 by (auto simp: Let_def simp del: takeWhile.simps)
  then show ?case
  proof cases
    case 1
    then show ?thesis using zeros le by (cases "2 \<le> ?l \<and> ze0 - zs0 < ?l") (simp_all del: takeWhile.simps)
  next
    case 2
    then have "zs - i = Suc (zs - (i + 1))" by simp
    then show ?thesis using 2 by simp
  qed
qed simp

subsection \<open>The round trips\<close>

lemma octet_pairs_16: "length ip = 16 \<Longrightarrow> octets (octet_pairs ip) = ip \<and> length (octet_pairs ip) = 8 \<and>
    (\<forall>g \<in> set (octet_pairs ip). g < 65536)"
  using octet_pairs_octets [of ip] by simp

text \<open>What is written for an IPv6 address: all eight groups, or those before and after a run of zeros.\<close>

lemma show_v6_cases:
  assumes "length ip = 16"
  obtains gs where "show_v6 ip = colons gs" and "ip = octets gs" and "length gs = 8" and "\<forall>g \<in> set gs. g < 65536"
  | pre post n where "show_v6 ip = colons pre @ ''::'' @ colons post" and "ip = octets pre @ replicate (2 * n) 0 @ octets post"
    and "length pre + n + length post = 8" and "2 \<le> n" and "\<forall>g \<in> set pre \<union> set post. g < 65536"
proof -
  let ?gs = "octet_pairs ip"
  note gs = octet_pairs_16 [OF assms]
  obtain zs ze where z: "longest_run 0 ?gs (255, 255) = (zs, ze)" by (cases "longest_run 0 ?gs (255, 255)") auto
  have written: "show_v6 ip = put_groups zs ze 0 ?gs" by (simp add: show_v6_def z)
  from longest_run_zeros [OF z] show thesis
  proof
    assume "(zs, ze) = (255, 255)"
    then show thesis using that(1) [of ?gs] gs written by (simp add: put_all)
  next
    assume run: "0 \<le> zs \<and> zs + 2 \<le> ze \<and> ze \<le> 0 + length ?gs \<and> take (ze - zs) (drop (zs - 0) ?gs) = replicate (ze - zs) 0"
    let ?pre = "take zs ?gs" and ?post = "drop ze ?gs"
    have "?gs = ?pre @ take (ze - zs) (drop zs ?gs) @ ?post"
      using run append_take_drop_id [of "ze - zs" "drop zs ?gs"] by simp
    then have split: "?gs = ?pre @ replicate (ze - zs) 0 @ ?post" using run by simp
    have "ip = octets (?pre @ replicate (ze - zs) 0 @ ?post)" using gs split by simp
    then have "ip = octets ?pre @ replicate (2 * (ze - zs)) 0 @ octets ?post" by (simp add: octets_zero)
    moreover have "show_v6 ip = colons ?pre @ ''::'' @ colons ?post"
      using put_run [of 0 zs ?gs ze] run written gs by simp
    moreover have "\<forall>g \<in> set ?pre \<union> set ?post. g < 65536" using gs set_take_subset [of zs ?gs] set_drop_subset [of ze ?gs] by blast
    moreover have "2 \<le> ze - zs" "length ?pre + (ze - zs) + length ?post = 8" using run gs by auto
    ultimately show thesis using that(2) [of ?pre ?post "ze - zs"] by blast
  qed
qed

lemma colons_chars: "c \<in> set (colons gs) \<Longrightarrow> c = CHR '':'' \<or> (\<exists>k < 16. c = hex_digit k)"
proof (induction gs)
  case (Cons g gs)
  then show ?case using hex_nat_chars by (cases "gs = []") auto
qed simp

lemma show_v6_chars:
  assumes "length ip = 16"
  shows "CHR '':'' \<in> set (show_v6 ip)" and "set (show_v6 ip) \<inter> {CHR ''.'', CHR ''%'', CHR ''['', CHR '']''} = {}"
proof -
  have "c \<notin> {CHR ''.'', CHR ''%'', CHR ''['', CHR '']''}" if "c \<in> set (colons gs)" for c gs
    using colons_chars [OF that] hex_digit_facts(2) by auto
  then show "set (show_v6 ip) \<inter> {CHR ''.'', CHR ''%'', CHR ''['', CHR '']''} = {}"
    by (cases rule: show_v6_cases [OF assms]) auto
  show "CHR '':'' \<in> set (show_v6 ip)"
  proof (cases rule: show_v6_cases [OF assms])
    case (1 gs)
    then obtain g gs' where "gs = g # gs'" "gs' \<noteq> []" by (cases gs; cases "tl gs") auto
    then show ?thesis using 1(1) by simp
  qed simp
qed

lemma colons_no_ellipsis: "gs \<noteq> [] \<Longrightarrow> take 2 (colons gs @ s) \<noteq> ''::''"
  using colons_hd [of gs] hex_digit_facts(2) by (auto simp: numeral_2_eq_2)

lemma no_percent: "CHR ''%'' \<notin> set s \<Longrightarrow> takeWhile (\<lambda>c. c \<noteq> CHR ''%'') s = s \<and> dropWhile (\<lambda>c. c \<noteq> CHR ''%'') s = []"
  by (simp add: takeWhile_eq_all_conv dropWhile_eq_Nil_conv) blast

lemma v6_roundtrip:
  assumes "length ip = 16"
  shows "parseIPv6 (show_v6 ip) = Some (ip, [])"
proof -
  have pct: "CHR ''%'' \<notin> set (show_v6 ip)" using show_v6_chars(2) [OF assms] by blast
  have parse: "parseIPv6 (show_v6 ip) =
    (if show_v6 ip = ''::'' then Some (replicate 16 0, [])
     else case (if take 2 (show_v6 ip) = ''::'' then v6_loop [] (Some 0) (drop 2 (show_v6 ip)) else v6_loop [] None (show_v6 ip)) of
            None \<Rightarrow> None | Some r \<Rightarrow> map_option (\<lambda>ip. (ip, [])) (v6_expand r))"
    unfolding parseIPv6_def Let_def conjunct1 [OF no_percent [OF pct]] conjunct2 [OF no_percent [OF pct]] list.sel(2) using pct by simp
  show ?thesis
  proof (cases rule: show_v6_cases [OF assms])
    case (1 gs)
    then have "gs \<noteq> []" by auto
    then have "take 2 (colons gs) \<noteq> ''::''" using colons_no_ellipsis [of gs "[]"] by simp
    moreover have "v6_loop [] None (colons gs) = Some (ip, None)" using v6_groups [OF \<open>gs \<noteq> []\<close>, of "[]" None] 1 by simp
    ultimately show ?thesis using assms unfolding parse unfolding 1(1) by (auto simp: v6_expand_def)
  next
    case (2 pre post n)
    have len: "length (octets pre) + 2 * n + length (octets post) = 16" using 2(3) by simp
    have lt: "length (octets pre @ octets post) < 16" using len 2(4) by simp
    have n: "16 - length (octets pre @ octets post) = 2 * n" using len by simp
    show ?thesis
    proof (cases "pre = []")
      case True
      then have take: "take 2 (show_v6 ip) = ''::''" "drop 2 (show_v6 ip) = colons post" using 2(1) by simp_all
      show ?thesis
      proof (cases "post = []")
        case True
        then show ?thesis using 2 \<open>pre = []\<close> unfolding parse by simp
      next
        case False
        then obtain k s where "colons post = hex_digit k # s" using colons_hd by blast
        then have "show_v6 ip \<noteq> ''::''" using 2(1) True by simp
        moreover have "v6_loop [] (Some 0) (colons post) = Some (octets post, Some 0)"
          using v6_groups [OF False, of "[]" "Some 0"] 2 by simp
        ultimately show ?thesis using take lt n 2(2) True unfolding parse by (simp add: v6_expand_def)
      qed
    next
      case False
      have "v6_loop [] None (show_v6 ip) =
          (if colons post = [] then Some (octets pre, Some (2 * length pre)) else v6_loop (octets pre) (Some (2 * length pre)) (colons post))"
        using v6_groups_ellipsis [OF False, of "[]" "colons post"] 2 by simp
      moreover have "colons post = [] \<longleftrightarrow> post = []" using colons_hd [of post] by (cases "post = []") auto
      moreover have "post \<noteq> [] \<Longrightarrow> v6_loop (octets pre) (Some (2 * length pre)) (colons post) = Some (octets pre @ octets post, Some (2 * length pre))"
        using v6_groups [of post "octets pre"] 2 by simp
      ultimately have loop: "v6_loop [] None (show_v6 ip) = Some (octets pre @ octets post, Some (2 * length pre))" by (cases "post = []") simp_all
      have "take 2 (show_v6 ip) \<noteq> ''::''" using colons_no_ellipsis [OF False] 2(1) by simp
      moreover from this have "show_v6 ip \<noteq> ''::''" by auto
      moreover have "v6_expand (octets pre @ octets post, Some (2 * length pre)) = Some ip"
        using lt n 2(2) by (simp add: v6_expand_def)
      ultimately show ?thesis using loop unfolding parse by simp
    qed
  qed
qed

definition To16 :: "bytes \<Rightarrow> bytes" where
  "To16 ip = (if length ip = 4 then v4_mapped ip else ip)"

lemma itoa_nat_chars: "set (itoa_nat n) \<inter> {CHR ''.'', CHR '':'', CHR ''%'', CHR ''['', CHR '']''} = {}"
proof -
  have "\<forall>c \<in> {CHR ''.'', CHR '':'', CHR ''%'', CHR ''['', CHR '']''}. \<not> is_digit c" by (simp add: is_digit_def)
  then show ?thesis using itoa_nat_digits by blast
qed

lemma first_of:
  assumes "x \<in> set s" and "f x" and "\<forall>c \<in> set s. f c \<longrightarrow> c = x"
  shows "\<exists>t. dropWhile (\<lambda>c. \<not> f c) s = x # t"
proof -
  have "dropWhile (\<lambda>c. \<not> f c) s \<noteq> []" using assms(1,2) by (auto simp: dropWhile_eq_Nil_conv)
  then obtain c t where ct: "dropWhile (\<lambda>c. \<not> f c) s = c # t" by (cases "dropWhile (\<lambda>c. \<not> f c) s") auto
  then have "f c" using hd_dropWhile [of "\<lambda>c. \<not> f c" s] by simp
  moreover have "c \<in> set s" using ct set_dropWhileD [of c "\<lambda>c. \<not> f c" s] by simp
  ultimately show ?thesis using assms(3) ct by auto
qed

lemma ParseIP_v4:
  assumes "length ip = 4"
  shows "ParseIP (show_v4 ip) = Some (v4_mapped ip)" and "set (show_v4 ip) \<inter> {CHR '':'', CHR ''%'', CHR ''['', CHR '']''} = {}"
proof -
  obtain a b c d where ip: "ip = [a, b, c, d]" using assms by (auto simp: length_Suc_conv eval_nat_numeral)
  have s: "show_v4 ip = itoa_nat (unat a) @ CHR ''.'' # itoa_nat (unat b) @ CHR ''.'' # itoa_nat (unat c) @ CHR ''.'' # itoa_nat (unat d)"
    by (simp add: ip show_v4_def)
  show chars: "set (show_v4 ip) \<inter> {CHR '':'', CHR ''%'', CHR ''['', CHR '']''} = {}"
    unfolding s using itoa_nat_chars by auto
  have "\<exists>t. dropWhile (\<lambda>c. \<not> c \<in> {CHR ''.'', CHR '':'', CHR ''%''}) (show_v4 ip) = CHR ''.'' # t"
    by (rule first_of) (use chars in \<open>auto simp: s\<close>)
  then show "ParseIP (show_v4 ip) = Some (v4_mapped ip)" using v4_roundtrip [OF assms] by (auto simp: ParseIP_def)
qed

lemma ParseIP_v6:
  assumes "length ip = 16"
  shows "ParseIP (show_v6 ip) = Some ip"
proof -
  have "\<exists>t. dropWhile (\<lambda>c. \<not> c \<in> {CHR ''.'', CHR '':'', CHR ''%''}) (show_v6 ip) = CHR '':'' # t"
    by (rule first_of) (use show_v6_chars [OF assms] in auto)
  then show ?thesis using v6_roundtrip [OF assms] by (auto simp: ParseIP_def)
qed

lemma v4_mapped_To4:
  assumes "length ip = 16" and "To4 ip = Some p"
  shows "v4_mapped p = ip \<and> length p = 4"
proof -
  have h: "list_all (\<lambda>b. b = 0) (take 10 ip)" "ip ! 10 = 0xff" "ip ! 11 = 0xff" "p = drop 12 ip"
    using assms by (auto simp: To4_def split: if_splits)
  have "take 10 ip = replicate 10 0" using h(1) assms(1) by (intro replicate_eqI) (auto simp: list_all_iff)
  moreover have "drop 10 ip = ip ! 10 # ip ! 11 # drop 12 ip"
    using assms(1) Cons_nth_drop_Suc [of 10 ip] Cons_nth_drop_Suc [of 11 ip] by simp
  ultimately show ?thesis using h(2-4) append_take_drop_id [of 10 ip] assms(1) by (simp add: v4_mapped_def)
qed

text \<open>Every IP reads back as its sixteen octets, and its text has no percent sign or bracket; a host and a port that hold no bracket,
  the port no colon, are split as they were joined.\<close>

lemma ParseIP_String:
  assumes "length ip = 4 \<or> length ip = 16"
  shows "ParseIP (IP_String ip) = Some (To16 ip)" and "set (IP_String ip) \<inter> {CHR ''%'', CHR ''['', CHR '']''} = {}"
proof -
  have "ParseIP (IP_String ip) = Some (To16 ip) \<and> set (IP_String ip) \<inter> {CHR ''%'', CHR ''['', CHR '']''} = {}"
  proof (cases "To4 ip")
    case None
    then have len: "length ip = 16" using assms by (auto simp: To4_def)
    then have "IP_String ip = show_v6 ip" using None by (auto simp: IP_String_def)
    then show ?thesis using ParseIP_v6 [OF len] show_v6_chars(2) [OF len] len by (auto simp: To16_def)
  next
    case (Some p)
    then have p: "IP_String ip = show_v4 p" "length p = 4" "v4_mapped p = To16 ip"
      using assms v4_mapped_To4 [of ip p] by (auto simp: IP_String_def To16_def To4_def)
    then show ?thesis using ParseIP_v4 [OF p(2)] by auto
  qed
  then show "ParseIP (IP_String ip) = Some (To16 ip)" and "set (IP_String ip) \<inter> {CHR ''%'', CHR ''['', CHR '']''} = {}" by blast+
qed

lemma SplitHostPort_join:
  assumes "set host \<inter> {CHR ''['', CHR '']''} = {}" and "set port \<inter> {CHR '':'', CHR ''['', CHR '']''} = {}"
  shows "SplitHostPort (JoinHostPort host port) = Some (host, port)"
proof -
  have last: "takeWhile (\<lambda>c. c \<noteq> CHR '':'') (rev (p @ CHR '':'' # port)) = rev port"
    "dropWhile (\<lambda>c. c \<noteq> CHR '':'') (rev (p @ CHR '':'' # port)) = CHR '':'' # rev p" for p
    using assms(2) by simp_all
  show ?thesis
  proof (cases "CHR '':'' \<in> set host")
    case True
    have j: "JoinHostPort host port = (''['' @ host @ '']'') @ CHR '':'' # port" using True by (simp add: JoinHostPort_def)
    have "takeWhile (\<lambda>c. c \<noteq> CHR '']'') (host @ CHR '']'' # CHR '':'' # port) = host" using assms(1) by simp
    then show ?thesis unfolding SplitHostPort_def Let_def j last using assms by auto
  next
    case False
    have j: "JoinHostPort host port = host @ CHR '':'' # port" using False by (simp add: JoinHostPort_def)
    have "hd (host @ CHR '':'' # port) \<noteq> CHR ''[''" using assms(1) by (cases host) auto
    then show ?thesis unfolding SplitHostPort_def Let_def j last using assms False by auto
  qed
qed

subsection \<open>Ports\<close>

text \<open>\<open>parsePort\<close> of \<open>dispatcher.go\<close> reads the digits at the head of its argument, as \<open>Sscanf\<close> with \<open>%d\<close> does, and leaves 0
  where there are none or too many for an int. (The spaces \<open>Sscanf\<close> would skip before them do not occur in an address.)\<close>

definition decimal :: "string \<Rightarrow> int" where
  "decimal ds = foldl (\<lambda>n c. 10 * n + (of_char c - 48)) 0 ds"

definition parsePort :: "string \<Rightarrow> int" where
  "parsePort p =
     (let (neg, ds) = (case p of
            c # cs \<Rightarrow> if c = CHR ''-'' then (True, takeWhile is_digit cs)
                      else if c = CHR ''+'' then (False, takeWhile is_digit cs)
                      else (False, takeWhile is_digit p)
          | [] \<Rightarrow> (False, []));
          n = (if neg then - decimal ds else decimal ds)
      in if n < - (2 ^ 63) \<or> 2 ^ 63 \<le> n then 0 else n)"

lemma parsePort_itoa:
  assumes "0 \<le> n" and "n < 2 ^ 63"
  shows "parsePort (itoa n) = n" and "set (itoa n) \<inter> {CHR '':'', CHR ''['', CHR '']''} = {}"
proof -
  have i: "itoa n = itoa_nat (nat n)" using assms by (simp add: itoa_def)
  obtain c cs where cs: "itoa_nat (nat n) = c # cs" using itoa_nat_ne by (cases "itoa_nat (nat n)") auto
  have "is_digit c" using itoa_nat_digits [of c "nat n"] cs by simp
  then have "c \<noteq> CHR ''-''" "c \<noteq> CHR ''+''" by (auto simp: is_digit_def)
  moreover have "takeWhile is_digit (itoa_nat (nat n)) = itoa_nat (nat n)"
    using itoa_nat_digits by (simp add: takeWhile_eq_all_conv)
  moreover have "decimal (itoa_nat (nat n)) = n" using itoa_nat_value [of "nat n"] assms(1) by (simp add: decimal_def)
  ultimately show "parsePort (itoa n) = n" using assms by (simp add: parsePort_def i cs)
  show "set (itoa n) \<inter> {CHR '':'', CHR ''['', CHR '']''} = {}" unfolding i using itoa_nat_chars [of "nat n"] by blast
qed

subsection \<open>Addresses\<close>

text \<open>How a session's address is rebuilt from the text the registry keeps, in \<open>RacePlayers\<close>.\<close>

definition view_addr :: "string \<Rightarrow> UDPAddr" where
  "view_addr key =
     (if key = [] then \<lparr>ua_IP = [], ua_Port = 0, ua_Zone = []\<rparr>
      else case SplitHostPort key of
             None \<Rightarrow> \<lparr>ua_IP = [], ua_Port = 0, ua_Zone = []\<rparr>
           | Some (host, port) \<Rightarrow>
               \<lparr>ua_IP = (case ParseIP host of None \<Rightarrow> [] | Some ip \<Rightarrow> ip), ua_Port = parsePort port, ua_Zone = []\<rparr>)"

text \<open>An address a datagram comes from: an IPv4 or IPv6 address and a 16-bit port.\<close>

definition endpoint :: "UDPAddr \<Rightarrow> bool" where
  "endpoint a \<longleftrightarrow> (length (ua_IP a) = 4 \<or> length (ua_IP a) = 16) \<and> 0 \<le> ua_Port a \<and> ua_Port a < 65536"

definition home :: "UDPAddr \<Rightarrow> UDPAddr" where
  "home a = \<lparr>ua_IP = To16 (ua_IP a), ua_Port = ua_Port a, ua_Zone = []\<rparr>"

lemma view_addr_join:
  assumes "set host \<inter> {CHR ''['', CHR '']''} = {}" and "0 \<le> n" and "n < 65536"
  shows "view_addr (JoinHostPort host (itoa n)) =
    \<lparr>ua_IP = (case ParseIP host of None \<Rightarrow> [] | Some ip \<Rightarrow> ip), ua_Port = n, ua_Zone = []\<rparr>"
proof -
  have n: "n < 2 ^ 63" using assms(3) by simp
  have "SplitHostPort (JoinHostPort host (itoa n)) = Some (host, itoa n)"
    using SplitHostPort_join [OF assms(1)] parsePort_itoa(2) [OF assms(2) n] by blast
  moreover have "JoinHostPort host (itoa n) \<noteq> []" by (simp add: JoinHostPort_def)
  ultimately show ?thesis using parsePort_itoa(1) [OF assms(2) n] by (simp add: view_addr_def)
qed

lemma view_addr_home:
  assumes "endpoint a" and "ua_Zone a = []"
  shows "view_addr (UDPAddr_String a) = home a"
proof -
  have ip: "length (ua_IP a) = 4 \<or> length (ua_IP a) = 16" using assms(1) by (simp add: endpoint_def)
  then have "UDPAddr_String a = JoinHostPort (IP_String (ua_IP a)) (itoa (ua_Port a))"
    using assms(2) by (auto simp: UDPAddr_String_def)
  then show ?thesis
    using view_addr_join [of "IP_String (ua_IP a)" "ua_Port a"] ParseIP_String [OF ip] assms(1)
    by (auto simp: home_def endpoint_def)
qed

lemma v4_percent: "CHR ''%'' \<in> set s \<Longrightarrow> v4_fields s fs val len = None"
  by (induction s fs val len rule: v4_fields.induct) (auto simp: Let_def is_digit_def)

lemma ParseIP_zone:
  assumes "CHR ''%'' \<in> set s"
  shows "ParseIP s = None"
proof -
  have "zone \<noteq> []" if "parseIPv6 s = Some (ip, zone)" for ip zone
    using that assms by (auto simp: parseIPv6_def Let_def split: if_splits option.splits)
  then show ?thesis using v4_percent [OF assms]
    by (auto simp: ParseIP_def split: list.split option.split)
qed

text \<open>A zone is written after a percent sign and \<open>ParseIP\<close> takes none: the IP of such an address is lost.\<close>

lemma view_addr_zone:
  assumes "endpoint a" and "ua_Zone a \<noteq> []" and "set (ua_Zone a) \<inter> {CHR ''['', CHR '']''} = {}"
  shows "view_addr (UDPAddr_String a) = \<lparr>ua_IP = [], ua_Port = ua_Port a, ua_Zone = []\<rparr>"
proof -
  have ip: "length (ua_IP a) = 4 \<or> length (ua_IP a) = 16" using assms(1) by (simp add: endpoint_def)
  let ?host = "IP_String (ua_IP a) @ ''%'' @ ua_Zone a"
  have "UDPAddr_String a = JoinHostPort ?host (itoa (ua_Port a))"
    using assms(2) ip by (auto simp: UDPAddr_String_def)
  moreover have "set ?host \<inter> {CHR ''['', CHR '']''} = {}" using ParseIP_String(2) [OF ip] assms(3) by auto
  moreover have "ParseIP ?host = None" by (rule ParseIP_zone) simp
  ultimately show ?thesis using view_addr_join [of ?host "ua_Port a"] assms(1) by (simp add: endpoint_def)
qed

end
