(* ===== verification/Dispatcher.thy ===== *)
theory Dispatcher
  imports Manager Matchmaking NetAddr
begin

text \<open>
  \<open>internal/networking/dispatcher.go\<close>: the session registry and the handling of one datagram's
  payload. The protobuf library and \<open>uuid.Parse\<close>, which are not part of the repository, are
  the fields of \<open>protolib\<close>; the token verifier is a function on its own state \<open>'v\<close> and on what \<open>'e\<close> it
  meets in its surroundings; it answers with its error's message or \<open>None\<close>. A UDP address is the text \<open>addr.String()\<close> the registry keys it by.
\<close>

unbundle bit_operations_syntax

subsection \<open>Sessions\<close>

record addrEntry =
  ae_key :: string
  ae_race :: "raceptr option"

record SessionRegistry =
  sr_addr :: "(string, uuid) gomap"
  sr_player :: "(uuid, addrEntry) gomap"

definition NewSessionRegistry :: SessionRegistry where
  "NewSessionRegistry = \<lparr>sr_addr = [], sr_player = []\<rparr>"

definition BindAddr :: "string \<Rightarrow> uuid \<Rightarrow> SessionRegistry \<Rightarrow> bool \<times> SessionRegistry" where
  "BindAddr key playerID r =
     (case gm_get (sr_addr r) key of
        Some _ \<Rightarrow> (False, r)
      | None \<Rightarrow>
          let e = (case gm_get (sr_player r) playerID of
                     None \<Rightarrow> \<lparr>ae_key = key, ae_race = None\<rparr>
                   | Some e \<Rightarrow> e\<lparr>ae_key := key\<rparr>)
          in (True, r\<lparr>sr_addr := gm_put key playerID (sr_addr r),
                      sr_player := gm_put playerID e (sr_player r)\<rparr>))"

definition SetRace :: "uuid \<Rightarrow> raceptr option \<Rightarrow> SessionRegistry \<Rightarrow> SessionRegistry" where
  "SetRace playerID rc r =
     (case gm_get (sr_player r) playerID of
        None \<Rightarrow> r
      | Some e \<Rightarrow> r\<lparr>sr_player := gm_put playerID (e\<lparr>ae_race := rc\<rparr>) (sr_player r)\<rparr>)"

definition PlayerFromAddr :: "string \<Rightarrow> SessionRegistry \<Rightarrow> uuid option" where
  "PlayerFromAddr key r = gm_get (sr_addr r) key"

definition RaceFromPlayer :: "uuid \<Rightarrow> SessionRegistry \<Rightarrow> raceptr option" where
  "RaceFromPlayer playerID r =
     (case gm_get (sr_player r) playerID of None \<Rightarrow> None | Some e \<Rightarrow> ae_race e)"

record PlayerView =
  pv_PlayerID :: uuid
  pv_Addr :: UDPAddr

text \<open>\<open>RacePlayers\<close>: the address is rebuilt from its text.\<close>

definition RacePlayers :: "uuid list \<Rightarrow> raceptr option \<Rightarrow> SessionRegistry \<Rightarrow> PlayerView list" where
  "RacePlayers ord rc r =
     List.map_filter (\<lambda>pid. case gm_get (sr_player r) pid of
         None \<Rightarrow> None
       | Some e \<Rightarrow> if ae_race e = rc then Some \<lparr>pv_PlayerID = pid, pv_Addr = view_addr (ae_key e)\<rparr> else None) ord"

subsection \<open>Messages\<close>

record JoinRaceRequest =
  jr_MatchId :: string
  jr_PlayerId :: string
  jr_GameToken :: string

record pbPlayerInput =
  pi_Throttle :: float32
  pi_Brake :: float32
  pi_Steering :: float32
  pi_Sequence :: "32 word"

record JoinRaceResponse =
  resp_Ok :: bool
  resp_Error :: string
  resp_RaceId :: string
  resp_InitialTick :: "64 word"

record protolib =
  unmarshalJoin :: "bytes \<Rightarrow> JoinRaceRequest option"
  unmarshalInput :: "bytes \<Rightarrow> pbPlayerInput option"
  marshalResp :: "JoinRaceResponse \<Rightarrow> bytes option"
  uuidParse :: "string \<Rightarrow> uuid option"
  uuidString :: "uuid \<Rightarrow> string"

definition marshalJoinResp :: "protolib \<Rightarrow> bool \<Rightarrow> string \<Rightarrow> string \<Rightarrow> 64 word \<Rightarrow> bytes" where
  "marshalJoinResp L ok reason rid tick =
     (case marshalResp L \<lparr>resp_Ok = ok, resp_Error = reason, resp_RaceId = rid, resp_InitialTick = tick\<rparr> of
        None \<Rightarrow> [0x08, 0x00]
      | Some out \<Rightarrow> out)"

subsection \<open>The dispatcher\<close>

text \<open>What a call takes from outside: the track lookup, \<open>uuid.New()\<close> and \<open>time.Now()\<close>.\<close>

record world =
  w_trackFn :: "uuid \<Rightarrow> string + Track"
  w_newID :: uuid
  w_now :: gotime

record 'v Game =
  g_mgr :: Manager
  g_sess :: SessionRegistry
  g_ver :: 'v

type_synonym ('e, 'v) verifier = "uuid \<Rightarrow> uuid \<Rightarrow> string \<Rightarrow> 'e \<Rightarrow> 'v \<Rightarrow> string option \<times> 'v"

definition initialTick :: "gotime \<Rightarrow> 64 word" where
  "initialTick now = of_int ((now - unix_epoch) div Millisecond) AND 0xFFFFFFFF"

definition handleJoin ::
    "protolib \<Rightarrow> ('e, 'v) verifier \<Rightarrow> 'e \<Rightarrow> world \<Rightarrow> JoinRaceRequest \<Rightarrow> string \<Rightarrow> 'v Game \<Rightarrow> bytes go \<times> 'v Game" where
  "handleJoin L verify e w req from g =
     (case uuidParse L (jr_MatchId req) of
        None \<Rightarrow> (Returns (marshalJoinResp L False ''bad match_id'' [] 0), g)
      | Some matchID \<Rightarrow>
     (case uuidParse L (jr_PlayerId req) of
        None \<Rightarrow> (Returns (marshalJoinResp L False ''bad player_id'' [] 0), g)
      | Some playerID \<Rightarrow>
          let rawToken = jr_GameToken req
          in if rawToken = [] then (Returns (marshalJoinResp L False ''missing token'' [] 0), g)
             else case verify matchID playerID rawToken e (g_ver g) of
               (Some err, v) \<Rightarrow> (Returns (marshalJoinResp L False err [] 0), g\<lparr>g_ver := v\<rparr>)
             | (None, v) \<Rightarrow>
                 (case RegisterPlayer (w_trackFn w) (w_newID w) (w_now w) matchID playerID (g_mgr g) of
                    (Panics msg, m) \<Rightarrow> (Panics msg, g\<lparr>g_ver := v, g_mgr := m\<rparr>)
                  | (Returns (Inl err), m) \<Rightarrow>
                      (Returns (marshalJoinResp L False err [] 0), g\<lparr>g_ver := v, g_mgr := m\<rparr>)
                  | (Returns (Inr r), m) \<Rightarrow>
                      let sess = SetRace playerID (Some r) (snd (BindAddr from playerID (g_sess g)))
                      in (Returns (marshalJoinResp L True [] (uuidString L (raceID (heap m ! r))) (initialTick (w_now w))),
                          g\<lparr>g_ver := v, g_mgr := m, g_sess := sess\<rparr>))))"

text \<open>\<open>handleInput\<close> replies nothing.\<close>

definition handleInput :: "pbPlayerInput \<Rightarrow> string \<Rightarrow> 'v Game \<Rightarrow> bytes go \<times> 'v Game" where
  "handleInput inp from g =
     (case PlayerFromAddr from (g_sess g) of
        None \<Rightarrow> (Returns [], g)
      | Some playerID \<Rightarrow>
     (case RaceFromPlayer playerID (g_sess g) of
        None \<Rightarrow> (Returns [], g)
      | Some r \<Rightarrow>
          if Status (heap (g_mgr g) ! r) = StatusFinished then (Returns [], g)
          else (Returns [],
                g\<lparr>g_mgr := race_moves r
                    (ApplyInput \<lparr>im_PlayerID = playerID,
                       im_Input = \<lparr>Throttle = pi_Throttle inp, Brake = pi_Brake inp, Steering = pi_Steering inp\<rparr>,
                       im_Sequence = pi_Sequence inp\<rparr> (heap (g_mgr g) ! r)) (g_mgr g)\<rparr>)))"

definition Handle ::
    "protolib \<Rightarrow> ('e, 'v) verifier \<Rightarrow> 'e \<Rightarrow> world \<Rightarrow> bytes \<Rightarrow> string \<Rightarrow> 'v Game \<Rightarrow> bytes go \<times> 'v Game" where
  "Handle L verify e w payload from g =
     (case (case unmarshalJoin L payload of
              None \<Rightarrow> None
            | Some req \<Rightarrow> if jr_MatchId req \<noteq> [] \<and> jr_GameToken req \<noteq> [] then Some req else None) of
        Some req \<Rightarrow> handleJoin L verify e w req from g
      | None \<Rightarrow>
          (case unmarshalInput L payload of
             None \<Rightarrow> (Returns [], g)
           | Some inp \<Rightarrow>
               if flt_nonzero (pi_Throttle inp) \<or> flt_nonzero (pi_Brake inp) \<or> flt_nonzero (pi_Steering inp)
               then handleInput inp from g else (Returns [], g)))"

definition IsRetryable :: "token_error option \<Rightarrow> bool" where
  "IsRetryable err \<longleftrightarrow>
     err = None \<or> err = Some ErrTokenInvalid \<or> err = Some ErrTokenExpired \<or> err = Some ErrTokenConsumed"

subsection \<open>Lemmas on sessions\<close>

text \<open>Every player's current address is bound to it.\<close>

definition sess_wf :: "SessionRegistry \<Rightarrow> bool" where
  "sess_wf r \<longleftrightarrow> gm_wf (sr_addr r) \<and> gm_wf (sr_player r) \<and>
     (\<forall>pid e. gm_get (sr_player r) pid = Some e \<longrightarrow> gm_get (sr_addr r) (ae_key e) = Some pid)"

lemma NewSessionRegistry_wf [simp]: "sess_wf NewSessionRegistry"
  by (simp add: NewSessionRegistry_def sess_wf_def)

lemma BindAddr_wf [keeps_intros]: "sess_wf r \<Longrightarrow> sess_wf (snd (BindAddr key pid r))"
  by (auto simp: sess_wf_def BindAddr_def gm.get_put Let_def split: option.split)

lemma SetRace_wf [keeps_intros]: "sess_wf r \<Longrightarrow> sess_wf (SetRace pid rc r)"
  by (auto simp: sess_wf_def SetRace_def gm.get_put split: option.split)

lemma BindAddr_addr:
  "gm_get (sr_addr (snd (BindAddr key pid r))) =
     (if gm_get (sr_addr r) key = None then (gm_get (sr_addr r))(key \<mapsto> pid) else gm_get (sr_addr r))"
  by (simp add: BindAddr_def gm.get_put Let_def split: option.split)

lemma SetRace_addr [simp]: "sr_addr (SetRace pid rc r) = sr_addr r"
  by (simp add: SetRace_def split: option.split)

lemma BindAddr_race:
  "RaceFromPlayer q (snd (BindAddr key pid r)) = RaceFromPlayer q r"
  by (auto simp: BindAddr_def RaceFromPlayer_def gm.get_put Let_def split: option.split)

lemma SetRace_race:
  "RaceFromPlayer q (SetRace pid rc r) =
     (if q = pid \<and> gm_get (sr_player r) pid \<noteq> None then rc else RaceFromPlayer q r)"
  by (auto simp: SetRace_def RaceFromPlayer_def gm.get_put split: option.split)

lemma BindAddr_player:
  "gm_get (sr_player (snd (BindAddr key pid r))) q \<noteq> None \<longleftrightarrow>
     gm_get (sr_player r) q \<noteq> None \<or> q = pid \<and> gm_get (sr_addr r) key = None"
  by (auto simp: BindAddr_def gm.get_put Let_def split: option.splits)

lemma session_of_join:
  "gm_get (sr_addr r) key = None \<Longrightarrow>
     gm_get (sr_player (SetRace pid rc (snd (BindAddr key pid r)))) pid = Some \<lparr>ae_key = key, ae_race = rc\<rparr>"
  by (auto simp: BindAddr_def SetRace_def gm.get_put Let_def split: option.split)

lemma RacePlayers_iff:
  "v \<in> set (RacePlayers ord rc r) \<longleftrightarrow> pv_PlayerID v \<in> set ord \<and>
     (\<exists>e. gm_get (sr_player r) (pv_PlayerID v) = Some e \<and> ae_race e = rc \<and> pv_Addr v = view_addr (ae_key e))"
proof -
  have "(case gm_get (sr_player r) pid of None \<Rightarrow> None
      | Some e \<Rightarrow> if ae_race e = rc then Some \<lparr>pv_PlayerID = pid, pv_Addr = view_addr (ae_key e)\<rparr> else None) = Some v \<longleftrightarrow>
    pid = pv_PlayerID v \<and> (\<exists>e. gm_get (sr_player r) pid = Some e \<and> ae_race e = rc \<and> pv_Addr v = view_addr (ae_key e))" for pid
    by (cases v; cases "gm_get (sr_player r) pid") auto
  then show ?thesis by (auto simp: RacePlayers_def set_map_filter)
qed

subsection \<open>The state of the game server\<close>

definition game_wf :: "'v Game \<Rightarrow> bool" where
  "game_wf g \<longleftrightarrow> mgr_wf (g_mgr g) \<and> sess_wf (g_sess g) \<and>
     (\<forall>pid r. RaceFromPlayer pid (g_sess g) = Some r \<longrightarrow> r < length (heap (g_mgr g)))"

lemma RegisterPlayer_heap:
  "length (heap m) \<le> length (heap (snd (RegisterPlayer trackFn rid now match pid m)))"
proof (cases rule: RegisterPlayer_cases [of match m trackFn rid now pid])
  case (created track)
  then show ?thesis
    by (simp add: join_race_def NewRace_wf_heap [where trackFn = trackFn and matchID = match, OF created(2)]
        split: prod.split)
qed (simp_all add: join_race_def split: prod.split)

lemma reg_ok:
  assumes "mgr_wf m" and "RegisterPlayer trackFn rid now match pid m = (Returns (Inr r), m')"
  shows "mgr_wf m'" and "has_player r pid m'" and "r < length (heap m')"
    and "length (heap m) \<le> length (heap m')"
  using reg.register_inv [OF assms(1), of trackFn rid now match pid] reg.register_joins [OF assms]
    RegisterPlayer_heap [of m trackFn rid now match pid] assms(2)
  by (simp_all add: has_player_def)

subsection \<open>Joining a race\<close>

text \<open>The request's identifiers, when it has them.\<close>

definition join_ids :: "protolib \<Rightarrow> JoinRaceRequest \<Rightarrow> (uuid \<times> uuid) option" where
  "join_ids L req =
     (case (uuidParse L (jr_MatchId req), uuidParse L (jr_PlayerId req)) of
        (Some m, Some p) \<Rightarrow> if jr_GameToken req = [] then None else Some (m, p)
      | _ \<Rightarrow> None)"

lemma handleJoin_malformed:
  "join_ids L req = None \<Longrightarrow>
     \<exists>why. handleJoin L verify e w req from g = (Returns (marshalJoinResp L False why [] 0), g)"
  by (auto simp: join_ids_def handleJoin_def split: option.splits if_splits)

lemma handleJoin_eq:
  assumes "join_ids L req = Some (m, p)"
  shows "handleJoin L verify e w req from g =
   (case verify m p (jr_GameToken req) e (g_ver g) of
      (Some err, v) \<Rightarrow> (Returns (marshalJoinResp L False err [] 0), g\<lparr>g_ver := v\<rparr>)
    | (None, v) \<Rightarrow>
        (case RegisterPlayer (w_trackFn w) (w_newID w) (w_now w) m p (g_mgr g) of
           (Panics msg, mg) \<Rightarrow> (Panics msg, g\<lparr>g_ver := v, g_mgr := mg\<rparr>)
         | (Returns (Inl err), mg) \<Rightarrow>
             (Returns (marshalJoinResp L False err [] 0), g\<lparr>g_ver := v, g_mgr := mg\<rparr>)
         | (Returns (Inr r), mg) \<Rightarrow>
             (Returns (marshalJoinResp L True [] (uuidString L (raceID (heap mg ! r))) (initialTick (w_now w))),
              g\<lparr>g_ver := v, g_mgr := mg,
                g_sess := SetRace p (Some r) (snd (BindAddr from p (g_sess g)))\<rparr>)))"
proof -
  have ids: "uuidParse L (jr_MatchId req) = Some m" "uuidParse L (jr_PlayerId req) = Some p"
      "jr_GameToken req \<noteq> []"
    using assms by (auto simp: join_ids_def split: option.splits if_splits)
  show ?thesis unfolding handleJoin_def ids(1) ids(2) option.case Let_def if_not_P [OF ids(3)] by (rule refl)
qed

lemma handleJoin_wf [keeps_intros]:
  assumes "game_wf g"
  shows "game_wf (snd (handleJoin L verify e w req from g))"
proof (cases "join_ids L req")
  case None
  then show ?thesis using handleJoin_malformed [OF None, of verify e w "from" g] assms by auto
next
  case (Some ids)
  then obtain m p where ids: "join_ids L req = Some (m, p)" by (cases ids) simp
  note eq = handleJoin_eq [OF ids, of verify e w "from" g]
  obtain a v where v: "verify m p (jr_GameToken req) e (g_ver g) = (a, v)" by fastforce
  obtain res mg where r: "RegisterPlayer (w_trackFn w) (w_newID w) (w_now w) m p (g_mgr g) = (res, mg)"
    by fastforce
  have mg: "mgr_wf mg" "length (heap (g_mgr g)) \<le> length (heap mg)"
    using reg.register_inv [of "g_mgr g" "w_trackFn w" "w_newID w" "w_now w" m p]
      RegisterPlayer_heap [of "g_mgr g" "w_trackFn w" "w_newID w" "w_now w" m p] assms r
    by (simp_all add: game_wf_def)
  have old: "RaceFromPlayer q (g_sess g) = Some k \<Longrightarrow> k < length (heap mg)" for q k
    using assms mg(2) by (fastforce simp: game_wf_def)
  have new: "res = Returns (Inr k) \<Longrightarrow> k < length (heap mg)" for k
    using reg_ok(3) [of "g_mgr g"] r assms by (auto simp: game_wf_def)
  show ?thesis
  proof (cases a)
    case (Some err)
    then show ?thesis using assms v by (simp add: eq game_wf_def)
  next
    case None
    then show ?thesis
      using v r mg assms old new
      by (auto simp: eq game_wf_def SetRace_race BindAddr_race
          intro!: SetRace_wf BindAddr_wf split: go.split sum.split if_splits)
  qed
qed

lemma race_moves_length [simp]: "length (heap (race_moves r x m)) = length (heap m)"
  by (simp add: race_moves_def)

lemma handleInput_cases:
  obtains "handleInput inp from g = (Returns [], g)"
    | (sent) pid r where "PlayerFromAddr from (g_sess g) = Some pid" "RaceFromPlayer pid (g_sess g) = Some r"
      "Status (heap (g_mgr g) ! r) \<noteq> StatusFinished"
      "handleInput inp from g = (Returns [], g\<lparr>g_mgr := race_moves r
         (ApplyInput \<lparr>im_PlayerID = pid,
            im_Input = \<lparr>Throttle = pi_Throttle inp, Brake = pi_Brake inp, Steering = pi_Steering inp\<rparr>,
            im_Sequence = pi_Sequence inp\<rparr> (heap (g_mgr g) ! r)) (g_mgr g)\<rparr>)"
proof (cases "PlayerFromAddr from (g_sess g)")
  case None
  then show ?thesis using that(1) by (simp add: handleInput_def)
next
  case p: (Some pid)
  show ?thesis
  proof (cases "RaceFromPlayer pid (g_sess g)")
    case None
    then show ?thesis using that(1) p by (simp add: handleInput_def)
  next
    case (Some r)
    then show ?thesis
      using that(1) sent [OF p Some] p
      by (cases "Status (heap (g_mgr g) ! r) = StatusFinished") (simp_all add: handleInput_def)
  qed
qed

lemma handleInput_wf [keeps_intros]:
  assumes "game_wf g"
  shows "game_wf (snd (handleInput inp from g))"
proof (cases rule: handleInput_cases [of inp "from" g])
  case (sent pid r)
  have "race_wf (heap (g_mgr g) ! r)"
    using assms sent(2) by (auto simp: game_wf_def mgr_wf_def list_all_length)
  then have "mgr_wf (race_moves r (ApplyInput im (heap (g_mgr g) ! r)) (g_mgr g))" for im
    using assms by (intro race_moves_wf enqueue_wf) (auto simp: game_wf_def ApplyInput_def)
  then show ?thesis using assms by (simp add: sent(4) game_wf_def)
qed (use assms in simp)

lemma Handle_wf [keeps_intros]: "game_wf g \<Longrightarrow> game_wf (snd (Handle L verify e w payload from g))"
  by (simp add: Handle_def handleJoin_wf handleInput_wf split: option.split)

subsection \<open>A sequence of datagrams\<close>

text \<open>What \<open>Serve\<close> makes of the datagrams it reads, one after the other; a panic stops the program.\<close>

type_synonym 'e datagram = "'e \<times> world \<times> bytes \<times> string"

fun dispatch ::
    "protolib \<Rightarrow> ('e, 'v) verifier \<Rightarrow> 'e datagram list \<Rightarrow> 'v Game \<Rightarrow> bytes go list \<times> 'v Game" where
  "dispatch L verify [] g = ([], g)"
| "dispatch L verify ((e, w, payload, from) # ds) g =
     (case Handle L verify e w payload from g of
        (Panics msg, g') \<Rightarrow> ([Panics msg], g')
      | (Returns out, g') \<Rightarrow> apfst ((#) (Returns out)) (dispatch L verify ds g'))"

definition game_after :: "protolib \<Rightarrow> ('e, 'v) verifier \<Rightarrow> 'e datagram list \<Rightarrow> 'v Game \<Rightarrow> 'v Game" where
  "game_after L verify ds g = snd (dispatch L verify ds g)"

lemma game_after_simps [simp]:
  "game_after L verify [] g = g"
  "game_after L verify ((e, w, payload, from) # ds) g =
     (case Handle L verify e w payload from g of
        (Panics msg, g') \<Rightarrow> g' | (Returns out, g') \<Rightarrow> game_after L verify ds g')"
  by (simp_all add: game_after_def split: prod.split go.split)

text \<open>What every \<open>Handle\<close> keeps, every sequence of datagrams keeps.\<close>

lemma game_after_keeps:
  assumes "P g" and "\<And>g e w payload from. P g \<Longrightarrow> P (snd (Handle L verify e w payload from g))"
  shows "P (game_after L verify ds g)"
  using assms(1)
proof (induction ds arbitrary: g)
  case (Cons d ds)
  obtain e w payload "from" where d: "d = (e, w, payload, from)" using prod_cases4 by blast
  obtain res g' where h: "Handle L verify e w payload from g = (res, g')" by fastforce
  have "P g'" using assms(2) [OF Cons.prems, of e w payload "from"] h by simp
  then show ?case using Cons.IH by (auto simp: d h split: go.split)
qed simp

text \<open>A payload is a join request, or an input, or neither.\<close>

definition as_join :: "protolib \<Rightarrow> bytes \<Rightarrow> JoinRaceRequest option" where
  "as_join L payload =
     (case unmarshalJoin L payload of
        None \<Rightarrow> None
      | Some req \<Rightarrow> if jr_MatchId req \<noteq> [] \<and> jr_GameToken req \<noteq> [] then Some req else None)"

lemma Handle_eq:
  "Handle L verify e w payload from g =
     (case as_join L payload of
        Some req \<Rightarrow> handleJoin L verify e w req from g
      | None \<Rightarrow>
          (case unmarshalInput L payload of
             None \<Rightarrow> (Returns [], g)
           | Some inp \<Rightarrow>
               if flt_nonzero (pi_Throttle inp) \<or> flt_nonzero (pi_Brake inp) \<or> flt_nonzero (pi_Steering inp)
               then handleInput inp from g else (Returns [], g)))"
  by (simp add: Handle_def as_join_def)

lemma handleInput_rest:
  "g_sess (snd (handleInput inp from g)) = g_sess g \<and> g_ver (snd (handleInput inp from g)) = g_ver g \<and>
     fst (handleInput inp from g) = Returns [] \<and>
     (has_player r p (g_mgr (snd (handleInput inp from g))) \<longleftrightarrow> has_player r p (g_mgr g))"
proof (cases rule: handleInput_cases [of inp "from" g])
  case (sent pid k)
  then show ?thesis
    by (cases "k < length (heap (g_mgr g))")
      (auto simp: has_player_def race_moves_def nth_list_update ApplyInput_def)
qed simp

text \<open>What a join request does, on every branch.\<close>

lemma handleJoin_cases:
  obtains (malformed) why where "join_ids L req = None"
      "handleJoin L verify e w req from g = (Returns (marshalJoinResp L False why [] 0), g)"
  | (refused) m p err v where "join_ids L req = Some (m, p)"
      "verify m p (jr_GameToken req) e (g_ver g) = (Some err, v)"
      "handleJoin L verify e w req from g = (Returns (marshalJoinResp L False err [] 0), g\<lparr>g_ver := v\<rparr>)"
  | (panics) m p v msg mg where "join_ids L req = Some (m, p)"
      "verify m p (jr_GameToken req) e (g_ver g) = (None, v)"
      "RegisterPlayer (w_trackFn w) (w_newID w) (w_now w) m p (g_mgr g) = (Panics msg, mg)"
      "handleJoin L verify e w req from g = (Panics msg, g\<lparr>g_ver := v, g_mgr := mg\<rparr>)"
  | (failed) m p v err mg where "join_ids L req = Some (m, p)"
      "verify m p (jr_GameToken req) e (g_ver g) = (None, v)"
      "RegisterPlayer (w_trackFn w) (w_newID w) (w_now w) m p (g_mgr g) = (Returns (Inl err), mg)"
      "handleJoin L verify e w req from g =
        (Returns (marshalJoinResp L False err [] 0), g\<lparr>g_ver := v, g_mgr := mg\<rparr>)"
  | (joined) m p v r mg where "join_ids L req = Some (m, p)"
      "verify m p (jr_GameToken req) e (g_ver g) = (None, v)"
      "RegisterPlayer (w_trackFn w) (w_newID w) (w_now w) m p (g_mgr g) = (Returns (Inr r), mg)"
      "handleJoin L verify e w req from g =
        (Returns (marshalJoinResp L True [] (uuidString L (raceID (heap mg ! r))) (initialTick (w_now w))),
         g\<lparr>g_ver := v, g_mgr := mg, g_sess := SetRace p (Some r) (snd (BindAddr from p (g_sess g)))\<rparr>)"
proof (cases "join_ids L req")
  case None
  then show ?thesis using malformed handleJoin_malformed [OF None, of verify e w "from" g] by blast
next
  case (Some ids)
  then obtain m p where ids: "join_ids L req = Some (m, p)" by (cases ids) simp
  note eq = handleJoin_eq [OF ids, of verify e w "from" g]
  obtain a v where v: "verify m p (jr_GameToken req) e (g_ver g) = (a, v)" by fastforce
  obtain res mg where r: "RegisterPlayer (w_trackFn w) (w_newID w) (w_now w) m p (g_mgr g) = (res, mg)"
    by fastforce
  show ?thesis
  proof (cases a)
    case (Some err)
    then show ?thesis using refused [OF ids] v eq by simp
  next
    case a: None
    note v = v [unfolded a]
    show ?thesis
    proof (cases res)
      case (Panics msg)
      then show ?thesis using panics [OF ids v] r eq v by simp
    next
      case (Returns x)
      then show ?thesis using failed [OF ids v] joined [OF ids v] r eq v by (cases x) simp_all
    qed
  qed
qed

lemma handleJoin_has:
  assumes "game_wf g" and "has_player r p (g_mgr (snd (handleJoin L verify e w req from g)))"
    and "\<not> has_player r p (g_mgr g)"
  shows "\<exists>m. join_ids L req = Some (m, p) \<and> fst (verify m p (jr_GameToken req) e (g_ver g)) = None"
proof -
  have wf: "mgr_wf (g_mgr g)" using assms(1) by (simp add: game_wf_def)
  show ?thesis
  proof (cases rule: handleJoin_cases [of L req verify e w "from" g])
    case (panics m q v msg mg)
    then show ?thesis using assms(2,3) RegisterPlayer_has [OF wf panics(3), of r p] by simp
  next
    case (failed m q v err mg)
    then show ?thesis using assms(2,3) RegisterPlayer_has [OF wf failed(3), of r p] by simp
  next
    case (joined m q v k mg)
    then show ?thesis using assms(2,3) RegisterPlayer_has [OF wf joined(3), of r p] by auto
  qed (use assms(2,3) in simp_all)
qed

lemma Handle_has:
  assumes "game_wf g" and "has_player r p (g_mgr (snd (Handle L verify e w payload from g)))"
    and "\<not> has_player r p (g_mgr g)"
  shows "\<exists>req m. as_join L payload = Some req \<and> join_ids L req = Some (m, p) \<and>
    fst (verify m p (jr_GameToken req) e (g_ver g)) = None"
proof (cases "as_join L payload")
  case None
  then show ?thesis using assms(2,3)
    by (auto simp: Handle_eq handleInput_rest split: option.splits if_splits)
next
  case (Some req)
  then show ?thesis using assms handleJoin_has [of g r p L verify e w req "from"] by (simp add: Handle_eq)
qed

lemma dispatch_has:
  assumes "game_wf g" and "has_player r p (g_mgr (game_after L verify ds g))" and "\<not> has_player r p (g_mgr g)"
  shows "\<exists>i e w payload from req m. i < length ds \<and> ds ! i = (e, w, payload, from) \<and>
    as_join L payload = Some req \<and> join_ids L req = Some (m, p) \<and>
    fst (verify m p (jr_GameToken req) e (g_ver (game_after L verify (take i ds) g))) = None"
  using assms
proof (induction ds arbitrary: g)
  case (Cons d ds)
  obtain e w payload "from" where d: "d = (e, w, payload, from)" using prod_cases4 by blast
  obtain res g' where h: "Handle L verify e w payload from g = (res, g')" by fastforce
  have wf: "game_wf g'" using Handle_wf [OF Cons.prems(1), of L verify e w payload "from"] h by simp
  show ?case
  proof (cases "has_player r p (g_mgr g')")
    case True
    then have "\<exists>req m. as_join L payload = Some req \<and> join_ids L req = Some (m, p) \<and>
        fst (verify m p (jr_GameToken req) e (g_ver g)) = None"
      using Handle_has [OF Cons.prems(1), of r p L verify e w payload "from"] Cons.prems(3) h by simp
    then show ?thesis by (intro exI [of _ 0]) (auto simp: d)
  next
    case False
    then obtain out where res: "res = Returns out" using Cons.prems(2) by (cases res) (auto simp: d h)
    have "has_player r p (g_mgr (game_after L verify ds g'))" using Cons.prems(2) by (simp add: d h res)
    from Cons.IH [OF wf this False] obtain i e' w' payload' from' req m where
      "i < length ds" "ds ! i = (e', w', payload', from')" "as_join L payload' = Some req"
      "join_ids L req = Some (m, p)"
      "fst (verify m p (jr_GameToken req) e' (g_ver (game_after L verify (take i ds) g'))) = None"
      by blast
    then show ?thesis by (intro exI [of _ "Suc i"]) (auto simp: d h res)
  qed
qed simp

lemma Handle_bound:
  assumes "PlayerFromAddr addr (g_sess g) = Some p"
  shows "PlayerFromAddr addr (g_sess (snd (Handle L verify e w payload from g))) = Some p"
proof -
  have "PlayerFromAddr addr (g_sess (snd (handleJoin L verify e w req from g))) = Some p" for req
    using assms
    by (cases rule: handleJoin_cases [of L req verify e w "from" g])
      (auto simp: PlayerFromAddr_def BindAddr_addr)
  then show ?thesis using assms by (auto simp: Handle_eq handleInput_rest split: option.split)
qed

subsection \<open>Properties\<close>

text \<open>C9. Nobody gets into a race without a token: whatever datagrams the server handles, in whatever order,
  every player of a race who was not in it before sent a join request with its own id whose token the verifier
  accepted, for that player, at that moment.\<close>

theorem only_verified_players_race:
  assumes "game_wf g" and "has_player r p (g_mgr (game_after L verify ds g))" and "\<not> has_player r p (g_mgr g)"
  shows "game_wf (game_after L verify ds g) \<and>
    (\<exists>i e w payload from req m. i < length ds \<and> ds ! i = (e, w, payload, from) \<and>
      as_join L payload = Some req \<and> join_ids L req = Some (m, p) \<and>
      fst (verify m p (jr_GameToken req) e (g_ver (game_after L verify (take i ds) g))) = None)"
  using game_after_keeps [of game_wf, OF assms(1) Handle_wf] dispatch_has [OF assms] by blast

text \<open>The signature of a token, kept out of evaluation.\<close>

definition demo_sig :: string where [code del]:
  "demo_sig = EncodeToString (hmacSHA256 (str_bytes (EncodeToString [1])) ''k'')"

definition demo_proto :: protolib where
  "demo_proto = \<lparr>
     unmarshalJoin = (\<lambda>b. if b = [1] then
         Some \<lparr>jr_MatchId = ''five'', jr_PlayerId = ''nine'', jr_GameToken = EncodeToString [1] @ CHR ''.'' # demo_sig\<rparr>
       else if b = [2] then
         Some \<lparr>jr_MatchId = ''five'', jr_PlayerId = ''eight'', jr_GameToken = ''t''\<rparr>
       else None),
     unmarshalInput = (\<lambda>b. if b = [3] then
         Some \<lparr>pi_Throttle = Fin 1, pi_Brake = Fin 0, pi_Steering = Fin 0, pi_Sequence = 1\<rparr> else None),
     marshalResp = (\<lambda>r. Some [if resp_Ok r then 1 else 0]),
     uuidParse = (\<lambda>s. if s = ''five'' then Some 5 else if s = ''nine'' then Some 9
       else if s = ''eight'' then Some 8 else None),
     uuidString = (\<lambda>_. ''id'')\<rparr>"

definition demo_world :: world where
  "demo_world = \<lparr>w_trackFn = buildTrackLookup None, w_newID = 77, w_now = 50\<rparr>"

definition demo_game :: "'v \<Rightarrow> 'v Game" where
  "demo_game v = \<lparr>g_mgr = NewManager 30 1 4 True, g_sess = NewSessionRegistry, g_ver = v\<rparr>"

lemma demo_game_wf [simp]: "game_wf (demo_game v)"
  by (simp add: demo_game_def game_wf_def RaceFromPlayer_def NewSessionRegistry_def sess_wf_def)

definition lenient :: "(unit, unit) verifier" where
  "lenient = (\<lambda>m p t e v. (None, v))"

text \<open>The game after the player 9 has joined from the address \<open>a\<close>.\<close>

definition demo_joined :: "unit Game" where
  "demo_joined = game_after demo_proto lenient [((), demo_world, [1], ''a'')] (demo_game ())"

theorem only_verified_players_race_witness:
  "\<exists>req m. as_join demo_proto [1] = Some req \<and> join_ids demo_proto req = Some (m, 9)"
proof -
  have "has_player 0 9 (g_mgr demo_joined)" "\<not> has_player 0 9 (g_mgr (demo_game ()))"
    by code_simp+
  from only_verified_players_race [OF demo_game_wf this [unfolded demo_joined_def]] show ?thesis by auto
qed

text \<open>C10. A join request cannot be replayed: once the repository's verifier has accepted a token, then after any further
  datagrams the same token for the same match and player is refused from any address, and neither the
  races nor the sessions change.\<close>

theorem no_replay:
  assumes "join_ids L req = Some (m, p)" and "fst (repo_verify T secret m p (jr_GameToken req) e (g_ver g)) = None"
    and "g1 = snd (handleJoin L (repo_verify T secret) e w req from g)"
    and "g2 = game_after L (repo_verify T secret) ds g1"
    and "join_ids L req' = Some (m, p)" and "jr_GameToken req' = jr_GameToken req"
  shows "\<exists>err. handleJoin L (repo_verify T secret) e' w' req' from' g2 =
    (Returns (marshalJoinResp L False err [] 0), g2)"
proof -
  let ?V = "repo_verify T secret" and ?t = "jr_GameToken req"
  define spent where "spent g = spent_token m p ?t (g_ver g)" for g :: "Assignment list Game"
  have handle: "spent (snd (handleJoin L ?V e w r f g))" if "spent g" for e w r f g
    using that repo.spent_stays [of m p ?t "g_ver g" T secret]
    by (cases rule: handleJoin_cases [of L r ?V e w f g]) (simp_all add: spent_def, (metis snd_conv)+)
  have "?V m p ?t e (g_ver g) = (None, snd (?V m p ?t e (g_ver g)))" using assms(2) by (simp add: prod_eq_iff)
  from repo.accept_spends [OF this] have "spent g1"
    using assms(1,2)
    by (cases rule: handleJoin_cases [of L req ?V e w "from" g]) (simp_all add: assms(3) spent_def)
  moreover have "spent (snd (Handle L ?V e w payload f g))" if "spent g" for e w payload f g
    using that handle by (auto simp: Handle_eq handleInput_rest spent_def split: option.split)
  ultimately have "spent g2" unfolding assms(4) by (rule game_after_keeps)
  then obtain err where err: "?V m p ?t e' (g_ver g2) = (Some err, g_ver g2)"
    using repo.spent_refused [of m p ?t "g_ver g2" T secret e'] repo.refusal_keeps [of T secret m p ?t e' "g_ver g2"]
    by (cases "?V m p ?t e' (g_ver g2)") (auto simp: spent_def)
  show ?thesis
    by (intro exI [of _ err]) (simp add: handleJoin_eq [OF assms(5)] assms(6) err)
qed

text \<open>The request the bytes \<open>[1]\<close> stand for, and a verifier's surroundings.\<close>

definition demo_req :: JoinRaceRequest where
  "demo_req = \<lparr>jr_MatchId = ''five'', jr_PlayerId = ''nine'', jr_GameToken = EncodeToString [1] @ CHR ''.'' # demo_sig\<rparr>"

lemma demo_reg:
  "fst (RegisterPlayer (w_trackFn demo_world) (w_newID demo_world) (w_now demo_world) 5 9
     (NewManager 30 1 4 True)) = Returns (Inr 0)"
  by code_simp

lemma demo_ids: "join_ids demo_proto demo_req = Some (5, 9)"
  by (simp add: join_ids_def demo_proto_def demo_req_def token_of_def)

theorem no_replay_witness:
  "\<exists>err g2. handleJoin demo_proto (repo_verify demo_tokenlib ''k'') (0, no_fault, 60) demo_world demo_req ''b'' g2 =
     (Returns (marshalJoinResp demo_proto False err [] 0), g2) \<and> PlayerFromAddr ''a'' (g_sess g2) = Some 9"
proof -
  let ?V = "repo_verify demo_tokenlib ''k''" and ?e = "(0, no_fault, 50) :: venv"
  let ?g = "snd (handleJoin demo_proto ?V ?e demo_world demo_req ''a'' (demo_game demo_db))"
  note ids = demo_ids
  have tok: "jr_GameToken demo_req = token_of ''k'' [1]" by (simp add: demo_req_def demo_sig_def token_of_def)
  have ok: "fst (?V 5 9 (jr_GameToken demo_req) ?e (g_ver (demo_game demo_db))) = None"
    using demo_accept by (simp add: demo_game_def repo_verify_eq tok)
  obtain mg where reg: "RegisterPlayer (w_trackFn demo_world) (w_newID demo_world) (w_now demo_world) 5 9
      (g_mgr (demo_game demo_db)) = (Returns (Inr 0), mg)"
    using demo_reg by (auto simp: prod_eq_iff demo_game_def)
  have "PlayerFromAddr ''a'' (g_sess ?g) = Some 9"
    using ok reg
    by (cases rule: handleJoin_cases [of demo_proto demo_req ?V ?e demo_world "''a''" "demo_game demo_db"])
      (auto simp: ids PlayerFromAddr_def BindAddr_addr demo_game_def NewSessionRegistry_def)
  then show ?thesis
    using no_replay [OF ids ok, of ?g demo_world "''a''" ?g "[]" demo_req "(0, no_fault, 60)" demo_world "''b''"] ids
    by auto
qed

text \<open>C36. A datagram that is no join request is not answered and changes at most the input queue of one race that is not over: the
  race of the player the sending address is bound to, where it queues the datagram's values under that player's id.
  An all-zero input is dropped. In particular a sender who is not registered gets no answer, although the handoff
  document for the frontend promises it an error.\<close>

theorem inputs_stay_in_own_race:
  assumes "as_join L payload = None" and "Handle L verify e w payload from g = (res, g')"
  shows "res = Returns [] \<and>
    (g' = g \<or>
     (\<exists>inp pid r. unmarshalInput L payload = Some inp \<and>
        (flt_nonzero (pi_Throttle inp) \<or> flt_nonzero (pi_Brake inp) \<or> flt_nonzero (pi_Steering inp)) \<and>
        PlayerFromAddr from (g_sess g) = Some pid \<and> RaceFromPlayer pid (g_sess g) = Some r \<and>
        status (heap (g_mgr g) ! r) \<noteq> StatusFinished \<and>
        g' = g\<lparr>g_mgr := (g_mgr g)\<lparr>heap := (heap (g_mgr g))[r := (heap (g_mgr g) ! r)\<lparr>InputCh :=
          ch_send \<lparr>im_PlayerID = pid,
             im_Input = \<lparr>Throttle = pi_Throttle inp, Brake = pi_Brake inp, Steering = pi_Steering inp\<rparr>,
             im_Sequence = pi_Sequence inp\<rparr> (InputCh (heap (g_mgr g) ! r))\<rparr>]\<rparr>\<rparr>))"
proof (cases "unmarshalInput L payload")
  case None
  then show ?thesis using assms by (simp add: Handle_eq)
next
  case (Some inp)
  show ?thesis
  proof (cases "flt_nonzero (pi_Throttle inp) \<or> flt_nonzero (pi_Brake inp) \<or> flt_nonzero (pi_Steering inp)")
    case False
    then show ?thesis using assms Some by (simp add: Handle_eq)
  next
    case True
    then have h: "handleInput inp from g = (res, g')" using assms Some by (auto simp: Handle_eq)
    show ?thesis
    proof (cases rule: handleInput_cases [of inp "from" g])
      case (sent pid r)
      have "res = Returns []" "g' = g\<lparr>g_mgr := (g_mgr g)\<lparr>heap := (heap (g_mgr g))[r := (heap (g_mgr g) ! r)\<lparr>InputCh :=
          ch_send \<lparr>im_PlayerID = pid,
             im_Input = \<lparr>Throttle = pi_Throttle inp, Brake = pi_Brake inp, Steering = pi_Steering inp\<rparr>,
             im_Sequence = pi_Sequence inp\<rparr> (InputCh (heap (g_mgr g) ! r))\<rparr>]\<rparr>\<rparr>"
        using h unfolding sent(4) by (simp_all add: race_moves_def ApplyInput_def)
      then show ?thesis using Some True sent by (auto simp: Status_def)
    qed (use h in simp)
  qed
qed

theorem inputs_stay_in_own_race_witness:
  "fst (Handle demo_proto lenient () demo_world [3] ''a'' demo_joined) = Returns []"
proof -
  have "as_join demo_proto [3] = None" by code_simp
  from inputs_stay_in_own_race [OF this prod.collapse [symmetric]] show ?thesis by (rule conjunct1)
qed

text \<open>C35. A player who joins from an address nobody has used drives from it: its session has the address and the race the join
  returned, and the next input sent from there, unless
  all of it is zero or the race is over, is queued in the race the join returned, under the player's id.\<close>

theorem joined_player_drives:
  assumes "join_ids L req = Some (m, p)" and "verify m p (jr_GameToken req) e (g_ver g) = (None, v)"
    and "RegisterPlayer (w_trackFn w) (w_newID w) (w_now w) m p (g_mgr g) = (Returns (Inr r), mg)"
    and "PlayerFromAddr from (g_sess g) = None"
    and "as_join L payload = None" and "unmarshalInput L payload = Some inp"
    and "flt_nonzero (pi_Throttle inp) \<or> flt_nonzero (pi_Brake inp) \<or> flt_nonzero (pi_Steering inp)"
    and "status (heap mg ! r) \<noteq> StatusFinished"
    and "g1 = snd (handleJoin L verify e w req from g)"
  shows "PlayerFromAddr from (g_sess g1) = Some p \<and> gm_get (sr_player (g_sess g1)) p = Some \<lparr>ae_key = from, ae_race = Some r\<rparr> \<and>
    g_mgr (snd (Handle L verify e' w' payload from g1)) = race_moves r (ApplyInput \<lparr>im_PlayerID = p,
      im_Input = \<lparr>Throttle = pi_Throttle inp, Brake = pi_Brake inp, Steering = pi_Steering inp\<rparr>,
      im_Sequence = pi_Sequence inp\<rparr> (heap mg ! r)) mg"
proof -
  have g1: "g1 = g\<lparr>g_ver := v, g_mgr := mg, g_sess := SetRace p (Some r) (snd (BindAddr from p (g_sess g)))\<rparr>"
    by (simp add: assms(9) handleJoin_eq [OF assms(1)] assms(2,3))
  have unbound: "gm_get (sr_addr (g_sess g)) from = None" using assms(4) by (simp add: PlayerFromAddr_def)
  have bound: "PlayerFromAddr from (g_sess g1) = Some p"
    by (simp add: g1 PlayerFromAddr_def BindAddr_addr unbound)
  have race: "RaceFromPlayer p (g_sess g1) = Some r"
    using BindAddr_player [of "from" p "g_sess g" p] by (simp add: g1 SetRace_race unbound)
  moreover have session: "gm_get (sr_player (g_sess g1)) p = Some \<lparr>ae_key = from, ae_race = Some r\<rparr>"
    using session_of_join [OF unbound] by (simp add: g1)
  moreover have "g_mgr (snd (handleInput inp from g1)) = race_moves r (ApplyInput \<lparr>im_PlayerID = p,
      im_Input = \<lparr>Throttle = pi_Throttle inp, Brake = pi_Brake inp, Steering = pi_Steering inp\<rparr>,
      im_Sequence = pi_Sequence inp\<rparr> (heap mg ! r)) mg"
    using assms(8) unfolding handleInput_def bound race option.case by (simp add: g1 Status_def)
  ultimately show ?thesis using bound assms(5-7) by (simp add: Handle_eq)
qed

lemma demo_joined_eq: "demo_joined = snd (handleJoin demo_proto lenient () demo_world demo_req ''a'' (demo_game ()))"
proof -
  have "as_join demo_proto [1] = Some demo_req"
    by (simp add: as_join_def demo_proto_def demo_req_def token_of_def)
  then show ?thesis by (simp add: demo_joined_def Handle_eq split: prod.split go.split)
qed

theorem joined_player_drives_witness:
  "PlayerFromAddr ''a'' (g_sess demo_joined) = Some 9 \<and>
   list_all (\<lambda>r. map im_PlayerID (ch_buf (InputCh r)) = [9])
     (heap (g_mgr (snd (Handle demo_proto lenient () demo_world [3] ''a'' demo_joined))))"
proof -
  let ?reg = "RegisterPlayer (w_trackFn demo_world) (w_newID demo_world) (w_now demo_world) 5 9 (g_mgr (demo_game ()))"
  have fresh: "PlayerFromAddr ''a'' (g_sess (demo_game ())) = None"
    by (simp add: demo_game_def NewSessionRegistry_def PlayerFromAddr_def)
  have reg: "?reg = (Returns (Inr 0), snd ?reg)" using demo_reg by (simp add: prod_eq_iff demo_game_def)
  have st: "status (heap (snd ?reg) ! 0) \<noteq> StatusFinished"
    "list_all (\<lambda>r. map im_PlayerID (ch_buf (InputCh r)) = [9]) (heap (race_moves 0 (ApplyInput \<lparr>im_PlayerID = 9,
      im_Input = \<lparr>Throttle = Fin 1, Brake = Fin 0, Steering = Fin 0\<rparr>, im_Sequence = 1\<rparr> (heap (snd ?reg) ! 0)) (snd ?reg)))"
    by code_simp+
  have inp: "as_join demo_proto [3] = None"
    "unmarshalInput demo_proto [3] = Some \<lparr>pi_Throttle = Fin 1, pi_Brake = Fin 0, pi_Steering = Fin 0, pi_Sequence = 1\<rparr>"
    by (simp_all add: as_join_def demo_proto_def)
  have ver: "lenient 5 9 (jr_GameToken demo_req) () (g_ver (demo_game ())) = (None, ())"
    by (simp add: lenient_def)
  show ?thesis
    using joined_player_drives [OF demo_ids ver reg fresh inp _ st(1) demo_joined_eq, of "()" demo_world] st(2)
    by simp
qed

text \<open>An address stays with the first player who joined from it: a second player who joins from the same
  address and has no other is told that it has joined, but its inputs are queued for the first player and it is
  in no race the dispatcher knows of.\<close>

theorem shared_address_keeps_first:
  assumes "PlayerFromAddr from (g_sess g) = Some q" and "p \<noteq> q"
    and "join_ids L req = Some (m, p)" and "verify m p (jr_GameToken req) e (g_ver g) = (None, v)"
    and "RegisterPlayer (w_trackFn w) (w_newID w) (w_now w) m p (g_mgr g) = (Returns (Inr r), mg)"
    and "gm_get (sr_player (g_sess g)) p = None"
    and "handleJoin L verify e w req from g = (res, g1)"
  shows "res = Returns (marshalJoinResp L True [] (uuidString L (raceID (heap mg ! r))) (initialTick (w_now w))) \<and>
    RaceFromPlayer p (g_sess g1) = None \<and>
    PlayerFromAddr from (g_sess (game_after L verify ds g1)) = Some q"
proof -
  have g1: "g1 = g\<lparr>g_ver := v, g_mgr := mg, g_sess := SetRace p (Some r) (snd (BindAddr from p (g_sess g)))\<rparr>"
    and res: "res = Returns (marshalJoinResp L True [] (uuidString L (raceID (heap mg ! r))) (initialTick (w_now w)))"
    using assms(7) by (auto simp: handleJoin_eq [OF assms(3)] assms(4,5))
  have addr: "gm_get (sr_addr (g_sess g)) from = Some q" using assms(1) by (simp add: PlayerFromAddr_def)
  have "RaceFromPlayer p (g_sess g1) = None"
    using assms(6) by (simp add: g1 BindAddr_def addr SetRace_def RaceFromPlayer_def)
  moreover have "PlayerFromAddr from (g_sess g1) = Some q"
    by (simp add: g1 PlayerFromAddr_def BindAddr_addr addr)
  then have "PlayerFromAddr from (g_sess (game_after L verify ds g1)) = Some q"
    by (rule game_after_keeps) (rule Handle_bound)
  ultimately show ?thesis using res by blast
qed

definition demo_req2 :: JoinRaceRequest where
  "demo_req2 = \<lparr>jr_MatchId = ''five'', jr_PlayerId = ''eight'', jr_GameToken = ''t''\<rparr>"

theorem shared_address_keeps_first_witness:
  "let g1 = snd (handleJoin demo_proto lenient () demo_world demo_req2 ''a'' demo_joined)
   in has_player 0 8 (g_mgr g1) \<and> RaceFromPlayer 8 (g_sess g1) = None \<and> PlayerFromAddr ''a'' (g_sess g1) = Some 9"
proof -
  let ?g1 = "snd (handleJoin demo_proto lenient () demo_world demo_req2 ''a'' demo_joined)"
  have ids: "join_ids demo_proto demo_req2 = Some (5, 8)"
    by (simp add: join_ids_def demo_proto_def demo_req2_def)
  have "PlayerFromAddr ''a'' (g_sess demo_joined) = Some 9" "gm_get (sr_player (g_sess demo_joined)) 8 = None"
    "has_player 0 8 (g_mgr ?g1)"
    by code_simp+
  moreover have "fst (RegisterPlayer (w_trackFn demo_world) (w_newID demo_world) (w_now demo_world) 5 8 (g_mgr demo_joined))
      = Returns (Inr 0)"
    by code_simp
  then obtain mg where "RegisterPlayer (w_trackFn demo_world) (w_newID demo_world) (w_now demo_world) 5 8 (g_mgr demo_joined)
      = (Returns (Inr 0), mg)"
    by (auto simp: prod_eq_iff)
  ultimately show ?thesis
    using shared_address_keeps_first [of "''a''" demo_joined 9 8 demo_proto demo_req2 5 lenient "()" "()"
        demo_world 0 mg, OF _ _ ids _ _ _ prod.collapse [symmetric], of "[]"]
    by (simp add: Let_def lenient_def)
qed

end
