(* ===== verification/Framing.thy ===== *)
theory Framing
  imports Prelude
begin

text \<open>
  \<open>internal/protoframing/framing.go\<close>, \<open>framingEncode\<close> of \<open>internal/networking/broadcast.go\<close>
  and the read loop of \<open>internal/networking/server.go\<close>: frames of a 4-byte big-endian length and
  a payload. A Go slice is the list of its bytes; a UDP address is its text form.
\<close>

unbundle bit_operations_syntax

subsection \<open>Big-endian lengths\<close>

definition be_Uint32 :: "bytes \<Rightarrow> 32 word" where
  "be_Uint32 b =
     ucast (b ! 3) OR push_bit 8 (ucast (b ! 2)) OR push_bit 16 (ucast (b ! 1)) OR
     push_bit 24 (ucast (b ! 0))"

definition be_PutUint32 :: "32 word \<Rightarrow> bytes" where
  "be_PutUint32 v = [ucast (drop_bit 24 v), ucast (drop_bit 16 v), ucast (drop_bit 8 v), ucast v]"

subsection \<open>Frames\<close>

datatype frame_error = ErrShortFrame | ErrFrameTooLarge

definition HeaderSize :: nat where "HeaderSize = 4"

definition MaxFrame :: nat where "MaxFrame = 64 * 1024"

definition Decode :: "bytes \<Rightarrow> frame_error + (bytes \<times> bytes)" where
  "Decode buf =
     (if length buf < HeaderSize then Inl ErrShortFrame
      else let l = unat (be_Uint32 (take HeaderSize buf))
           in if l = 0 then Inr ([], drop HeaderSize buf)
              else if MaxFrame < l then Inl ErrFrameTooLarge
              else if length buf < HeaderSize + l then Inl ErrShortFrame
              else Inr (drop HeaderSize (take (HeaderSize + l) buf), drop (HeaderSize + l) buf))"

definition Encode :: "bytes \<Rightarrow> frame_error + bytes" where
  "Encode payload =
     (if MaxFrame < length payload then Inl ErrFrameTooLarge
      else Inr (be_PutUint32 (of_nat (length payload)) @ payload))"

text \<open>The broadcaster's own encoder, on Go's 64-bit \<open>len\<close>; \<open>byte(x)\<close> keeps the low 8 bits.\<close>

definition framingEncode :: "bytes \<Rightarrow> bytes option" where
  "framingEncode payload =
     (let n = (of_nat (length payload) :: 64 word)
      in if 64 * 1024 < length payload then None
         else Some ([ucast (drop_bit 24 n), ucast (drop_bit 16 n), ucast (drop_bit 8 n), ucast n] @ payload))"

subsection \<open>The read loop\<close>

text \<open>
  What \<open>ReadFromUDP\<close> into the 2048-byte buffer reports (a longer datagram is cut), and whether
  the context or \<open>done\<close> was found closed before it. \<open>handle\<close> is the dispatcher wired, if any, on a
  server state \<open>'s\<close>; the loop writes at most one datagram for each it reads.
\<close>

datatype read_result =
    ReadTimeout
  | ReadClosed
  | ReadError
  | ReadDatagram bytes string

definition serve_datagram ::
    "('s \<Rightarrow> bytes \<Rightarrow> string \<Rightarrow> bytes \<times> 's) option \<Rightarrow> bytes \<Rightarrow> string \<Rightarrow> 's \<Rightarrow>
     (bytes \<times> string) list \<times> 's" where
  "serve_datagram handle datagram from s =
     (let pending = take 2048 datagram
      in case Decode pending of
           Inl err \<Rightarrow> ([], s)
         | Inr (payload, rest) \<Rightarrow>
             (case handle of
                None \<Rightarrow> ([], s)
              | Some h \<Rightarrow>
                  let (reply, s') = h s payload from
                  in if length reply = 0 then ([], s')
                     else case Encode reply of
                            Inl err \<Rightarrow> ([], s')
                          | Inr framed \<Rightarrow> ([(framed, from)], s')))"

fun Serve ::
    "('s \<Rightarrow> bytes \<Rightarrow> string \<Rightarrow> bytes \<times> 's) option \<Rightarrow> (bool \<times> read_result) list \<Rightarrow> 's \<Rightarrow>
     (bytes \<times> string) list \<times> 's" where
  "Serve handle [] s = ([], s)"
| "Serve handle ((stopped, rd) # rds) s =
     (if stopped then ([], s)
      else case rd of
        ReadTimeout \<Rightarrow> Serve handle rds s
      | ReadClosed \<Rightarrow> ([], s)
      | ReadError \<Rightarrow> Serve handle rds s
      | ReadDatagram datagram from \<Rightarrow>
          let (out, s') = serve_datagram handle datagram from s;
              (outs, s'') = Serve handle rds s'
          in (out @ outs, s''))"

subsection \<open>Lemmas on lengths\<close>

lemma be_Put_get: "be_Uint32 (be_PutUint32 v @ xs) = v"
proof (rule bit_word_eqI)
  fix n
  assume "n < LENGTH(32)"
  then show "bit (be_Uint32 (be_PutUint32 v @ xs)) n = bit v n"
    by (cases "24 \<le> n"; cases "16 \<le> n") (auto simp: be_Uint32_def be_PutUint32_def bit_simps)
qed

lemma four_bytes: "length b = 4 \<Longrightarrow> \<exists>a c d e. b = [a, c, d, e]"
  by (auto simp: numeral_eq_Suc length_Suc_conv)

lemma byte_bits: "8 \<le> k \<Longrightarrow> \<not> bit (x :: byte) k"
  using bit_imp_le_length [of x k] by auto

lemma be_get_Put: "length b = 4 \<Longrightarrow> be_PutUint32 (be_Uint32 b) = b"
  by (drule four_bytes)
    (auto simp: be_Uint32_def be_PutUint32_def bit_simps byte_bits intro!: bit_word_eqI)

lemma be_PutUint32_length [simp]: "length (be_PutUint32 v) = 4"
  by (simp add: be_PutUint32_def)

lemma unat_length: "n \<le> MaxFrame \<Longrightarrow> unat (of_nat n :: 32 word) = n"
  by (simp add: MaxFrame_def unat_of_nat)

subsection \<open>The codec\<close>

text \<open>
  A framing codec: encoding fails exactly on the payloads that do not fit, a frame at the head
  of a buffer decodes to its payload and what follows, and nothing else decodes.
\<close>

locale framing_codec =
  fixes enc :: "'a list \<Rightarrow> 'a list option"
    and dec :: "'a list \<Rightarrow> ('a list \<times> 'a list) option"
    and fits :: "'a list \<Rightarrow> bool"
  assumes enc_fits: "enc p = None \<longleftrightarrow> \<not> fits p"
    and enc_nonempty: "enc p = Some f \<Longrightarrow> f \<noteq> []"
    and dec_enc: "enc p = Some f \<Longrightarrow> dec (f @ rest) = Some (p, rest)"
    and dec_only: "dec buf = Some (p, rest) \<Longrightarrow> \<exists>f. enc p = Some f \<and> buf = f @ rest"
begin

lemma enc_inj: "enc p = Some f \<Longrightarrow> enc q = Some f \<Longrightarrow> p = q"
  using dec_enc [of p f "[]"] dec_enc [of q f "[]"] by simp

text \<open>No frame is a proper beginning of another, so a stream of frames has one reading.\<close>

lemma prefix_free: "enc p = Some f \<Longrightarrow> enc q = Some (f @ xs) \<Longrightarrow> xs = []"
  using dec_enc [of p f xs] dec_enc [of q "f @ xs" "[]"] by simp

lemma stream_unique:
  assumes "concat (map (\<lambda>p. the (enc p)) ps) = concat (map (\<lambda>p. the (enc p)) qs)"
    and "\<forall>p \<in> set ps. fits p" and "\<forall>q \<in> set qs. fits q"
  shows "ps = qs"
  using assms
proof (induction ps arbitrary: qs)
  case Nil
  then show ?case using enc_nonempty enc_fits by (cases qs) fastforce+
next
  case (Cons p ps)
  obtain f where f: "enc p = Some f" using Cons.prems(2) enc_fits [of p] by (cases "enc p") auto
  show ?case
  proof (cases qs)
    case Nil
    then show ?thesis using Cons.prems(1) f enc_nonempty [OF f] by simp
  next
    case (Cons q qs')
    obtain g where g: "enc q = Some g"
      using Cons.prems(3) \<open>qs = q # qs'\<close> enc_fits [of q] by (cases "enc q") auto
    let ?tail = "concat (map (\<lambda>p. the (enc p)) ps)" and ?tail' = "concat (map (\<lambda>p. the (enc p)) qs')"
    have "f @ ?tail = g @ ?tail'" using Cons.prems(1) f g \<open>qs = q # qs'\<close> by simp
    then have "Some (p, ?tail) = Some (q, ?tail')"
      using dec_enc [OF f, of ?tail] dec_enc [OF g, of ?tail'] by simp
    then show ?thesis using Cons.IH [of qs'] Cons.prems(2,3) \<open>qs = q # qs'\<close> by simp
  qed
qed

end

definition Encode_opt :: "bytes \<Rightarrow> bytes option" where
  "Encode_opt p = (case Encode p of Inl _ \<Rightarrow> None | Inr f \<Rightarrow> Some f)"

definition Decode_opt :: "bytes \<Rightarrow> (bytes \<times> bytes) option" where
  "Decode_opt b = (case Decode b of Inl _ \<Rightarrow> None | Inr r \<Rightarrow> Some r)"

lemma Encode_Inr: "Encode p = Inr f \<longleftrightarrow>
    length p \<le> MaxFrame \<and> f = be_PutUint32 (of_nat (length p)) @ p"
  by (auto simp: Encode_def)

lemma Decode_Encode:
  assumes "Encode p = Inr f"
  shows "Decode (f @ rest) = Inr (p, rest)"
proof -
  have f: "f = be_PutUint32 (of_nat (length p)) @ p" and l: "length p \<le> MaxFrame"
    using assms by (simp_all add: Encode_Inr)
  have "be_Uint32 (take HeaderSize (f @ rest)) = of_nat (length p)"
    using be_Put_get [of "of_nat (length p)" "[]"] by (simp add: f HeaderSize_def)
  then have "unat (be_Uint32 (take HeaderSize (f @ rest))) = length p" using unat_length [OF l] by simp
  then show ?thesis using l by (auto simp: Decode_def f HeaderSize_def Let_def)
qed

lemma Decode_only:
  assumes "Decode buf = Inr (p, rest)"
  shows "\<exists>f. Encode p = Inr f \<and> buf = f @ rest"
proof -
  let ?h = "take HeaderSize buf" and ?l = "unat (be_Uint32 (take HeaderSize buf))"
  have h: "length ?h = 4" and l: "?l \<le> MaxFrame" "HeaderSize + ?l \<le> length buf"
    and p: "p = drop HeaderSize (take (HeaderSize + ?l) buf)" and rest: "rest = drop (HeaderSize + ?l) buf"
    using assms by (auto simp: Decode_def HeaderSize_def Let_def split: if_splits)
  have len: "length p = ?l" using l(2) by (simp add: p)
  then have "be_PutUint32 (of_nat (length p)) = ?h" using be_get_Put [OF h] by simp
  moreover have "buf = ?h @ p @ rest"
    unfolding p rest by (metis append_take_drop_id add.commute take_add take_drop append.assoc)
  ultimately show ?thesis using l(1) len by (intro exI [of _ "?h @ p"]) (simp add: Encode_Inr)
qed

interpretation frames: framing_codec Encode_opt Decode_opt "\<lambda>p. length p \<le> MaxFrame"
proof unfold_locales
  show "Encode_opt p = None \<longleftrightarrow> \<not> length p \<le> MaxFrame" for p
    by (auto simp: Encode_opt_def Encode_def)
  show "Encode_opt p = Some f \<Longrightarrow> f \<noteq> []" for p f
    by (auto simp: Encode_opt_def Encode_def be_PutUint32_def split: sum.splits if_splits)
  show "Encode_opt p = Some f \<Longrightarrow> Decode_opt (f @ rest) = Some (p, rest)" for p f rest
    by (auto simp: Encode_opt_def Decode_opt_def Decode_Encode split: sum.splits)
  show "Decode_opt buf = Some (p, rest) \<Longrightarrow> \<exists>f. Encode_opt p = Some f \<and> buf = f @ rest" for buf p rest
    using Decode_only by (fastforce simp: Encode_opt_def Decode_opt_def split: sum.splits)
qed

subsection \<open>Properties\<close>

text \<open>C37. What \<open>Encode\<close> writes, \<open>Decode\<close> reads back, whatever follows it in the buffer, and \<open>Decode\<close> accepts
  nothing else: a buffer that decodes is exactly the encoding of the payload and the rest.\<close>

theorem frame_roundtrip:
  "Decode buf = Inr (p, rest) \<longleftrightarrow> (\<exists>f. Encode p = Inr f \<and> buf = f @ rest)"
  using Decode_Encode Decode_only by blast

text \<open>Payloads up to 64 KiB, and only those, can be framed; the frame is four bytes longer; a stream of frames
  can be taken apart in only one way.\<close>

theorem frame_stream_unique:
  assumes "list_all (\<lambda>p. length p \<le> MaxFrame) ps" and "list_all (\<lambda>p. length p \<le> MaxFrame) qs"
    and "concat (map (\<lambda>p. projr (Encode p)) ps) = concat (map (\<lambda>p. projr (Encode p)) qs)"
  shows "ps = qs \<and> list_all (\<lambda>p. length (projr (Encode p)) = length p + 4) ps"
proof -
  have enc: "length p \<le> MaxFrame \<Longrightarrow> projr (Encode p) = the (Encode_opt p)" for p
    by (simp add: Encode_opt_def Encode_def)
  have "concat (map (\<lambda>p. the (Encode_opt p)) ps) = concat (map (\<lambda>p. the (Encode_opt p)) qs)"
    using assms by (simp add: enc list_all_iff cong: map_cong)
  then show ?thesis
    using frames.stream_unique assms(1,2) by (auto simp: list_all_iff Encode_def)
qed

theorem frame_stream_unique_witness:
  "list_all (\<lambda>p. length (projr (Encode p)) = length p + 4) [[1, 2], [3]]"
  using frame_stream_unique [of "[[1, 2], [3]]" "[[1, 2], [3]]"] by (simp add: MaxFrame_def)

text \<open>The broadcaster's inlined encoder produces the same bytes as \<open>Encode\<close>, and fails on the same payloads.\<close>

theorem framingEncode_is_Encode:
  "framingEncode p = (case Encode p of Inl _ \<Rightarrow> None | Inr f \<Rightarrow> Some f)"
proof (cases "MaxFrame < length p")
  case False
  then have l: "length p \<le> 65536" by (simp add: MaxFrame_def)
  have b: "ucast (drop_bit k (of_nat (length p) :: 64 word)) = (ucast (drop_bit k (of_nat (length p) :: 32 word)) :: byte)"
    if "k \<le> 24" for k
  proof (rule bit_word_eqI)
    fix n
    assume "n < LENGTH(8)"
    then have "k + n < 32" using that by simp
    then have "bit (of_nat (length p) :: 64 word) (k + n) = bit (of_nat (length p) :: 32 word) (k + n)"
      by (simp add: bit_simps)
    then show "bit (ucast (drop_bit k (of_nat (length p) :: 64 word)) :: byte) n =
        bit (ucast (drop_bit k (of_nat (length p) :: 32 word)) :: byte) n"
      using \<open>n < LENGTH(8)\<close> by (simp add: bit_simps)
  qed
  show ?thesis
    using False b [of 24] b [of 16] b [of 8] b [of 0]
    by (simp add: framingEncode_def Encode_def be_PutUint32_def MaxFrame_def Let_def)
qed (simp add: framingEncode_def Encode_def MaxFrame_def)

text \<open>
  The read loop as a function of the datagrams it reads before it stops: each whole frame is given to the handler in turn,
  and \<open>state_before\<close> is the handler's state when the datagram \<open>i\<close> arrives.
\<close>

fun datagrams :: "(bool \<times> read_result) list \<Rightarrow> (bytes \<times> string) list" where
  "datagrams [] = []"
| "datagrams ((stopped, rd) # rds) =
     (if stopped then []
      else case rd of
        ReadDatagram d from \<Rightarrow> (d, from) # datagrams rds
      | ReadClosed \<Rightarrow> []
      | _ \<Rightarrow> datagrams rds)"

definition on_datagram ::
    "('s \<Rightarrow> bytes \<Rightarrow> string \<Rightarrow> bytes \<times> 's) option \<Rightarrow> bytes \<times> string \<Rightarrow> 's \<Rightarrow> bytes \<times> 's" where
  "on_datagram handle dg s =
     (case (handle, Decode (take 2048 (fst dg))) of
        (Some h, Inr (payload, _)) \<Rightarrow> h s payload (snd dg)
      | _ \<Rightarrow> ([], s))"

definition state_before ::
    "('s \<Rightarrow> bytes \<Rightarrow> string \<Rightarrow> bytes \<times> 's) option \<Rightarrow> (bytes \<times> string) list \<Rightarrow> 's \<Rightarrow> nat \<Rightarrow> 's" where
  "state_before handle dgs s i = fold (\<lambda>dg s. snd (on_datagram handle dg s)) (take i dgs) s"

definition answer :: "bytes \<Rightarrow> string \<Rightarrow> (bytes \<times> string) option" where
  "answer reply to = (if reply = [] \<or> MaxFrame < length reply then None else Some (projr (Encode reply), to))"

definition answer_at ::
    "('s \<Rightarrow> bytes \<Rightarrow> string \<Rightarrow> bytes \<times> 's) option \<Rightarrow> (bytes \<times> string) list \<Rightarrow> 's \<Rightarrow> nat \<Rightarrow> (bytes \<times> string) option" where
  "answer_at handle dgs s i = answer (fst (on_datagram handle (dgs ! i) (state_before handle dgs s i))) (snd (dgs ! i))"

lemma state_before_Cons [simp]:
  "state_before handle (dg # dgs) s (Suc i) = state_before handle dgs (snd (on_datagram handle dg s)) i"
  "state_before handle dgs s 0 = s"
  by (simp_all add: state_before_def)

lemma answer_at_Cons [simp]:
  "answer_at handle (dg # dgs) s (Suc i) = answer_at handle dgs (snd (on_datagram handle dg s)) i"
  "answer_at handle (dg # dgs) s 0 = answer (fst (on_datagram handle dg s)) (snd dg)"
  by (simp_all add: answer_at_def)

lemma serve_datagram_answer:
  "serve_datagram handle d from s =
     (let (reply, s') = on_datagram handle (d, from) s in (case answer reply from of None \<Rightarrow> [] | Some a \<Rightarrow> [a], s'))"
  by (auto simp: serve_datagram_def on_datagram_def answer_def Encode_def Let_def split: sum.split option.split prod.split)

lemma map_filter_Suc:
  "List.map_filter f [0..<Suc n] = (case f 0 of None \<Rightarrow> [] | Some x \<Rightarrow> [x]) @ List.map_filter (\<lambda>i. f (Suc i)) [0..<n]"
proof -
  have "[0..<Suc n] = 0 # map Suc [0..<n]" by (simp add: map_Suc_upt upt_conv_Cons del: upt_Suc)
  moreover have "List.map_filter f (map Suc xs) = List.map_filter (\<lambda>i. f (Suc i)) xs" for xs
    by (induction xs) (simp_all add: map_filter_simps split: option.split)
  ultimately show ?thesis by (simp add: map_filter_simps split: option.split del: upt_Suc)
qed

lemma Serve_answers:
  "Serve handle rds s =
     (List.map_filter (answer_at handle (datagrams rds) s) [0..<length (datagrams rds)],
      state_before handle (datagrams rds) s (length (datagrams rds)))"
proof (induction handle rds s rule: Serve.induct)
  case (2 handle stopped rd rds s)
  show ?case
  proof (cases "stopped \<or> (\<forall>d from. rd \<noteq> ReadDatagram d from)")
    case True
    then show ?thesis using 2 by (cases rd) (auto simp: map_filter_simps)
  next
    case False
    then obtain d frm where rd: "rd = ReadDatagram d frm" "\<not> stopped" by auto
    have "Serve handle rds (snd (serve_datagram handle d frm s)) =
        (List.map_filter (answer_at handle (datagrams rds) (snd (serve_datagram handle d frm s))) [0..<length (datagrams rds)],
         state_before handle (datagrams rds) (snd (serve_datagram handle d frm s)) (length (datagrams rds)))"
      using 2(3) [OF rd(2) rd(1) prod.collapse refl] by simp
    then show ?thesis
      by (simp add: rd map_filter_Suc serve_datagram_answer case_prod_unfold Let_def del: upt_Suc split: option.split)
  qed
qed (simp add: map_filter_simps)

text \<open>C38. What the server sends is exactly what the handler replies: the datagrams read before the loop stops are given to the
  handler one after the other, each in the state the one before has left; for each, in this order, the server sends at most one
  datagram, to its sender, a frame that decodes to the handler's very reply to it, and it sends none exactly when that
  reply is empty or longer than a frame can hold. A datagram that does not start with a whole frame, or any when no handler is set,
  counts as an empty reply and leaves the handler's state as it is.\<close>

theorem Serve_replies:
  assumes "Serve handle rds s = (out, s')" and "dgs = datagrams rds"
  shows "s' = state_before handle dgs s (length dgs) \<and>
    (\<exists>f. out = List.map_filter f [0..<length dgs] \<and>
      (\<forall>i < length dgs. \<forall>d from reply t. dgs ! i = (d, from) \<and>
         on_datagram handle (d, from) (state_before handle dgs s i) = (reply, t) \<longrightarrow>
           state_before handle dgs s (Suc i) = t \<and>
           (case f i of
              None \<Rightarrow> reply = [] \<or> MaxFrame < length reply
            | Some (b, to) \<Rightarrow> to = from \<and> reply \<noteq> [] \<and> Decode b = Inr (reply, [])) \<and>
           (handle = None \<or> (\<exists>e. Decode (take 2048 d) = Inl e) \<longrightarrow> f i = None \<and> t = state_before handle dgs s i)))"
proof -
  let ?f = "answer_at handle dgs s"
  have next_state: "state_before handle dgs s (Suc i) = snd (on_datagram handle (dgs ! i) (state_before handle dgs s i))"
    if "i < length dgs" for i
    using that by (simp add: state_before_def take_Suc_conv_app_nth)
  have frame: "Decode (projr (Encode reply)) = Inr (reply, [])" if "\<not> MaxFrame < length reply" for reply
    using that Decode_Encode [of reply "projr (Encode reply)" "[]"] by (simp add: Encode_def)
  have drop: "on_datagram handle (d, from) t = ([], t)" if "handle = None \<or> (\<exists>e. Decode (take 2048 d) = Inl e)" for d "from" t
    using that by (cases handle) (auto simp: on_datagram_def)
  have "state_before handle dgs s (Suc i) = t \<and>
      (case ?f i of None \<Rightarrow> reply = [] \<or> MaxFrame < length reply
       | Some (b, to) \<Rightarrow> to = from \<and> reply \<noteq> [] \<and> Decode b = Inr (reply, [])) \<and>
      (handle = None \<or> (\<exists>e. Decode (take 2048 d) = Inl e) \<longrightarrow> ?f i = None \<and> t = state_before handle dgs s i)"
    if i: "i < length dgs" "dgs ! i = (d, from)" "on_datagram handle (d, from) (state_before handle dgs s i) = (reply, t)"
    for i d "from" reply t
  proof (intro conjI impI)
    show "state_before handle dgs s (Suc i) = t" using i next_state by simp
    show "case ?f i of None \<Rightarrow> reply = [] \<or> MaxFrame < length reply
        | Some (b, to) \<Rightarrow> to = from \<and> reply \<noteq> [] \<and> Decode b = Inr (reply, [])"
      using i by (simp add: answer_at_def answer_def frame)
    assume "handle = None \<or> (\<exists>e. Decode (take 2048 d) = Inl e)"
    then have "reply = []" "t = state_before handle dgs s i" using drop i(3) by auto
    then show "?f i = None" "t = state_before handle dgs s i" using i by (simp_all add: answer_at_def answer_def)
  qed
  then show ?thesis using assms(1) unfolding Serve_answers assms(2) [symmetric] by (intro conjI exI [of _ ?f]) auto
qed

text \<open>Two senders: the first is answered with its own payload, the second's broken frame is dropped, the third is answered.\<close>

theorem Serve_replies_witness:
  "\<exists>out. Serve (Some (\<lambda>s p from. (p, s + (1::nat)))) [(False, ReadDatagram [0, 0, 0, 1, 9] ''a''), (False, ReadTimeout),
      (False, ReadDatagram [0, 0] ''b''), (False, ReadDatagram [0, 0, 0, 1, 8] ''b''), (True, ReadDatagram [0, 0, 0, 1, 7] ''c'')] 0 =
    (out, 2) \<and> map snd out = [''a'', ''b''] \<and> map (Decode \<circ> fst) out = [Inr ([9], []), Inr ([8], [])]"
proof -
  let ?h = "Some (\<lambda>s p (from :: string). (p, s + (1::nat)))"
  let ?rds = "[(False, ReadDatagram [0, 0, 0, 1, 9] ''a''), (False, ReadTimeout),
      (False, ReadDatagram [0, 0] ''b''), (False, ReadDatagram [0, 0, 0, 1, 8] ''b''), (True, ReadDatagram [0, 0, 0, 1, 7] ''c'')]"
  let ?dgs = "[([0, 0, 0, 1, 9], ''a''), ([0, 0], ''b''), ([0, 0, 0, 1, 8], ''b'')] :: (bytes \<times> string) list"
  have D: "Decode [0, 0, 0, 1, 9] = Inr ([9], [])" "Decode [0, 0] = Inl ErrShortFrame" "Decode [0, 0, 0, 1, 8] = Inr ([8], [])"
    by (simp_all add: Decode_def HeaderSize_def MaxFrame_def be_Uint32_def Let_def)
  have on: "on_datagram ?h (?dgs ! 0) t = ([9], t + 1)" "on_datagram ?h (?dgs ! 1) t = ([], t)"
    "on_datagram ?h (?dgs ! 2) t = ([8], t + 1)" for t
    by (simp_all add: on_datagram_def D)
  obtain out s' where o: "Serve ?h ?rds 0 = (out, s')" by fastforce
  have dgs: "?dgs = datagrams ?rds" by simp
  obtain f where s': "s' = state_before ?h ?dgs 0 (length ?dgs)" and out: "out = List.map_filter f [0..<length ?dgs]"
    and f: "\<And>i d from reply t. i < length ?dgs \<Longrightarrow> ?dgs ! i = (d, from) \<Longrightarrow>
         on_datagram ?h (d, from) (state_before ?h ?dgs 0 i) = (reply, t) \<Longrightarrow>
           state_before ?h ?dgs 0 (Suc i) = t \<and>
           (case f i of None \<Rightarrow> reply = [] \<or> MaxFrame < length reply
            | Some (b, to) \<Rightarrow> to = from \<and> reply \<noteq> [] \<and> Decode b = Inr (reply, []))"
    using Serve_replies [OF o dgs] by blast
  have "s' = 2" by (simp add: s' state_before_def on_datagram_def D)
  moreover obtain b0 where "f 0 = Some (b0, ''a'')" "Decode b0 = Inr ([9], [])"
    using f [of 0 _ _ "[9]"] on(1) by (cases "f 0") (auto simp: MaxFrame_def)
  moreover have "f 1 = None" using f [of 1 _ _ "[]"] on(2) by (cases "f 1") auto
  moreover obtain b2 where "f 2 = Some (b2, ''b'')" "Decode b2 = Inr ([8], [])"
    using f [of 2 _ _ "[8]"] on(3) by (cases "f 2") (auto simp: MaxFrame_def)
  moreover have "[0..<length ?dgs] = [0, 1, 2]" by (simp add: upt_rec)
  then have "out = List.map_filter f [0, 1, 2]" using out by (simp only:)
  ultimately have "map snd out = [''a'', ''b''] \<and> map (Decode \<circ> fst) out = [Inr ([9], []), Inr ([8], [])]"
    by (simp add: map_filter_simps)
  then show ?thesis using \<open>s' = 2\<close> unfolding o by simp
qed

end
