(* ===== verification/Broadcast.thy ===== *)
theory Broadcast
  imports Dispatcher Framing
begin

text \<open>
  \<open>internal/networking/broadcast.go\<close>: the subscription table of a race and the goroutine that
  sends each of the race's snapshots to every subscriber. \<open>marshal\<close> is \<open>proto.Marshal\<close> of the
  snapshot's message, which has the same fields. A datagram that is written is recorded with its address; the
  errors of \<open>WriteToUDP\<close> are only logged.
\<close>

subsection \<open>Subscriptions\<close>

record Subscription =
  sub_PlayerID :: uuid
  sub_Addr :: "UDPAddr option"

record Subscriptions =
  subs_by :: "(uuid, Subscription) gomap"
  subs_all :: "Subscription list"

definition NewSubscriptions :: Subscriptions where
  "NewSubscriptions = \<lparr>subs_by = [], subs_all = []\<rparr>"

definition Add :: "uuid \<Rightarrow> UDPAddr option \<Rightarrow> Subscriptions \<Rightarrow> bool \<times> Subscriptions" where
  "Add playerID addr s =
     (case gm_get (subs_by s) playerID of
        Some _ \<Rightarrow> (False, s)
      | None \<Rightarrow>
          let sub = \<lparr>sub_PlayerID = playerID, sub_Addr = addr\<rparr>
          in (True, s\<lparr>subs_by := gm_put playerID sub (subs_by s), subs_all := subs_all s @ [sub]\<rparr>))"

definition Remove :: "uuid \<Rightarrow> Subscriptions \<Rightarrow> Subscriptions" where
  "Remove playerID s =
     s\<lparr>subs_by := gm_del playerID (subs_by s),
       subs_all := filter (\<lambda>sub. sub_PlayerID sub \<noteq> playerID) (subs_all s)\<rparr>"

definition AllSubs :: "Subscriptions \<Rightarrow> Subscription list" where
  "AllSubs s = subs_all s"

subsection \<open>The broadcaster\<close>

type_synonym writes = "(bytes \<times> UDPAddr) list"

definition publish :: "(WorldSnapshot \<Rightarrow> bytes option) \<Rightarrow> Subscriptions \<Rightarrow> WorldSnapshot \<Rightarrow> writes" where
  "publish marshal subs snap =
     (case marshal snap of
        None \<Rightarrow> []
      | Some payload \<Rightarrow>
          (case framingEncode payload of
             None \<Rightarrow> []
           | Some framed \<Rightarrow>
               List.map_filter (\<lambda>sub. map_option (\<lambda>a. (framed, a)) (sub_Addr sub)) (AllSubs subs)))"

record Broadcaster =
  br_race :: raceptr
  br_subs :: Subscriptions
  br_writes :: writes
  br_returned :: bool

definition NewBroadcaster :: "raceptr \<Rightarrow> Subscriptions \<Rightarrow> Broadcaster" where
  "NewBroadcaster r subs = \<lparr>br_race = r, br_subs = subs, br_writes = [], br_returned = False\<rparr>"

text \<open>
  One pass of the loop of \<open>Run\<close>: \<open>select\<close> takes one of the arms that are ready, or
  waits. Nothing closes \<open>SnapshotOut\<close>.
\<close>

datatype arm = ArmCtx | ArmDone | ArmSnapshot

definition broadcast_step ::
    "(WorldSnapshot \<Rightarrow> bytes option) \<Rightarrow> arm \<Rightarrow> bool \<Rightarrow> Race \<Rightarrow> Broadcaster \<Rightarrow> Race \<times> Broadcaster" where
  "broadcast_step marshal arm ctxDone r b =
     (if br_returned b then (r, b)
      else case arm of
        ArmCtx \<Rightarrow> (r, if ctxDone then b\<lparr>br_returned := True\<rparr> else b)
      | ArmDone \<Rightarrow> (r, if DoneClosed r then b\<lparr>br_returned := True\<rparr> else b)
      | ArmSnapshot \<Rightarrow>
          (case ch_recv (SnapshotOut r) of
             None \<Rightarrow> (r, b)
           | Some (snap, c) \<Rightarrow>
               (r\<lparr>SnapshotOut := c\<rparr>,
                b\<lparr>br_writes := br_writes b @ publish marshal (br_subs b) snap\<rparr>)))"

subsection \<open>The contract of a subscription table\<close>

text \<open>A table of subscribers: a map from players to addresses that also lists its entries once each.\<close>

locale subscriber_table =
  fixes add :: "'k \<Rightarrow> 'a \<Rightarrow> 't \<Rightarrow> bool \<times> 't"
    and remove :: "'k \<Rightarrow> 't \<Rightarrow> 't"
    and listing :: "'t \<Rightarrow> ('k \<times> 'a) list"
    and empty :: 't
    and wf :: "'t \<Rightarrow> bool"
  assumes wf_empty: "wf empty"
    and wf_add: "wf t \<Longrightarrow> wf (snd (add k a t))"
    and wf_remove: "wf t \<Longrightarrow> wf (remove k t)"
    and listing_distinct: "wf t \<Longrightarrow> distinct (map fst (listing t))"
    and listing_empty: "listing empty = []"
    and listing_add: "wf t \<Longrightarrow> add k a t =
      (if k \<in> fst ` set (listing t) then (False, t) else (True, snd (add k a t))) \<and>
      listing (snd (add k a t)) = (if k \<in> fst ` set (listing t) then listing t else listing t @ [(k, a)])"
    and listing_remove: "wf t \<Longrightarrow> listing (remove k t) = filter (\<lambda>x. fst x \<noteq> k) (listing t)"
begin

lemma add_keeps_first:
  "wf t \<Longrightarrow> (k, a) \<in> set (listing t) \<Longrightarrow> (k, b) \<in> set (listing (snd (add k' a' t))) \<Longrightarrow> b = a"
  using listing_distinct [of t] listing_add [of t k' a']
  by (force simp: eq_key_imp_eq_value split: if_splits)

lemma add_after_remove:
  assumes "wf t"
  shows "fst (add k a (remove k t))"
proof -
  have "k \<notin> fst ` set (listing (remove k t))" by (auto simp: listing_remove [OF assms])
  then show ?thesis using listing_add [OF wf_remove [OF assms, of k], of k a] by (auto simp: prod_eq_iff)
qed

lemma adds_listed:
  assumes "wf t"
  shows "wf (foldl (\<lambda>t (k, a). snd (add k a t)) t xs) \<and>
    fst ` set (listing (foldl (\<lambda>t (k, a). snd (add k a t)) t xs)) = fst ` set (listing t) \<union> fst ` set xs \<and>
    (\<forall>x \<in> set (listing t). x \<in> set (listing (foldl (\<lambda>t (k, a). snd (add k a t)) t xs)))"
  using assms
proof (induction xs arbitrary: t)
  case (Cons x xs)
  obtain k a where x: "x = (k, a)" by (cases x)
  have "fst ` set (listing (snd (add k a t))) = insert k (fst ` set (listing t))"
    "set (listing t) \<subseteq> set (listing (snd (add k a t)))"
    using listing_add [OF Cons.prems, of k a] by auto
  then show ?case using Cons.IH [OF wf_add [OF Cons.prems, of k a]] by (auto simp: x)
qed simp

lemma adds_from:
  assumes "wf t" and "(k, a) \<in> set (listing (foldl (\<lambda>t (k, a). snd (add k a t)) t xs))"
  shows "(k, a) \<in> set (listing t) \<or> (k, a) \<in> set xs"
  using assms
proof (induction xs arbitrary: t)
  case (Cons x xs)
  obtain k' a' where x: "x = (k', a')" by (cases x)
  have "(k, a) \<in> set (listing (snd (add k' a' t))) \<or> (k, a) \<in> set xs"
    using Cons.IH [OF wf_add [OF Cons.prems(1), of k' a']] Cons.prems(2) by (simp add: x)
  then show ?case using listing_add [OF Cons.prems(1), of k' a'] by (auto simp: x split: if_splits)
qed simp

end

text \<open>The table's map and list agree.\<close>

definition subs_wf :: "Subscriptions \<Rightarrow> bool" where
  "subs_wf s \<longleftrightarrow> gm_wf (subs_by s) \<and> distinct (map sub_PlayerID (subs_all s)) \<and>
     (\<forall>pid. gm_get (subs_by s) pid \<noteq> None \<longleftrightarrow> pid \<in> set (map sub_PlayerID (subs_all s)))"

definition entries :: "Subscriptions \<Rightarrow> (uuid \<times> UDPAddr option) list" where
  "entries s = map (\<lambda>sub. (sub_PlayerID sub, sub_Addr sub)) (AllSubs s)"

lemma entries_ids: "fst ` set (entries s) = set (map sub_PlayerID (subs_all s))"
  by (simp add: entries_def AllSubs_def image_image)

interpretation subs: subscriber_table Add Remove entries NewSubscriptions subs_wf
proof unfold_locales
  fix s k a
  assume wf: "subs_wf s"
  have known: "gm_get (subs_by s) k \<noteq> None \<longleftrightarrow> k \<in> fst ` set (entries s)" for k
    using wf by (simp add: entries_ids subs_wf_def)
  show "Add k a s = (if k \<in> fst ` set (entries s) then (False, s) else (True, snd (Add k a s))) \<and>
      entries (snd (Add k a s)) = (if k \<in> fst ` set (entries s) then entries s else entries s @ [(k, a)])"
    using known [of k] by (cases "gm_get (subs_by s) k") (simp_all add: Add_def Let_def entries_def AllSubs_def)
  show "subs_wf (snd (Add k a s))"
  proof (cases "gm_get (subs_by s) k")
    case None
    then have "k \<notin> set (map sub_PlayerID (subs_all s))" using wf unfolding subs_wf_def by blast
    then show ?thesis using wf None by (simp add: Add_def Let_def subs_wf_def gm.get_put)
  qed (use wf in \<open>simp add: Add_def\<close>)
  show "subs_wf (Remove k s)"
    using wf by (auto simp: Remove_def subs_wf_def gm.get_del distinct_map_filter)
  show "distinct (map fst (entries s))" using wf by (simp add: subs_wf_def entries_def AllSubs_def o_def)
qed (simp_all add: NewSubscriptions_def subs_wf_def entries_def AllSubs_def Remove_def filter_map o_def)

subsection \<open>What the broadcaster sends\<close>

definition with_addr :: "Subscriptions \<Rightarrow> (uuid \<times> UDPAddr) list" where
  "with_addr s = List.map_filter (\<lambda>(k, a). map_option (Pair k) a) (entries s)"

lemma publish_eq:
  "publish marshal s snap =
     (case marshal snap of
        None \<Rightarrow> []
      | Some payload \<Rightarrow>
          (case Encode payload of Inl _ \<Rightarrow> [] | Inr f \<Rightarrow> map (\<lambda>(_, a). (f, a)) (with_addr s)))"
proof -
  have "List.map_filter (\<lambda>sub. map_option (Pair f) (sub_Addr sub)) xs =
      map (Pair f \<circ> snd) (List.map_filter (\<lambda>(k, a). map_option (Pair k) a)
        (map (\<lambda>sub. (sub_PlayerID sub, sub_Addr sub)) xs))" for f :: bytes and xs
    by (induction xs) (auto simp: map_filter_simps split: option.split)
  note eq = this
  show ?thesis
    by (simp add: publish_def framingEncode_is_Encode with_addr_def entries_def eq case_prod_unfold comp_def
        split: option.split sum.split)
qed

lemma with_addr_distinct:
  assumes "subs_wf s"
  shows "distinct (map fst (with_addr s))"
proof -
  let ?f = "List.map_filter (\<lambda>(k, a). map_option (Pair k) a) :: (uuid \<times> UDPAddr option) list \<Rightarrow> _"
  have ids: "x \<in> set (?f xs) \<Longrightarrow> fst x \<in> fst ` set xs" for x xs
    by (induction xs) (auto simp: map_filter_simps split: option.splits)
  have "distinct (map fst xs) \<Longrightarrow> distinct (map fst (?f xs))" for xs
  proof (induction xs)
    case (Cons x xs)
    then have "fst x \<notin> fst ` set (?f xs)" using ids by fastforce
    then show ?case using Cons by (cases x) (auto simp: map_filter_simps split: option.split)
  qed (simp add: map_filter_simps)
  then show ?thesis using subs.listing_distinct [OF assms] by (simp add: with_addr_def)
qed

text \<open>C33. Each snapshot the broadcaster takes goes, in one well-formed frame, to every subscriber that has an address, in the order in which they
  subscribed and to none of them twice; the snapshot is the oldest one waiting, and taking it changes nothing else of the race.\<close>

theorem snapshot_reaches_subscribers:
  assumes "subs_wf (br_subs b)" and "\<not> br_returned b" and "ch_recv (SnapshotOut r) = Some (snap, c)"
    and "marshal snap = Some payload" and "length payload \<le> MaxFrame"
    and "broadcast_step marshal ArmSnapshot ctxDone r b = (r', b')"
  shows "r' = r\<lparr>SnapshotOut := c\<rparr> \<and> snap # ch_buf c = ch_buf (SnapshotOut r) \<and>
    (\<exists>f. br_writes b' = br_writes b @ map (\<lambda>(_, a). (f, a)) (with_addr (br_subs b)) \<and>
       Decode f = Inr (payload, [])) \<and>
    distinct (map fst (with_addr (br_subs b))) \<and> br_subs b' = br_subs b"
proof -
  obtain f where f: "Encode payload = Inr f" using assms(5) by (simp add: Encode_Inr)
  have "Decode f = Inr (payload, [])" using Decode_Encode [OF f, of "[]"] by simp
  moreover have "r' = r\<lparr>SnapshotOut := c\<rparr>" "br_subs b' = br_subs b"
    "br_writes b' = br_writes b @ map (\<lambda>(_, a). (f, a)) (with_addr (br_subs b))"
    using assms(2,3,4,6) f by (auto simp: broadcast_step_def publish_eq)
  moreover have "snap # ch_buf c = ch_buf (SnapshotOut r)"
    using assms(3) by (auto simp: ch_recv_def split: list.splits)
  ultimately show ?thesis using with_addr_distinct [OF assms(1)] by blast
qed

definition demo_addr :: UDPAddr where
  "demo_addr = \<lparr>ua_IP = [127, 0, 0, 1], ua_Port = 9000, ua_Zone = []\<rparr>"

definition demo_broadcaster :: Broadcaster where
  "demo_broadcaster = NewBroadcaster 0 (snd (Add 9 (Some demo_addr) NewSubscriptions))"

definition demo_snapshot :: WorldSnapshot where
  "demo_snapshot = \<lparr>ws_Tick = 1, ws_Cars = []\<rparr>"

definition demo_emitting :: Race where
  "demo_emitting = (New 77 \<lparr>trackID = 3, trackName = ''t'', Waypoints = [], Spawns = []\<rparr> 30 1 4 50)\<lparr>SnapshotOut := ch_send demo_snapshot (ch_make 4)\<rparr>"

theorem snapshot_reaches_subscribers_witness:
  "\<exists>f. br_writes (snd (broadcast_step (\<lambda>_. Some [7]) ArmSnapshot False demo_emitting demo_broadcaster)) = [(f, demo_addr)]
     \<and> Decode f = Inr ([7], [])"
proof -
  have wf: "subs_wf (br_subs demo_broadcaster)"
    by (simp add: demo_broadcaster_def NewBroadcaster_def subs.wf_add subs.wf_empty)
  have r: "ch_recv (SnapshotOut demo_emitting) = Some (demo_snapshot, ch_make 4)" by code_simp
  have w: "\<not> br_returned demo_broadcaster" "br_writes demo_broadcaster = []"
    "with_addr (br_subs demo_broadcaster) = [(9, demo_addr)]"
    by code_simp+
  show ?thesis
    using snapshot_reaches_subscribers [OF wf w(1) r, of "\<lambda>_. Some [7]" "[7]", OF refl _ prod.collapse [symmetric], of False] w
    by (simp add: MaxFrame_def)
qed

end
