(* ===== verification/Results.thy ===== *)
theory Results
  imports RaceLoop
begin

text \<open>
  \<open>internal/results/writer.go\<close> and \<open>persistRace\<close> of \<open>cmd/game-server/main.go\<close>: storing the
  standings of a finished race. The tables are maps from their keys to their rows, with the foreign keys
  and the \<open>INT\<close> columns of \<open>migrations/000001_init.up.sql\<close>. The \<open>created_at\<close> column of the
  results, which only an insert writes, is a map of its own. A statement can fail in the database; a failed
  commit may or may not have taken effect.
\<close>

subsection \<open>Tables\<close>

record RaceRow =
  row_track :: uuid
  row_started :: gotime
  row_finished :: gotime

record RacePlayerRow =
  row_finish_position :: int
  row_finished_at :: gotime

record ResultRow =
  row_position :: int
  row_total_time_ms :: int
  row_best_lap_ms :: "int option"

record tables =
  t_tracks :: "(uuid, string) gomap"
  t_players :: "(uuid, string) gomap"
  t_races :: "(uuid, RaceRow) gomap"
  t_race_players :: "(uuid \<times> uuid, RacePlayerRow) gomap"
  t_race_results :: "(uuid \<times> uuid, ResultRow) gomap"
  t_created :: "(uuid \<times> uuid, gotime) gomap"

text \<open>A \<open>TIMESTAMPTZ\<close> keeps microseconds; an \<open>INT\<close> has 32 bits.\<close>

definition pg_time :: "gotime \<Rightarrow> gotime" where
  "pg_time t = t div 1000 * 1000"

definition int4 :: "int \<Rightarrow> bool" where
  "int4 n \<longleftrightarrow> - (2 ^ 31) \<le> n \<and> n < 2 ^ 31"

definition upsert_race :: "uuid \<Rightarrow> uuid \<Rightarrow> gotime \<Rightarrow> gotime \<Rightarrow> tables \<Rightarrow> string + tables" where
  "upsert_race rid track start finished db =
     (case gm_get (t_races db) rid of
        Some row \<Rightarrow> Inr (db\<lparr>t_races := gm_put rid (row\<lparr>row_finished := pg_time finished\<rparr>) (t_races db)\<rparr>)
      | None \<Rightarrow>
          if gm_get (t_tracks db) track \<noteq> None
          then Inr (db\<lparr>t_races := gm_put rid \<lparr>row_track = track, row_started = pg_time start,
                     row_finished = pg_time finished\<rparr> (t_races db)\<rparr>)
          else Inl ''violates foreign key constraint races_track_id_fkey'')"

definition upsert_race_player :: "uuid \<Rightarrow> uuid \<Rightarrow> int \<Rightarrow> gotime \<Rightarrow> tables \<Rightarrow> string + tables" where
  "upsert_race_player rid pid position finished db =
     (if \<not> int4 position then Inl ''is greater than maximum value for int4''
      else if gm_get (t_race_players db) (rid, pid) = None \<and> gm_get (t_players db) pid = None
      then Inl ''violates foreign key constraint race_players_player_id_fkey''
      else Inr (db\<lparr>t_race_players := gm_put (rid, pid)
        \<lparr>row_finish_position = position, row_finished_at = pg_time finished\<rparr> (t_race_players db)\<rparr>))"

definition upsert_race_result ::
    "gotime \<Rightarrow> uuid \<Rightarrow> uuid \<Rightarrow> int \<Rightarrow> int \<Rightarrow> int \<Rightarrow> tables \<Rightarrow> string + tables" where
  "upsert_race_result now rid pid position totalMs bestMs db =
     (if \<not> int4 position \<or> \<not> int4 totalMs \<or> \<not> int4 bestMs then Inl ''is greater than maximum value for int4''
      else if gm_get (t_race_results db) (rid, pid) = None \<and> gm_get (t_players db) pid = None
      then Inl ''violates foreign key constraint race_results_player_id_fkey''
      else Inr (db\<lparr>t_race_results := gm_put (rid, pid)
        \<lparr>row_position = position, row_total_time_ms = totalMs,
         row_best_lap_ms = (if bestMs = 0 then None else Some bestMs)\<rparr> (t_race_results db),
        t_created := (if gm_get (t_race_results db) (rid, pid) = None
                      then gm_put (rid, pid) (pg_time now) (t_created db) else t_created db)\<rparr>))"

subsection \<open>The writer\<close>

record Entry =
  en_PlayerID :: uuid
  en_Position :: int
  en_TotalTimeMs :: int
  en_BestLapMs :: int

record WriteRequest =
  wr_RaceID :: uuid
  wr_TrackID :: uuid
  wr_StartedAt :: gotime
  wr_FinishedAt :: gotime
  wr_Results :: "Entry list"

datatype stmt = BeginTx | UpsertRace | UpsertPlayer nat | UpsertResult nat | CommitTx

text \<open>
  What a call meets: which statements fail and with which message, whether a failed commit
  has taken effect all the same, the database's clock at the start of the transaction, and the clock
  readings that replace a zero start and finish time.
\<close>

record db_env =
  de_fault :: "stmt \<Rightarrow> string option"
  de_landed :: bool
  de_now_tx :: gotime
  de_now_started :: gotime
  de_now_finished :: gotime

definition exec_stmt :: "db_env \<Rightarrow> stmt \<Rightarrow> (tables \<Rightarrow> string + tables) \<Rightarrow> tables \<Rightarrow> string + tables" where
  "exec_stmt e st f db = (case de_fault e st of Some err \<Rightarrow> Inl err | None \<Rightarrow> f db)"

text \<open>The loop over the entries, inside the transaction; \<open>us\<close> is \<open>uuid.UUID.String\<close>.\<close>

fun persist_entries ::
    "(uuid \<Rightarrow> string) \<Rightarrow> db_env \<Rightarrow> uuid \<Rightarrow> gotime \<Rightarrow> nat \<Rightarrow> Entry list \<Rightarrow> tables \<Rightarrow> string + tables" where
  "persist_entries us e rid finishedAt i [] db = Inr db"
| "persist_entries us e rid finishedAt i (r # rs) db =
     (if en_PlayerID r = uuid_Nil then persist_entries us e rid finishedAt (Suc i) rs db
      else case exec_stmt e (UpsertPlayer i)
                  (upsert_race_player rid (en_PlayerID r) (en_Position r) finishedAt) db of
        Inl err \<Rightarrow> Inl (''upsert race_players ('' @ us (en_PlayerID r) @ ''): '' @ err)
      | Inr db1 \<Rightarrow>
          (case exec_stmt e (UpsertResult i)
                  (upsert_race_result (de_now_tx e) rid (en_PlayerID r) (en_Position r) (en_TotalTimeMs r) (en_BestLapMs r)) db1 of
             Inl err \<Rightarrow> Inl (''upsert race_results ('' @ us (en_PlayerID r) @ ''): '' @ err)
           | Inr db2 \<Rightarrow> persist_entries us e rid finishedAt (Suc i) rs db2))"

text \<open>The deferred rollback undoes everything the transaction did unless it was committed.\<close>

definition persist_tx ::
    "(uuid \<Rightarrow> string) \<Rightarrow> db_env \<Rightarrow> WriteRequest \<Rightarrow> gotime \<Rightarrow> gotime \<Rightarrow> tables \<Rightarrow> string option \<times> tables" where
  "persist_tx us e req startedAt finishedAt db =
     (case exec_stmt e UpsertRace (upsert_race (wr_RaceID req) (wr_TrackID req) startedAt finishedAt) db of
        Inl err \<Rightarrow> (Some (''upsert races: '' @ err), db)
      | Inr db1 \<Rightarrow>
          (case persist_entries us e (wr_RaceID req) finishedAt 0 (wr_Results req) db1 of
             Inl err \<Rightarrow> (Some err, db)
           | Inr db2 \<Rightarrow>
               (case de_fault e CommitTx of
                  Some err \<Rightarrow> (Some (''commit: '' @ err), if de_landed e then db2 else db)
                | None \<Rightarrow> (None, db2))))"

definition PersistRaceFinish ::
    "(uuid \<Rightarrow> string) \<Rightarrow> db_env \<Rightarrow> WriteRequest \<Rightarrow> tables \<Rightarrow> string option \<times> tables" where
  "PersistRaceFinish us e req db =
     (if wr_RaceID req = uuid_Nil then (Some ''results: race_id required'', db)
      else if wr_TrackID req = uuid_Nil then (Some ''results: track_id required'', db)
      else if wr_Results req = [] then (Some ''results: empty results'', db)
      else case de_fault e BeginTx of
        Some err \<Rightarrow> (Some (''begin tx: '' @ err), db)
      | None \<Rightarrow>
          persist_tx us e req
            (if wr_StartedAt req = zero_time then de_now_started e else wr_StartedAt req)
            (if wr_FinishedAt req = zero_time then de_now_finished e else wr_FinishedAt req) db)"

text \<open>
  One attempt and, unless the context is done before a second has passed, one more:
  \<open>e\<close> and \<open>e'\<close> are what the two attempts meet. The errors are only logged.
\<close>

definition PersistWithRetry ::
    "(uuid \<Rightarrow> string) \<Rightarrow> db_env \<Rightarrow> db_env \<Rightarrow> bool \<Rightarrow> WriteRequest \<Rightarrow> tables \<Rightarrow> tables" where
  "PersistWithRetry us e e' cancelled req db =
     (case PersistRaceFinish us e req db of
        (None, db1) \<Rightarrow> db1
      | (Some _, db1) \<Rightarrow> if cancelled then db1 else snd (PersistRaceFinish us e' req db1))"

definition entry_of :: "RaceResult \<Rightarrow> Entry" where
  "entry_of e = \<lparr>en_PlayerID = rr_PlayerID e, en_Position = int (rr_Position e),
     en_TotalTimeMs = rr_TotalTimeMs e, en_BestLapMs = rr_BestLapMs e\<rparr>"

definition write_request :: "Race \<Rightarrow> WriteRequest" where
  "write_request r =
     \<lparr>wr_RaceID = raceID r, wr_TrackID = trackID (raceTrack r), wr_StartedAt = StartRealTime r,
      wr_FinishedAt = RaceFinishTime r, wr_Results = map entry_of (FinalResults r)\<rparr>"

text \<open>The callback the manager hands to every race as its \<open>OnFinish\<close>.\<close>

definition persistRace :: "(uuid \<Rightarrow> string) \<Rightarrow> db_env \<Rightarrow> db_env \<Rightarrow> bool \<Rightarrow> Race \<Rightarrow> tables \<Rightarrow> tables" where
  "persistRace us e e' cancelled r db = PersistWithRetry us e e' cancelled (write_request r) db"

subsection \<open>What a stored result is\<close>

text \<open>The rows of the entries that have a player id; of two entries of one player the later one counts.\<close>

definition result_rows :: "uuid \<Rightarrow> Entry list \<Rightarrow> uuid \<times> uuid \<rightharpoonup> ResultRow" where
  "result_rows rid es = map_of (rev (map (\<lambda>r. ((rid, en_PlayerID r),
     \<lparr>row_position = en_Position r, row_total_time_ms = en_TotalTimeMs r,
      row_best_lap_ms = (if en_BestLapMs r = 0 then None else Some (en_BestLapMs r))\<rparr>))
     (filter (\<lambda>r. en_PlayerID r \<noteq> uuid_Nil) es)))"

definition player_rows :: "uuid \<Rightarrow> gotime \<Rightarrow> Entry list \<Rightarrow> uuid \<times> uuid \<rightharpoonup> RacePlayerRow" where
  "player_rows rid finished es = map_of (rev (map (\<lambda>r. ((rid, en_PlayerID r),
     \<lparr>row_finish_position = en_Position r, row_finished_at = pg_time finished\<rparr>))
     (filter (\<lambda>r. en_PlayerID r \<noteq> uuid_Nil) es)))"

text \<open>
  The abstract effect of storing a request: the race's row, and for every entry its two rows;
  everything else, and the \<open>created_at\<close> of a row that was there, is as before.
\<close>

definition stored :: "WriteRequest \<Rightarrow> tables \<Rightarrow> tables \<Rightarrow> bool" where
  "stored req db db' \<longleftrightarrow>
     (\<exists>start finished.
        (wr_StartedAt req \<noteq> zero_time \<longrightarrow> start = wr_StartedAt req) \<and>
        (wr_FinishedAt req \<noteq> zero_time \<longrightarrow> finished = wr_FinishedAt req) \<and>
        t_tracks db' = t_tracks db \<and> t_players db' = t_players db \<and>
        gm_get (t_races db') = (gm_get (t_races db))(wr_RaceID req \<mapsto>
          (case gm_get (t_races db) (wr_RaceID req) of
             Some row \<Rightarrow> row\<lparr>row_finished := pg_time finished\<rparr>
           | None \<Rightarrow> \<lparr>row_track = wr_TrackID req, row_started = pg_time start,
                     row_finished = pg_time finished\<rparr>)) \<and>
        gm_get (t_race_players db') = gm_get (t_race_players db) ++ player_rows (wr_RaceID req) finished (wr_Results req) \<and>
        gm_get (t_race_results db') = gm_get (t_race_results db) ++ result_rows (wr_RaceID req) (wr_Results req) \<and>
        (\<forall>k. gm_get (t_race_results db) k \<noteq> None \<longrightarrow> gm_get (t_created db') k = gm_get (t_created db) k))"

lemma rows_Cons:
  "result_rows rid (r # es) =
     (if en_PlayerID r = uuid_Nil then result_rows rid es
      else [(rid, en_PlayerID r) \<mapsto> \<lparr>row_position = en_Position r, row_total_time_ms = en_TotalTimeMs r,
        row_best_lap_ms = (if en_BestLapMs r = 0 then None else Some (en_BestLapMs r))\<rparr>] ++ result_rows rid es)"
  "player_rows rid finished (r # es) =
     (if en_PlayerID r = uuid_Nil then player_rows rid finished es
      else [(rid, en_PlayerID r) \<mapsto> \<lparr>row_finish_position = en_Position r, row_finished_at = pg_time finished\<rparr>]
        ++ player_rows rid finished es)"
  by (simp_all add: result_rows_def player_rows_def)

lemma persist_entries_effect:
  assumes "persist_entries us e rid finished i es db = Inr db'"
  shows "t_tracks db' = t_tracks db \<and> t_players db' = t_players db \<and> t_races db' = t_races db \<and>
    gm_get (t_race_players db') = gm_get (t_race_players db) ++ player_rows rid finished es \<and>
    gm_get (t_race_results db') = gm_get (t_race_results db) ++ result_rows rid es \<and>
    (\<forall>k. gm_get (t_race_results db) k \<noteq> None \<longrightarrow> gm_get (t_created db') k = gm_get (t_created db) k)"
  using assms
proof (induction us e rid finished i es db rule: persist_entries.induct)
  case (1 us e rid finishedAt i db)
  then show ?case by (simp add: result_rows_def player_rows_def)
next
  case (2 us e rid finishedAt i r rs db)
  show ?case
  proof (cases "en_PlayerID r = uuid_Nil")
    case True
    then show ?thesis using 2 by (simp add: rows_Cons)
  next
    case False
    obtain db1 db2 where
      p: "exec_stmt e (UpsertPlayer i) (upsert_race_player rid (en_PlayerID r) (en_Position r) finishedAt) db = Inr db1"
      and q: "exec_stmt e (UpsertResult i) (upsert_race_result (de_now_tx e) rid (en_PlayerID r) (en_Position r)
          (en_TotalTimeMs r) (en_BestLapMs r)) db1 = Inr db2"
      and rest: "persist_entries us e rid finishedAt (Suc i) rs db2 = Inr db'"
      using 2(3) False by (auto split: sum.splits)
    have ih: "t_tracks db' = t_tracks db2 \<and> t_players db' = t_players db2 \<and> t_races db' = t_races db2 \<and>
      gm_get (t_race_players db') = gm_get (t_race_players db2) ++ player_rows rid finishedAt rs \<and>
      gm_get (t_race_results db') = gm_get (t_race_results db2) ++ result_rows rid rs \<and>
      (\<forall>k. gm_get (t_race_results db2) k \<noteq> None \<longrightarrow> gm_get (t_created db') k = gm_get (t_created db2) k)"
      by (rule 2(2) [OF False p q rest])
    then show ?thesis using p q False
      by (auto simp: exec_stmt_def upsert_race_player_def upsert_race_result_def rows_Cons gm.get_put
          map_add_assoc [symmetric] split: option.splits if_splits)
  qed
qed

lemma upsert_race_effect:
  assumes "exec_stmt e UpsertRace (upsert_race rid track start finished) db = Inr db'"
  shows "t_tracks db' = t_tracks db \<and> t_players db' = t_players db \<and>
    t_race_players db' = t_race_players db \<and> t_race_results db' = t_race_results db \<and> t_created db' = t_created db \<and>
    gm_get (t_races db') = (gm_get (t_races db))(rid \<mapsto>
      (case gm_get (t_races db) rid of
         Some row \<Rightarrow> row\<lparr>row_finished := pg_time finished\<rparr>
       | None \<Rightarrow> \<lparr>row_track = track, row_started = pg_time start, row_finished = pg_time finished\<rparr>))"
  using assms by (auto simp: exec_stmt_def upsert_race_def gm.get_put split: option.splits if_splits)

lemma persist_tx_stored:
  assumes "persist_tx us e req start finished db = (res, db')" and "db' \<noteq> db \<or> res = None"
    and "wr_StartedAt req \<noteq> 0 \<longrightarrow> start = wr_StartedAt req"
    and "wr_FinishedAt req \<noteq> 0 \<longrightarrow> finished = wr_FinishedAt req"
  shows "stored req db db'"
proof -
  obtain db1 where u: "exec_stmt e UpsertRace (upsert_race (wr_RaceID req) (wr_TrackID req) start finished) db = Inr db1"
    and p: "persist_entries us e (wr_RaceID req) finished 0 (wr_Results req) db1 = Inr db'"
    using assms(1,2) by (auto simp: persist_tx_def split: option.splits sum.splits if_splits)
  show ?thesis
    unfolding stored_def using assms(3,4)
    by (intro exI [of _ start] exI [of _ finished])
      (simp add: upsert_race_effect [OF u] persist_entries_effect [OF p])
qed

lemma PersistRaceFinish_cases:
  assumes "PersistRaceFinish us e req db = (res, db')"
  shows "res = None \<Longrightarrow> stored req db db'" and "db' = db \<or> stored req db db'"
proof -
  have "stored req db db'" if *: "db' \<noteq> db \<or> res = None"
  proof (rule persist_tx_stored [OF _ *])
    show "persist_tx us e req (if wr_StartedAt req = 0 then de_now_started e else wr_StartedAt req)
            (if wr_FinishedAt req = 0 then de_now_finished e else wr_FinishedAt req) db = (res, db')"
      using assms * by (simp add: PersistRaceFinish_def split: option.splits if_split_asm)
  qed simp_all
  then show "res = None \<Longrightarrow> stored req db db'" and "db' = db \<or> stored req db db'" by blast+
qed

subsection \<open>A writer whose failures leave all or nothing\<close>

text \<open>
  The contract the game server's callback relies on: a write that reports success has been done, one that
  reports an error has been done completely or not at all, and doing it twice is doing it once.
\<close>

locale atomic_writer =
  fixes persist :: "'e \<Rightarrow> 'q \<Rightarrow> 'd \<Rightarrow> string option \<times> 'd"
    and written :: "'q \<Rightarrow> 'd \<Rightarrow> 'd \<Rightarrow> bool"
  assumes success_writes: "persist e q d = (None, d') \<Longrightarrow> written q d d'"
    and all_or_nothing: "persist e q d = (res, d') \<Longrightarrow> d' = d \<or> written q d d'"
    and idempotent: "written q d d' \<Longrightarrow> written q d' d'' \<Longrightarrow> written q d d''"
begin

definition retried :: "'e \<Rightarrow> 'e \<Rightarrow> bool \<Rightarrow> 'q \<Rightarrow> 'd \<Rightarrow> 'd" where
  "retried e e' cancelled q d =
     (case persist e q d of
        (None, d1) \<Rightarrow> d1
      | (Some _, d1) \<Rightarrow> if cancelled then d1 else snd (persist e' q d1))"

lemma retried_all_or_nothing: "retried e e' cancelled q d = d \<or> written q d (retried e e' cancelled q d)"
proof -
  obtain res d1 where p: "persist e q d = (res, d1)" by fastforce
  obtain res' d2 where p': "persist e' q d1 = (res', d2)" by fastforce
  show ?thesis
    using all_or_nothing [OF p] all_or_nothing [OF p'] success_writes p idempotent [of q d d1 d2]
    by (cases res) (auto simp: retried_def p p')
qed

lemma retried_success:
  assumes "fst (persist e q d) = None \<or> \<not> cancelled \<and> fst (persist e' q (snd (persist e q d))) = None"
  shows "written q d (retried e e' cancelled q d)"
proof -
  obtain res d1 where p: "persist e q d = (res, d1)" by fastforce
  obtain res' d2 where p': "persist e' q d1 = (res', d2)" by fastforce
  show ?thesis
    using assms all_or_nothing [OF p] success_writes [of e q d d1] success_writes [of e' q d1 d2]
      idempotent [of q d d1 d2] p
    by (cases res) (auto simp: retried_def p p')
qed

end

lemma dom_player_rows: "dom (player_rows rid f es) = dom (player_rows rid f' es)"
  by (simp add: player_rows_def dom_map_of_conv_image_fst image_comp o_def)

lemma map_add_absorb: "dom g \<subseteq> dom h \<Longrightarrow> f ++ g ++ h = f ++ h"
  by (rule ext) (auto simp: map_add_def split: option.split)

lemma stored_twice:
  assumes "stored req db db1" and "stored req db1 db2"
  shows "stored req db db2"
proof -
  obtain s f s' f' where w: "wr_StartedAt req \<noteq> 0 \<longrightarrow> s = wr_StartedAt req"
      "wr_FinishedAt req \<noteq> 0 \<longrightarrow> f' = wr_FinishedAt req"
    and races: "gm_get (t_races db1) = (gm_get (t_races db))(wr_RaceID req \<mapsto>
          (case gm_get (t_races db) (wr_RaceID req) of
             Some row \<Rightarrow> row\<lparr>row_finished := pg_time f\<rparr>
           | None \<Rightarrow> \<lparr>row_track = wr_TrackID req, row_started = pg_time s, row_finished = pg_time f\<rparr>))"
      "gm_get (t_races db2) = (gm_get (t_races db1))(wr_RaceID req \<mapsto>
          (case gm_get (t_races db1) (wr_RaceID req) of
             Some row \<Rightarrow> row\<lparr>row_finished := pg_time f'\<rparr>
           | None \<Rightarrow> \<lparr>row_track = wr_TrackID req, row_started = pg_time s', row_finished = pg_time f'\<rparr>))"
    and pl: "gm_get (t_race_players db1) = gm_get (t_race_players db) ++ player_rows (wr_RaceID req) f (wr_Results req)"
      "gm_get (t_race_players db2) = gm_get (t_race_players db1) ++ player_rows (wr_RaceID req) f' (wr_Results req)"
    and rs: "gm_get (t_race_results db1) = gm_get (t_race_results db) ++ result_rows (wr_RaceID req) (wr_Results req)"
      "gm_get (t_race_results db2) = gm_get (t_race_results db1) ++ result_rows (wr_RaceID req) (wr_Results req)"
    and same: "t_tracks db2 = t_tracks db" "t_players db2 = t_players db"
    and made: "\<And>k. gm_get (t_race_results db) k \<noteq> None \<Longrightarrow> gm_get (t_created db1) k = gm_get (t_created db) k"
      "\<And>k. gm_get (t_race_results db1) k \<noteq> None \<Longrightarrow> gm_get (t_created db2) k = gm_get (t_created db1) k"
    using assms unfolding stored_def by fastforce
  have "gm_get (t_race_players db2) = gm_get (t_race_players db) ++ player_rows (wr_RaceID req) f' (wr_Results req)"
    by (simp add: pl map_add_absorb dom_player_rows [of _ f _ f'])
  moreover have "gm_get (t_race_results db2) = gm_get (t_race_results db) ++ result_rows (wr_RaceID req) (wr_Results req)"
    by (simp add: rs map_add_absorb)
  moreover have "gm_get (t_races db2) = (gm_get (t_races db))(wr_RaceID req \<mapsto>
          (case gm_get (t_races db) (wr_RaceID req) of
             Some row \<Rightarrow> row\<lparr>row_finished := pg_time f'\<rparr>
           | None \<Rightarrow> \<lparr>row_track = wr_TrackID req, row_started = pg_time s, row_finished = pg_time f'\<rparr>))"
    by (simp add: races split: option.split)
  moreover have "gm_get (t_created db2) k = gm_get (t_created db) k" if "gm_get (t_race_results db) k \<noteq> None" for k
    using made(1) [OF that] made(2) [of k] that by (simp add: rs(1) map_add_None)
  ultimately show ?thesis
    unfolding stored_def using w same by (intro exI [of _ s] exI [of _ f']) simp
qed

interpretation writer: atomic_writer "PersistRaceFinish us" stored
proof unfold_locales
  show "PersistRaceFinish us e q d = (None, d') \<Longrightarrow> stored q d d'" for e q d d'
    by (rule PersistRaceFinish_cases(1)) simp_all
  show "PersistRaceFinish us e q d = (res, d') \<Longrightarrow> d' = d \<or> stored q d d'" for e q d d' res
    by (rule PersistRaceFinish_cases(2))
  show "stored q d d' \<Longrightarrow> stored q d' d'' \<Longrightarrow> stored q d d''" for q d d' d''
    by (rule stored_twice)
qed

lemma PersistWithRetry_retried: "PersistWithRetry us e e' cancelled req db = writer.retried us e e' cancelled req db"
  by (simp add: PersistWithRetry_def writer.retried_def)

subsection \<open>Properties\<close>

text \<open>C12. The callback of a finished race stores all of its result or nothing: whatever statements fail, and even when a
  commit that was reported as failed has taken effect, the tables are afterwards as they were, or hold exactly what storing the
  request once produces; and they hold it if one of the attempts reported success.\<close>

theorem results_all_or_nothing:
  "(persistRace us e e' cancelled r db = db \<or> stored (write_request r) db (persistRace us e e' cancelled r db)) \<and>
   (fst (PersistRaceFinish us e (write_request r) db) = None \<longrightarrow>
      stored (write_request r) db (persistRace us e e' cancelled r db)) \<and>
   (\<not> cancelled \<and> fst (PersistRaceFinish us e' (write_request r) (snd (PersistRaceFinish us e (write_request r) db))) = None
      \<longrightarrow> stored (write_request r) db (persistRace us e e' cancelled r db))"
  unfolding persistRace_def PersistWithRetry_retried
  using writer.retried_all_or_nothing writer.retried_success by blast

lemma result_rows_nth:
  assumes "distinct (map en_PlayerID es)" and "i < length es" and "en_PlayerID (es ! i) \<noteq> uuid_Nil"
  shows "result_rows rid es (rid, en_PlayerID (es ! i)) = Some
    \<lparr>row_position = en_Position (es ! i), row_total_time_ms = en_TotalTimeMs (es ! i),
     row_best_lap_ms = (if en_BestLapMs (es ! i) = 0 then None else Some (en_BestLapMs (es ! i)))\<rparr>"
  using assms
proof (induction es arbitrary: i)
  case (Cons r es)
  show ?case
  proof (cases i)
    case 0
    have "result_rows rid es (rid, en_PlayerID r) = None"
      using Cons.prems(1) by (auto simp: result_rows_def map_of_eq_None_iff)
    then show ?thesis using Cons.prems(3) 0 by (simp add: rows_Cons map_add_def)
  next
    case (Suc j)
    then show ?thesis using Cons.IH [of j] Cons.prems by (simp add: rows_Cons map_add_def)
  qed
qed simp

lemma result_rows_None:
  "k \<noteq> rid \<or> pid \<notin> set (map en_PlayerID es) \<Longrightarrow> result_rows rid es (k, pid) = None"
  by (auto simp: result_rows_def map_of_eq_None_iff)

lemma persist_entries_succeeds:
  assumes "de_fault e = (\<lambda>_. None)" and "set (map en_PlayerID es) \<subseteq> dom (gm_get (t_players db))"
    and "\<forall>r \<in> set es. int4 (en_Position r) \<and> int4 (en_TotalTimeMs r) \<and> int4 (en_BestLapMs r)"
  shows "\<exists>db'. persist_entries us e rid finished i es db = Inr db'"
  using assms
proof (induction es arbitrary: i db)
  case (Cons r es)
  have "\<exists>db2. persist_entries us e rid finished (Suc i) es db1 = Inr db2" if "t_players db1 = t_players db" for db1
    using Cons that by simp
  then show ?case
    using Cons.prems by (auto simp: exec_stmt_def upsert_race_player_def upsert_race_result_def)
qed simp

lemma PersistRaceFinish_succeeds:
  assumes "de_fault e = (\<lambda>_. None)" and "wr_RaceID req \<noteq> 0" and "wr_TrackID req \<noteq> 0" and "wr_Results req \<noteq> []"
    and "gm_get (t_tracks db) (wr_TrackID req) \<noteq> None"
    and "set (map en_PlayerID (wr_Results req)) \<subseteq> dom (gm_get (t_players db))"
    and "\<forall>r \<in> set (wr_Results req). int4 (en_Position r) \<and> int4 (en_TotalTimeMs r) \<and> int4 (en_BestLapMs r)"
  shows "fst (PersistRaceFinish us e req db) = None"
proof -
  have "fst (persist_tx us e req start finished db) = None" for start finished
  proof -
    obtain db1 where u: "exec_stmt e UpsertRace (upsert_race (wr_RaceID req) (wr_TrackID req) start finished) db = Inr db1"
      using assms(1,5) by (cases "gm_get (t_races db) (wr_RaceID req)") (auto simp: exec_stmt_def upsert_race_def)
    obtain db2 where "persist_entries us e (wr_RaceID req) finished 0 (wr_Results req) db1 = Inr db2"
      using persist_entries_succeeds [OF assms(1), of "wr_Results req" db1 us "wr_RaceID req" finished 0]
        assms(6,7) upsert_race_effect [OF u] by fastforce
    with u show ?thesis by (simp add: persist_tx_def assms(1))
  qed
  then show ?thesis using assms(1-4) by (simp add: PersistRaceFinish_def)
qed

text \<open>With a working database a race is stored, and these are the rows of its standings.\<close>

lemma persistRace_stores:
  assumes "de_fault e = (\<lambda>_. None)" and "raceID r \<noteq> 0" and "trackID (raceTrack r) \<noteq> 0"
    and "gm_get (t_tracks db) (trackID (raceTrack r)) \<noteq> None" and "FinalResults r \<noteq> []"
    and "set (map rr_PlayerID (FinalResults r)) \<subseteq> dom (gm_get (t_players db))"
    and "\<forall>x \<in> set (FinalResults r). int4 (int (rr_Position x)) \<and> int4 (rr_TotalTimeMs x) \<and> int4 (rr_BestLapMs x)"
  shows "stored (write_request r) db (persistRace us e e' cancelled r db)"
proof -
  have "fst (PersistRaceFinish us e (write_request r) db) = None"
    using assms by (intro PersistRaceFinish_succeeds) (auto simp: write_request_def entry_of_def)
  then show ?thesis unfolding persistRace_def PersistWithRetry_retried by (intro writer.retried_success) simp
qed

lemma standing_row:
  assumes "distinct (map rr_PlayerID (FinalResults r))" and "0 \<notin> set (map rr_PlayerID (FinalResults r))"
    and i: "i < length (FinalResults r)"
  shows "result_rows (raceID r) (map entry_of (FinalResults r)) (raceID r, rr_PlayerID (FinalResults r ! i)) = Some
         \<lparr>row_position = int (rr_Position (FinalResults r ! i)), row_total_time_ms = rr_TotalTimeMs (FinalResults r ! i),
          row_best_lap_ms = (if rr_BestLapMs (FinalResults r ! i) = 0 then None else Some (rr_BestLapMs (FinalResults r ! i)))\<rparr>"
proof -
  have ids: "map en_PlayerID (map entry_of (FinalResults r)) = map rr_PlayerID (FinalResults r)"
    by (simp add: entry_of_def)
  have "rr_PlayerID (FinalResults r ! i) \<noteq> 0" using assms(2) nth_mem [OF i] by auto
  then show ?thesis
    using result_rows_nth [of "map entry_of (FinalResults r)" i "raceID r", unfolded ids, OF assms(1)] i
    by (simp add: entry_of_def)
qed

text \<open>C8. With a working database, storing a finished race writes its standings and nothing else: each finished player has one row of
  the race with its place, total time and best lap (NULL when there is none), every row of another race or of
  a player who did not finish is as before, and the race has its row.\<close>

theorem standings_are_stored:
  assumes "de_fault e = (\<lambda>_. None)" and "raceID r \<noteq> 0" and "trackID (raceTrack r) \<noteq> 0"
    and "gm_get (t_tracks db) (trackID (raceTrack r)) \<noteq> None" and "FinalResults r \<noteq> []"
    and "distinct (map rr_PlayerID (FinalResults r))" and "0 \<notin> set (map rr_PlayerID (FinalResults r))"
    and "set (map rr_PlayerID (FinalResults r)) \<subseteq> dom (gm_get (t_players db))"
    and "\<forall>x \<in> set (FinalResults r). int4 (int (rr_Position x)) \<and> int4 (rr_TotalTimeMs x) \<and> int4 (rr_BestLapMs x)"
    and "db' = persistRace us e e' cancelled r db"
  shows "(\<forall>i < length (FinalResults r). let x = FinalResults r ! i in
       gm_get (t_race_results db') (raceID r, rr_PlayerID x) = Some
         \<lparr>row_position = int (rr_Position x), row_total_time_ms = rr_TotalTimeMs x,
          row_best_lap_ms = (if rr_BestLapMs x = 0 then None else Some (rr_BestLapMs x))\<rparr>) \<and>
    (\<forall>k pid. k \<noteq> raceID r \<or> pid \<notin> set (map rr_PlayerID (FinalResults r)) \<longrightarrow>
       gm_get (t_race_results db') (k, pid) = gm_get (t_race_results db) (k, pid)) \<and>
    (\<exists>row. gm_get (t_races db') (raceID r) = Some row \<and>
       (RaceFinishTime r \<noteq> 0 \<longrightarrow> row_finished row = pg_time (RaceFinishTime r))) \<and>
    (\<forall>k. k \<noteq> raceID r \<longrightarrow> gm_get (t_races db') k = gm_get (t_races db) k)"
proof -
  have ids: "map en_PlayerID (map entry_of (FinalResults r)) = map rr_PlayerID (FinalResults r)"
    by (simp add: entry_of_def)
  have "stored (write_request r) db db'" unfolding assms(10) using assms(1-5,8,9) by (rule persistRace_stores)
  then have rs: "gm_get (t_race_results db') = gm_get (t_race_results db) ++
      result_rows (raceID r) (map entry_of (FinalResults r))"
    and race: "\<exists>row. gm_get (t_races db') = (gm_get (t_races db))(raceID r \<mapsto> row) \<and>
       (RaceFinishTime r \<noteq> 0 \<longrightarrow> row_finished row = pg_time (RaceFinishTime r))"
    by (auto simp: stored_def write_request_def split: option.split)
  note standing_row [OF assms(6,7)]
  moreover have "result_rows (raceID r) (map entry_of (FinalResults r)) (k, pid) = None"
    if "k \<noteq> raceID r \<or> pid \<notin> set (map rr_PlayerID (FinalResults r))" for k pid
    using result_rows_None [of k "raceID r" pid "map entry_of (FinalResults r)"] that by (simp only: ids)
  ultimately show ?thesis using race by (auto simp: rs map_add_def Let_def)
qed

text \<open>A race the players 9 and 8 have finished, in that order, and the tables it is stored in.\<close>

definition demo_over :: Race where
  "demo_over =
     (let r = New 77 \<lparr>trackID = 3, trackName = ''t'', Waypoints = [], Spawns = []\<rparr> 30 1 4 50;
          done = (\<lambda>pid i t. (new_player r pid 1000 1000)\<lparr>Finished := True, FinishPos := i, FinishTime := t, BestLapMs := 0\<rparr>)
      in r\<lparr>status := StatusFinished, finishedOrder := [9, 8], RaceFinishTime := 7000001500,
           players := [(8, done 8 2 6000001000), (9, done 9 1 5000001000)]\<rparr>)"

definition demo_tables :: tables where
  "demo_tables = \<lparr>t_tracks = [(3, ''t'')], t_players = [(8, ''eight''), (9, ''nine'')], t_races = [], t_race_players = [],
     t_race_results = [], t_created = []\<rparr>"

definition calm :: db_env where
  "calm = \<lparr>de_fault = (\<lambda>_. None), de_landed = False, de_now_tx = 1, de_now_started = 1, de_now_finished = 1\<rparr>"

lemma demo_over_results:
  "FinalResults demo_over = [\<lparr>rr_PlayerID = 9, rr_Position = 1, rr_TotalTimeMs = 5000, rr_BestLapMs = 0\<rparr>,
     \<lparr>rr_PlayerID = 8, rr_Position = 2, rr_TotalTimeMs = 6000, rr_BestLapMs = 0\<rparr>]"
  "raceID demo_over = 77" "trackID (raceTrack demo_over) = 3"
  by code_simp+

theorem standings_are_stored_witness:
  "gm_get (t_race_results (persistRace (\<lambda>_. []) calm calm False demo_over demo_tables)) (77, 8) =
     Some \<lparr>row_position = 2, row_total_time_ms = 6000, row_best_lap_ms = None\<rparr>"
proof -
  have "\<forall>i < length (FinalResults demo_over). let x = FinalResults demo_over ! i in
       gm_get (t_race_results (persistRace (\<lambda>_. []) calm calm False demo_over demo_tables)) (raceID demo_over, rr_PlayerID x) = Some
         \<lparr>row_position = int (rr_Position x), row_total_time_ms = rr_TotalTimeMs x,
          row_best_lap_ms = (if rr_BestLapMs x = 0 then None else Some (rr_BestLapMs x))\<rparr>"
    using standings_are_stored [of calm demo_over demo_tables _ "\<lambda>_. []" calm False, OF _ _ _ _ _ _ _ _ _ refl]
    by (simp add: calm_def demo_tables_def demo_over_results int4_def gm_get_def domIff)
  from this [rule_format, of 1] show ?thesis by (simp add: demo_over_results Let_def)
qed

theorem results_all_or_nothing_witness:
  "stored (write_request demo_over) demo_tables (persistRace (\<lambda>_. []) calm calm False demo_over demo_tables)"
proof -
  have "fst (PersistRaceFinish (\<lambda>_. []) calm (write_request demo_over) demo_tables) = None"
    by (rule PersistRaceFinish_succeeds)
      (simp_all add: calm_def demo_tables_def write_request_def demo_over_results entry_of_def int4_def
        gm_get_def domIff)
  then show ?thesis using results_all_or_nothing [of "\<lambda>_. []" calm calm False demo_over demo_tables] by blast
qed

end
