(* ===== verification/GameServer.thy ===== *)
theory GameServer
  imports Broadcast Results
begin

text \<open>
  \<open>cmd/game-server/main.go\<close>: the whole game server. One state holds what its goroutines share: the
  dispatcher's game, the control state of every race's loop, the broadcasters, and the tables the results go
  to. A step is one datagram, one step of a race's loop, one tick of the watcher or of a
  broadcaster's follower, or one pass of a broadcaster.
\<close>

subsection \<open>What lies outside\<close>

record ('e, 'v) outside =
  o_proto :: protolib
  o_verify :: "('e, 'v) verifier"
  o_math :: mathlib
  o_us :: "uuid \<Rightarrow> string"
  o_marshal :: "WorldSnapshot \<Rightarrow> bytes option"

subsection \<open>The server's state\<close>

text \<open>
  The race of heap object \<open>p\<close> is run by the goroutine with control state \<open>sv_runs ! p\<close>, whose own
  copy of the race is not used: \<open>run_at\<close> reads the shared one.
\<close>

record 'v Server =
  sv_game :: "'v Game"
  sv_runs :: "RunState list"
  sv_known :: "(uuid, bool) gomap"
  sv_bcs :: "Broadcaster list"
  sv_db :: tables

abbreviation sv_heap :: "'v Server \<Rightarrow> Race list" where
  "sv_heap s \<equiv> heap (g_mgr (sv_game s))"

definition run_at :: "'v Server \<Rightarrow> raceptr \<Rightarrow> RunState" where
  "run_at s p = (sv_runs s ! p)\<lparr>race := sv_heap s ! p\<rparr>"

definition set_race :: "raceptr \<Rightarrow> Race \<Rightarrow> 'v Server \<Rightarrow> 'v Server" where
  "set_race p r s = s\<lparr>sv_game := (sv_game s)\<lparr>g_mgr := race_moves p r (g_mgr (sv_game s))\<rparr>\<rparr>"

text \<open>The state \<open>main\<close> builds before it serves: no race yet, 30 ticks a second, one lap, four players.\<close>

definition boot :: "'v \<Rightarrow> tables \<Rightarrow> 'v Server" where
  "boot v db =
     \<lparr>sv_game = \<lparr>g_mgr = SetOnFinish True (NewManager 30 1 4 False), g_sess = NewSessionRegistry, g_ver = v\<rparr>,
      sv_runs = [], sv_known = [], sv_bcs = [], sv_db = db\<rparr>"

subsection \<open>The pool of broadcasters\<close>

definition spawn_broadcaster :: "raceptr \<Rightarrow> 'v Server \<Rightarrow> 'v Server" where
  "spawn_broadcaster p s =
     (let rid = raceID (sv_heap s ! p)
      in if gm_get (sv_known s) rid = Some True then s
         else s\<lparr>sv_known := gm_put rid True (sv_known s),
                sv_bcs := sv_bcs s @ [NewBroadcaster p NewSubscriptions]\<rparr>)"

definition wireNewRaces :: "uuid list \<Rightarrow> 'v Server \<Rightarrow> 'v Server" where
  "wireNewRaces ord s = foldl (\<lambda>s p. spawn_broadcaster p s) s (List ord (g_mgr (sv_game s)))"

text \<open>A tick of \<open>watch\<close>: a broadcaster for each new race, then the finished races are dropped.\<close>

definition watch_tick :: "uuid list \<Rightarrow> 'v Server \<Rightarrow> 'v Server" where
  "watch_tick ord s =
     (let s = wireNewRaces ord s
      in s\<lparr>sv_game := (sv_game s)\<lparr>g_mgr := CleanupFinished (g_mgr (sv_game s))\<rparr>\<rparr>)"

text \<open>
  A tick of \<open>followSubscriptions\<close> for broadcaster \<open>i\<close>: every session in its race is added; the follower
  has returned once the race is done.
\<close>

definition follow_tick :: "uuid list \<Rightarrow> nat \<Rightarrow> 'v Server \<Rightarrow> 'v Server" where
  "follow_tick ord i s =
     (let b = sv_bcs s ! i;
          views = RacePlayers ord (Some (br_race b)) (g_sess (sv_game s));
          subs = foldl (\<lambda>t (pid, a). snd (Add pid a t)) (br_subs b) (map (\<lambda>v. (pv_PlayerID v, Some (pv_Addr v))) views)
      in if DoneClosed (sv_heap s ! br_race b) then s
         else s\<lparr>sv_bcs := (sv_bcs s)[i := b\<lparr>br_subs := subs\<rparr>]\<rparr>)"

subsection \<open>Steps\<close>

text \<open>
  A handler that changes a race waits for its mutex; only the input queue is changed without it. The races
  that a datagram creates are started.
\<close>

definition handler_waits :: "'v Server \<Rightarrow> 'v Game \<Rightarrow> bool" where
  "handler_waits s g' \<longleftrightarrow>
     (\<forall>p < length (sv_runs s). lock_held (pc (sv_runs s ! p)) \<longrightarrow>
        (\<exists>c. heap (g_mgr g') ! p = (sv_heap s ! p)\<lparr>InputCh := c\<rparr>))"

definition start_races :: "'v Game \<Rightarrow> 'v Server \<Rightarrow> 'v Server" where
  "start_races g' s =
     s\<lparr>sv_game := g', sv_runs := sv_runs s @ map init_run (drop (length (sv_runs s)) (heap (g_mgr g')))\<rparr>"

inductive server_step :: "('e, 'v) outside \<Rightarrow> 'v Server \<Rightarrow> 'v Server \<Rightarrow> bool" for X where
  datagram: "Handle (o_proto X) (o_verify X) e w payload from (sv_game s) = (Returns out, g') \<Longrightarrow>
    handler_waits s g' \<Longrightarrow> server_step X s (start_races g' s)"
| race_goroutine: "p < length (sv_runs s) \<Longrightarrow> env_ok e (sv_heap s ! p) \<Longrightarrow>
    run_step (o_math X) (o_us X) e (run_at s p) = Some t \<Longrightarrow>
    server_step X s (set_race p (race t) s\<lparr>sv_runs := (sv_runs s)[p := t],
      sv_db := (if pc (sv_runs s ! p) = FinishCallback True
                then persistRace (o_us X) d d' cancelled (race t) (sv_db s) else sv_db s)\<rparr>)"
| watch: "gm_order ord (m_races (g_mgr (sv_game s))) \<Longrightarrow> server_step X s (watch_tick ord s)"
| follow: "i < length (sv_bcs s) \<Longrightarrow> gm_order ord (sr_player (g_sess (sv_game s))) \<Longrightarrow>
    server_step X s (follow_tick ord i s)"
| broadcast: "i < length (sv_bcs s) \<Longrightarrow>
    broadcast_step (o_marshal X) arm ctxDone (sv_heap s ! br_race (sv_bcs s ! i)) (sv_bcs s ! i) = (r', b') \<Longrightarrow>
    server_step X s (set_race (br_race (sv_bcs s ! i)) r' s\<lparr>sv_bcs := (sv_bcs s)[i := b']\<rparr>)"

inductive served :: "('e, 'v) outside \<Rightarrow> 'v Server \<Rightarrow> 'v Server \<Rightarrow> bool" for X s0 where
  start: "served X s0 s0"
| more: "served X s0 s \<Longrightarrow> server_step X s s' \<Longrightarrow> served X s0 s'"

subsection \<open>What a datagram does to the races\<close>

text \<open>A race the manager has just made, and how a datagram can change a race.\<close>

definition fresh_race :: "Race \<Rightarrow> bool" where
  "fresh_race r \<longleftrightarrow> (\<exists>rid track hz laps mp t. r = New rid track hz laps mp t\<lparr>OnFinish := True\<rparr>)"

definition handler_change :: "Race \<Rightarrow> Race \<Rightarrow> bool" where
  "handler_change r r' \<longleftrightarrow> r' = r \<or> (\<exists>im. r' = ApplyInput im r) \<or>
     (\<exists>pid now. r' = snd (AddPlayer pid DefaultSpec now now r))"

lemma handler_change_refl [simp]: "handler_change r r"
  by (simp add: handler_change_def)

lemma join_race_change:
  assumes "p < length (heap m)" and "k < length (heap m)"
  shows "handler_change (heap m ! k) (heap (snd (join_race p pid now m)) ! k)"
    and "length (heap (snd (join_race p pid now m))) = length (heap m)"
    and "m_onFinish (snd (join_race p pid now m)) = m_onFinish m"
  using assms by (auto simp: join_race_def handler_change_def nth_list_update split: prod.split) (metis snd_conv)

lemma RegisterPlayer_change:
  assumes "mgr_wf m" and "m_onFinish m" and "RegisterPlayer trackFn rid now match pid m = (res, m')"
  shows "m_onFinish m' \<and> length (heap m) \<le> length (heap m') \<and>
    (\<forall>k < length (heap m). handler_change (heap m ! k) (heap m' ! k)) \<and>
    (\<forall>k. length (heap m) \<le> k \<and> k < length (heap m') \<longrightarrow>
       (\<exists>r. fresh_race r \<and> handler_change r (heap m' ! k)))"
proof (cases rule: RegisterPlayer_cases [of match m trackFn rid now pid])
  case (1 p)
  have p: "p < length (heap m)" using ByMatch_in_heap [OF assms(1) 1(1)] .
  have m': "m' = snd (join_race p pid now m)" using assms(3) 1(2) by (metis snd_conv)
  show ?thesis
    using join_race_change [OF p, where pid = pid and now = now] p assms(2) unfolding m' by auto
next
  case (created track)
  let ?m1 = "snd (NewRace trackFn rid now match m)"
  let ?r = "New rid track (m_tickHz m) (m_maxLaps m) (m_maxPlayers m) now\<lparr>OnFinish := m_onFinish m\<rparr>"
  have h: "heap ?m1 = heap m @ [?r]"
    by (rule NewRace_wf_heap [where trackFn = trackFn and matchID = match, OF created(2)])
  have p: "length (heap m) < length (heap ?m1)" by (simp add: h)
  have on: "m_onFinish ?m1 = m_onFinish m" using created(2) by (simp add: NewRace_def Let_def)
  have m': "m' = snd (join_race (length (heap m)) pid now ?m1)" using assms(3) created(3) by (metis snd_conv)
  have fresh: "fresh_race ?r" unfolding fresh_race_def using assms(2) by (intro exI) simp
  note j = join_race_change [OF p, where pid = pid and now = now]
  have old: "handler_change (heap m ! k) (heap m' ! k)" if "k < length (heap m)" for k
    using j(1) [of k] that p unfolding m' h by (simp add: nth_append)
  have new: "handler_change ?r (heap m' ! length (heap m))"
    using j(1) [OF p] unfolding m' h by (simp add: nth_append)
  have len: "length (heap m') = Suc (length (heap m))" using j(2) [OF p] unfolding m' h by simp
  have "\<exists>r. fresh_race r \<and> handler_change r (heap m' ! k)" if "length (heap m) \<le> k" "k < length (heap m')" for k
  proof -
    have "k = length (heap m)" using that len by simp
    then show ?thesis using new fresh by blast
  qed
  then show ?thesis using old len j(3) [OF p] on assms(2) unfolding m' by simp
qed (use assms(2,3) in auto)

lemma handleInput_change:
  assumes "handleInput inp from g = (res, g')"
  shows "(\<forall>k < length (heap (g_mgr g)). handler_change (heap (g_mgr g) ! k) (heap (g_mgr g') ! k)) \<and>
    length (heap (g_mgr g')) = length (heap (g_mgr g)) \<and> m_onFinish (g_mgr g') = m_onFinish (g_mgr g)"
proof (cases rule: handleInput_cases [of inp "from" g])
  case (sent pid r)
  have "handler_change (heap (g_mgr g) ! k) (heap (race_moves r (ApplyInput im (heap (g_mgr g) ! r)) (g_mgr g)) ! k)" for im k
    by (cases "k = r"; cases "r < length (heap (g_mgr g))") (auto simp: race_moves_def handler_change_def list_update_beyond)
  then show ?thesis using assms sent(4) by (auto simp: race_moves_def)
qed (use assms in simp)

lemma Handle_change:
  assumes "game_wf g" and "m_onFinish (g_mgr g)" and "Handle L verify e w payload from g = (res, g')"
  shows "m_onFinish (g_mgr g') \<and> length (heap (g_mgr g)) \<le> length (heap (g_mgr g')) \<and>
    (\<forall>k < length (heap (g_mgr g)). handler_change (heap (g_mgr g) ! k) (heap (g_mgr g') ! k)) \<and>
    (\<forall>k. length (heap (g_mgr g)) \<le> k \<and> k < length (heap (g_mgr g')) \<longrightarrow>
       (\<exists>r. fresh_race r \<and> handler_change r (heap (g_mgr g') ! k)))"
proof (cases "as_join L payload")
  case None
  then consider "g' = g" | (input) inp where "handleInput inp from g = (res, g')"
    using assms(3) by (auto simp: Handle_eq split: option.splits if_splits)
  then show ?thesis
  proof cases
    case (input inp)
    from handleInput_change [OF this] show ?thesis using assms(2) by auto
  qed (use assms(2) in auto)
next
  case (Some req)
  then have h: "handleJoin L verify e w req from g = (res, g')" using assms(3) by (simp add: Handle_eq)
  have wf: "mgr_wf (g_mgr g)" using assms(1) by (simp add: game_wf_def)
  show ?thesis
  proof (cases rule: handleJoin_cases [of L req verify e w "from" g])
    case (panics m p v msg mg)
    then show ?thesis using RegisterPlayer_change [OF wf assms(2) panics(3)] h by auto
  next
    case (failed m p v err mg)
    then show ?thesis using RegisterPlayer_change [OF wf assms(2) failed(3)] h by auto
  next
    case (joined m p v r mg)
    then show ?thesis using RegisterPlayer_change [OF wf assms(2) joined(3)] h by auto
  qed (use assms(2) h in auto)
qed

subsection \<open>What a race's loop leaves alone\<close>

lemma advanceTick_raceID: "advanceTickLocked M dt tick now ord r = Some r' \<Longrightarrow> raceID r' = raceID r"
  by (subst advanceTickLocked_frame, assumption, simp)

lemma run_step_raceID: "run_step M us e s = Some s' \<Longrightarrow> raceID (race s') = raceID (race s)"
  by (cases "pc s")
    (auto simp: run_step_def advance_locked_def Let_def auto_start_def RemovePlayer_def applyInputLocked_def
      finish_race_def dest: advanceTick_raceID split: option.splits if_splits wake.splits)

lemma run_step_leave:
  "run_step M us e s = Some s' \<Longrightarrow> ch_buf (LeaveCh (race s)) = [] \<Longrightarrow> ch_buf (LeaveCh (race s')) = []"
  by (cases "pc s")
    (auto simp: run_step_def advance_locked_def Let_def step_simps ch_recv_def
      dest: tick_keeps split: option.splits list.splits if_splits wake.splits)

lemma handler_change_keeps:
  assumes "handler_change r r'"
  shows "raceID r' = raceID r" and "LeaveCh r' = LeaveCh r"
  using assms by (auto simp: handler_change_def ApplyInput_def step_simps)

subsection \<open>Each race of the server is a race alone\<close>

definition alone :: "('e, 'v) outside \<Rightarrow> RunState \<Rightarrow> bool" where
  "alone X t \<longleftrightarrow> (\<exists>r0. fresh_race r0 \<and> reachable_staying (o_math X) (o_us X) (init_run r0) t)"

lemma alone_inv:
  assumes "alone X t"
  shows "loop_inv t" and "order_exact (race t)" and "ch_buf (LeaveCh (race t)) = []"
proof -
  obtain rid track hz laps mp now where
    t: "reachable_staying (o_math X) (o_us X) (init_run (New rid track hz laps mp now\<lparr>OnFinish := True\<rparr>)) t"
    using assms by (auto simp: alone_def fresh_race_def)
  have "order_exact (New rid track hz laps mp now\<lparr>OnFinish := True\<rparr>)"
    by (simp add: order_exact_def New_def)
  then have "loop_inv t \<and> order_exact (race t) \<and> ch_buf (LeaveCh (race t)) = []"
    using reachable_staying_exact [OF t] init_run_inv [of True rid track hz laps mp now]
    by (simp add: init_run_def New_def ch_make_def)
  then show "loop_inv t" and "order_exact (race t)" and "ch_buf (LeaveCh (race t)) = []" by blast+
qed

lemma alone_step:
  assumes "alone X t" and "sys_step (o_math X) (o_us X) t t'" and "ch_buf (LeaveCh (race t')) = []"
  shows "alone X t'"
  using assms reachable_staying.more by (fastforce simp: alone_def)

lemma alone_start: "fresh_race r \<Longrightarrow> alone X (init_run r)"
  by (auto simp: alone_def intro: reachable_staying.start)

lemma alone_handler:
  assumes "alone X t" and "handler_change (race t) r'" and "lock_held (pc t) \<longrightarrow> (\<exists>c. r' = (race t)\<lparr>InputCh := c\<rparr>)"
  shows "alone X (t\<lparr>race := r'\<rparr>)"
proof -
  have leave: "ch_buf (LeaveCh r') = []"
    using alone_inv(3) [OF assms(1)] handler_change_keeps(2) [OF assms(2)] by simp
  consider "r' = race t" | (input) im where "r' = ApplyInput im (race t)"
    | (register) pid now where "r' = snd (AddPlayer pid DefaultSpec now now (race t))"
    using assms(2) by (auto simp: handler_change_def)
  then show ?thesis
  proof cases
    case (input im)
    then show ?thesis using alone_step [OF assms(1) sys_step.input] leave by simp
  next
    case (register pid now)
    show ?thesis
    proof (cases "lock_held (pc t)")
      case True
      then obtain c where c: "r' = (race t)\<lparr>InputCh := c\<rparr>" using assms(3) by blast
      have "InputCh r' = InputCh (race t)" by (simp add: register step_simps)
      then have "c = InputCh (race t)" by (simp add: c)
      then show ?thesis using c assms(1) by simp
    next
      case False
      have "sys_step (o_math X) (o_us X) t (t\<lparr>race := r'\<rparr>)"
        unfolding register by (rule sys_step.register [OF False])
      then show ?thesis using alone_step [OF assms(1)] leave by simp
    qed
  qed (use assms(1) in simp)
qed

lemma alone_broadcast:
  assumes "alone X t" and "broadcast_step marshal arm ctxDone (race t) b = (r', b')"
  shows "alone X (t\<lparr>race := r'\<rparr>)"
proof (cases "r' = race t")
  case False
  then obtain snap c where "ch_recv (SnapshotOut (race t)) = Some (snap, c)" and r': "r' = (race t)\<lparr>SnapshotOut := c\<rparr>"
    using assms(2) by (auto simp: broadcast_step_def split: if_splits arm.splits option.splits)
  then have "sys_step (o_math X) (o_us X) t (t\<lparr>race := r'\<rparr>)" by (auto intro: sys_step.take_snapshot)
  then show ?thesis using alone_step [OF assms(1)] alone_inv(3) [OF assms(1)] r' by simp
qed (use assms(1) in simp)

subsection \<open>The invariant of the server\<close>

definition pool_ok :: "'v Server \<Rightarrow> bool" where
  "pool_ok s \<longleftrightarrow> distinct (map br_race (sv_bcs s)) \<and>
     (\<forall>b \<in> set (sv_bcs s). br_race b < length (sv_heap s) \<and> subs_wf (br_subs b)) \<and>
     (\<forall>rid. gm_get (sv_known s) rid = Some True \<longleftrightarrow>
        (\<exists>b \<in> set (sv_bcs s). raceID (sv_heap s ! br_race b) = rid))"

definition server_inv :: "('e, 'v) outside \<Rightarrow> 'v Server \<Rightarrow> bool" where
  "server_inv X s \<longleftrightarrow>
     game_wf (sv_game s) \<and> m_onFinish (g_mgr (sv_game s)) \<and> length (sv_runs s) = length (sv_heap s) \<and>
     (\<forall>p < length (sv_heap s). alone X (run_at s p)) \<and> pool_ok s"

lemma pool_ok_cong:
  assumes "pool_ok s" and "sv_bcs s' = sv_bcs s" and "sv_known s' = sv_known s"
    and "length (sv_heap s) \<le> length (sv_heap s')"
    and "\<And>p. p < length (sv_heap s) \<Longrightarrow> raceID (sv_heap s' ! p) = raceID (sv_heap s ! p)"
  shows "pool_ok s'"
  using assms by (fastforce simp: pool_ok_def)

lemma boot_inv [simp]: "server_inv X (boot v db)"
proof -
  have "mgr_wf (SetOnFinish True (NewManager 30 1 4 False))"
    using NewManager_wf [of 30 1 4 False] by (simp add: SetOnFinish_def mgr_wf_def)
  then show ?thesis
    by (simp add: boot_def server_inv_def pool_ok_def game_wf_def SetOnFinish_def NewManager_def RaceFromPlayer_def
        NewSessionRegistry_def sess_wf_def)
qed

lemma datagram_inv:
  assumes inv: "server_inv X s" and h: "Handle (o_proto X) (o_verify X) e w payload from (sv_game s) = (res, g')"
    and "handler_waits s g'"
  shows "server_inv X (start_races g' s)"
proof -
  have wf: "game_wf (sv_game s)" and on: "m_onFinish (g_mgr (sv_game s))"
    and len: "length (sv_runs s) = length (sv_heap s)"
    and al: "\<And>p. p < length (sv_heap s) \<Longrightarrow> alone X (run_at s p)" and pool: "pool_ok s"
    using inv by (auto simp: server_inv_def)
  note ch = Handle_change [OF wf on h]
  have wf': "game_wf g'" using Handle_wf [OF wf, of "o_proto X" "o_verify X" e w payload "from"] h by simp
  have "alone X (run_at (start_races g' s) p)" if p: "p < length (heap (g_mgr g'))" for p
  proof (cases "p < length (sv_heap s)")
    case True
    have "alone X ((run_at s p)\<lparr>race := heap (g_mgr g') ! p\<rparr>)"
      using ch True assms(3) len by (intro alone_handler [OF al [OF True]]) (auto simp: run_at_def handler_waits_def)
    then show ?thesis using True len by (simp add: run_at_def start_races_def nth_append)
  next
    case False
    then obtain r where r: "fresh_race r" "handler_change r (heap (g_mgr g') ! p)" using ch p by (meson not_less)
    have "alone X ((init_run r)\<lparr>race := heap (g_mgr g') ! p\<rparr>)"
      using r by (intro alone_handler [OF alone_start]) (auto simp: init_run_def lock_held_def)
    moreover have "(init_run (heap (g_mgr g') ! p))\<lparr>race := heap (g_mgr g') ! p\<rparr> = (init_run r)\<lparr>race := heap (g_mgr g') ! p\<rparr>"
      by (simp add: init_run_def)
    ultimately show ?thesis using False len p by (simp add: run_at_def start_races_def nth_append)
  qed
  moreover have "pool_ok (start_races g' s)"
    using ch handler_change_keeps(1) by (intro pool_ok_cong [OF pool]) (auto simp: start_races_def)
  ultimately show ?thesis
    using ch wf' len by (simp add: server_inv_def start_races_def)
qed

lemma set_race_inv:
  assumes inv: "server_inv X s" and "alone X (run_at s p\<lparr>race := r\<rparr>)" and "p < length (sv_heap s)"
    and "raceID r = raceID (sv_heap s ! p)"
  shows "server_inv X (set_race p r s)"
proof -
  have wf: "game_wf (sv_game s)" and len: "length (sv_runs s) = length (sv_heap s)"
    and al: "\<And>p. p < length (sv_heap s) \<Longrightarrow> alone X (run_at s p)" and pool: "pool_ok s"
    using inv by (auto simp: server_inv_def)
  have "race_wf r" using alone_inv(1) [OF assms(2)] by (simp add: loop_inv_def)
  then have "mgr_wf (race_moves p r (g_mgr (sv_game s)))"
    using wf assms(4) by (intro race_moves_wf) (auto simp: game_wf_def)
  moreover have "alone X (run_at (set_race p r s) k)" if "k < length (sv_heap s)" for k
    using al [OF that] assms(2) that by (cases "k = p") (auto simp: run_at_def set_race_def race_moves_def)
  moreover have "pool_ok (set_race p r s)"
    using assms(3,4)
    by (intro pool_ok_cong [OF pool]) (auto simp: set_race_def race_moves_def nth_list_update)
  ultimately show ?thesis using inv by (simp add: server_inv_def set_race_def game_wf_def race_moves_def)
qed

lemma loop_step_inv:
  assumes inv: "server_inv X s" and "p < length (sv_runs s)" and "env_ok e (sv_heap s ! p)"
    and step: "run_step (o_math X) (o_us X) e (run_at s p) = Some t"
  shows "server_inv X (set_race p (race t) s\<lparr>sv_runs := (sv_runs s)[p := t], sv_db := db\<rparr>)"
proof -
  have p: "p < length (sv_heap s)" using assms(2) inv by (simp add: server_inv_def)
  have al: "alone X (run_at s k)" if "k < length (sv_heap s)" for k using inv that by (auto simp: server_inv_def)
  have pool: "pool_ok s" using inv by (simp add: server_inv_def)
  have "sys_step (o_math X) (o_us X) (run_at s p) t"
    by (rule sys_step.loop [OF _ step]) (use assms(3) in \<open>simp add: run_at_def\<close>)
  then have t: "alone X t"
    using alone_step [OF al [OF p]] run_step_leave [OF step alone_inv(3) [OF al [OF p]]] by blast
  have "race_wf (race t)" using alone_inv(1) [OF t] by (simp add: loop_inv_def)
  moreover have id: "raceID (race t) = raceID (sv_heap s ! p)" using run_step_raceID [OF step] by (simp add: run_at_def)
  ultimately have "mgr_wf (race_moves p (race t) (g_mgr (sv_game s)))"
    using inv by (intro race_moves_wf) (auto simp: server_inv_def game_wf_def)
  moreover have "alone X (run_at (set_race p (race t) s\<lparr>sv_runs := (sv_runs s)[p := t], sv_db := db\<rparr>) k)"
    if "k < length (sv_heap s)" for k
    using al [OF that] t that assms(2) by (cases "k = p") (auto simp: run_at_def set_race_def race_moves_def)
  moreover have "pool_ok (set_race p (race t) s\<lparr>sv_runs := (sv_runs s)[p := t], sv_db := db\<rparr>)"
    using id p
    by (intro pool_ok_cong [OF pool]) (simp_all add: set_race_def race_moves_def nth_list_update)
  ultimately show ?thesis using inv by (simp add: server_inv_def set_race_def game_wf_def race_moves_def)
qed

lemma spawn_inv:
  assumes "server_inv X s" and "p < length (sv_heap s)"
  shows "server_inv X (spawn_broadcaster p s)" and "sv_game (spawn_broadcaster p s) = sv_game s"
    and "\<exists>b \<in> set (sv_bcs (spawn_broadcaster p s)). raceID (sv_heap s ! br_race b) = raceID (sv_heap s ! p)"
    and "set (sv_bcs s) \<subseteq> set (sv_bcs (spawn_broadcaster p s))"
  using assms subs.wf_empty
  by (auto simp: spawn_broadcaster_def Let_def server_inv_def pool_ok_def run_at_def NewBroadcaster_def gm.get_put)

lemma spawns_inv:
  assumes "server_inv X s" and "\<forall>p \<in> set ps. p < length (sv_heap s)"
  shows "server_inv X (foldl (\<lambda>s p. spawn_broadcaster p s) s ps) \<and>
    sv_game (foldl (\<lambda>s p. spawn_broadcaster p s) s ps) = sv_game s \<and>
    set (sv_bcs s) \<subseteq> set (sv_bcs (foldl (\<lambda>s p. spawn_broadcaster p s) s ps)) \<and>
    (\<forall>p \<in> set ps. \<exists>b \<in> set (sv_bcs (foldl (\<lambda>s p. spawn_broadcaster p s) s ps)).
       raceID (sv_heap s ! br_race b) = raceID (sv_heap s ! p))"
  using assms
proof (induction ps arbitrary: s)
  case (Cons p ps)
  note sp = spawn_inv [OF Cons.prems(1), of p]
  have p: "p < length (sv_heap s)" using Cons.prems(2) by simp
  have "\<forall>q \<in> set ps. q < length (sv_heap (spawn_broadcaster p s))" using Cons.prems(2) sp(2) [OF p] by simp
  from Cons.IH [OF sp(1) [OF p] this] show ?case using sp(2-4) [OF p] by fastforce
qed simp

lemma sessions_wf: "server_inv X s \<Longrightarrow> mgr_wf (g_mgr (sv_game s))"
  by (simp add: server_inv_def game_wf_def)

lemma List_Get: "p \<in> set (Manager.List ord m) \<longleftrightarrow> (\<exists>rid \<in> set ord. Get rid m = Some p)"
  by (induction ord) (auto simp: List_def Get_def map_filter_simps split: option.split)

lemma List_in_heap: "mgr_wf m \<Longrightarrow> p \<in> set (Manager.List ord m) \<Longrightarrow> p < length (heap m)"
  by (auto simp: List_Get Get_def mgr_wf_def)

lemma cleanup_inv:
  "server_inv X s \<Longrightarrow> server_inv X (s\<lparr>sv_game := (sv_game s)\<lparr>g_mgr := CleanupFinished (g_mgr (sv_game s))\<rparr>\<rparr>)"
  using CleanupFinished_wf [of "g_mgr (sv_game s)"]
  by (simp add: server_inv_def game_wf_def pool_ok_def run_at_def CleanupFinished_def)

lemma watch_inv:
  assumes "server_inv X s"
  shows "server_inv X (watch_tick ord s)"
    and "sv_game (watch_tick ord s) = (sv_game s)\<lparr>g_mgr := CleanupFinished (g_mgr (sv_game s))\<rparr>"
    and "p \<in> set (Manager.List ord (g_mgr (sv_game s))) \<Longrightarrow>
      \<exists>b \<in> set (sv_bcs (watch_tick ord s)). raceID (sv_heap s ! br_race b) = raceID (sv_heap s ! p)"
proof -
  have "\<forall>p \<in> set (Manager.List ord (g_mgr (sv_game s))). p < length (sv_heap s)"
    using List_in_heap [OF sessions_wf [OF assms]] by blast
  note sp = spawns_inv [OF assms this]
  show "server_inv X (watch_tick ord s)"
    using sp cleanup_inv [OF conjunct1 [OF sp]] by (simp add: watch_tick_def wireNewRaces_def Let_def)
  show "sv_game (watch_tick ord s) = (sv_game s)\<lparr>g_mgr := CleanupFinished (g_mgr (sv_game s))\<rparr>"
    using sp by (simp add: watch_tick_def wireNewRaces_def Let_def)
  show "p \<in> set (Manager.List ord (g_mgr (sv_game s))) \<Longrightarrow>
      \<exists>b \<in> set (sv_bcs (watch_tick ord s)). raceID (sv_heap s ! br_race b) = raceID (sv_heap s ! p)"
    using sp by (simp add: watch_tick_def wireNewRaces_def Let_def)
qed

lemma bcs_update_inv:
  assumes "server_inv X s" and "i < length (sv_bcs s)" and "br_race b' = br_race (sv_bcs s ! i)" and "subs_wf (br_subs b')"
  shows "server_inv X (s\<lparr>sv_bcs := (sv_bcs s)[i := b']\<rparr>)"
proof -
  have pool: "pool_ok s" using assms(1) by (simp add: server_inv_def)
  have same: "map br_race ((sv_bcs s)[i := b']) = map br_race (sv_bcs s)"
    using assms(2,3) by (simp add: map_update list_update_same_conv)
  then have ids: "br_race ` set ((sv_bcs s)[i := b']) = br_race ` set (sv_bcs s)"
    by (metis set_map)
  have ok: "br_race b < length (sv_heap s) \<and> subs_wf (br_subs b)" if "b \<in> set ((sv_bcs s)[i := b'])" for b
  proof -
    have "b = b' \<or> b \<in> set (sv_bcs s)" using set_update_subset_insert [of "sv_bcs s" i b'] that by blast
    moreover have "sv_bcs s ! i \<in> set (sv_bcs s)" using assms(2) by simp
    ultimately show ?thesis using pool assms(3,4) by (auto simp: pool_ok_def)
  qed
  have "(\<exists>b \<in> set ((sv_bcs s)[i := b']). raceID (sv_heap s ! br_race b) = rid) \<longleftrightarrow>
      (\<exists>b \<in> set (sv_bcs s). raceID (sv_heap s ! br_race b) = rid)" for rid
    using ids by (metis (mono_tags, lifting) imageE imageI)
  then have "pool_ok (s\<lparr>sv_bcs := (sv_bcs s)[i := b']\<rparr>)"
    using pool ok same unfolding pool_ok_def by simp
  then show ?thesis using assms(1) by (simp add: server_inv_def run_at_def)
qed

lemma bcs_nth: "server_inv X s \<Longrightarrow> i < length (sv_bcs s) \<Longrightarrow>
    br_race (sv_bcs s ! i) < length (sv_heap s) \<and> subs_wf (br_subs (sv_bcs s ! i))"
  by (simp add: server_inv_def pool_ok_def)

lemma follow_inv:
  assumes "server_inv X s" and "i < length (sv_bcs s)"
  shows "server_inv X (follow_tick ord i s)"
  using bcs_nth [OF assms] subs.adds_listed [of "br_subs (sv_bcs s ! i)"]
  by (auto simp: follow_tick_def Let_def assms(1) intro!: bcs_update_inv [OF assms])

lemma broadcast_inv:
  assumes "server_inv X s" and i: "i < length (sv_bcs s)"
    and "broadcast_step marshal arm ctxDone (sv_heap s ! br_race (sv_bcs s ! i)) (sv_bcs s ! i) = (r', b')"
  shows "server_inv X (set_race (br_race (sv_bcs s ! i)) r' s\<lparr>sv_bcs := (sv_bcs s)[i := b']\<rparr>)"
proof -
  let ?p = "br_race (sv_bcs s ! i)"
  note p = bcs_nth [OF assms(1) i]
  have "alone X (run_at s ?p)" using assms(1) p by (simp add: server_inv_def)
  then have "alone X (run_at s ?p\<lparr>race := r'\<rparr>)"
    by (rule alone_broadcast) (use assms(3) in \<open>simp add: run_at_def\<close>)
  moreover have "raceID r' = raceID (sv_heap s ! ?p)" "br_race b' = ?p" "br_subs b' = br_subs (sv_bcs s ! i)"
    using assms(3) by (auto simp: broadcast_step_def split: if_splits arm.splits option.splits)
  ultimately have "server_inv X (set_race ?p r' s)" using set_race_inv [OF assms(1)] p by blast
  then show ?thesis
    using bcs_update_inv [of X "set_race ?p r' s" i b'] i p \<open>br_race b' = ?p\<close> \<open>br_subs b' = br_subs (sv_bcs s ! i)\<close>
    by (simp add: set_race_def)
qed

lemma server_step_inv: "server_step X s s' \<Longrightarrow> server_inv X s \<Longrightarrow> server_inv X s'"
  by (induction rule: server_step.induct)
    (simp_all add: datagram_inv loop_step_inv watch_inv(1) follow_inv broadcast_inv)

lemma served_inv: "served X s0 s \<Longrightarrow> server_inv X s0 \<Longrightarrow> server_inv X s"
  by (induction rule: served.induct) (auto intro: server_step_inv)

subsection \<open>Properties\<close>

text \<open>C2. The game server is a composition of races: whatever datagrams arrive and however the goroutines interleave, each race is in a state it
  reaches on its own from the state the manager made it in, with nobody ever leaving it. So its callback has
  been called at most once, and only for a finished race, its results name no player twice,
  and it has at most as many players as it may.\<close>

theorem server_races_are_races:
  assumes "served X (boot v db) s" and "p < length (sv_heap s)"
  shows "(\<exists>rid track hz laps mp t. reachable_staying (o_math X) (o_us X)
       (init_run (New rid track hz laps mp t\<lparr>OnFinish := True\<rparr>)) (run_at s p)) \<and>
    finishCalls (sv_runs s ! p) \<le> 1 \<and>
    (finishCalls (sv_runs s ! p) = 1 \<longrightarrow> status (sv_heap s ! p) = StatusFinished) \<and>
    distinct (map rr_PlayerID (FinalResults (sv_heap s ! p))) \<and>
    int (gm_len (players (sv_heap s ! p))) \<le> MaxPlayers (sv_heap s ! p)"
proof -
  have al: "alone X (run_at s p)" using served_inv [OF assms(1) boot_inv] assms(2) by (simp add: server_inv_def)
  have r: "race (run_at s p) = sv_heap s ! p" "finishCalls (run_at s p) = finishCalls (sv_runs s ! p)"
    by (simp_all add: run_at_def)
  have inv: "race_wf (sv_heap s ! p)" "order_exact (sv_heap s ! p)" "ctl_inv (run_at s p)"
    using alone_inv(1,2) [OF al] r by (simp_all add: loop_inv_def)
  have "finishCalls (sv_runs s ! p) \<le> 1 \<and>
      (finishCalls (sv_runs s ! p) = 1 \<longrightarrow> status (sv_heap s ! p) = StatusFinished)"
    using inv(3) r by (auto simp: ctl_inv_def split: if_splits)
  moreover have "distinct (map rr_PlayerID (FinalResults (sv_heap s ! p)))"
    using inv(2) by (simp add: order_exact_results [OF inv(1,2)] order_exact_def o_def result_of_def Let_def)
  moreover have "int (gm_len (players (sv_heap s ! p))) \<le> MaxPlayers (sv_heap s ! p)"
    using inv(1) by (simp add: race_wf_def)
  moreover have "\<exists>rid track hz laps mp t. reachable_staying (o_math X) (o_us X)
       (init_run (New rid track hz laps mp t\<lparr>OnFinish := True\<rparr>)) (run_at s p)"
    using al unfolding alone_def fresh_race_def by blast
  ultimately show ?thesis by blast
qed

definition demo_outside :: "(unit, unit) outside" where
  "demo_outside = \<lparr>o_proto = demo_proto, o_verify = lenient, o_math = flat_lib, o_us = (\<lambda>_. ''id''),
     o_marshal = (\<lambda>_. Some [])\<rparr>"

text \<open>The server after the player 9 has joined match 5 from the address \<open>a\<close>, and after the watcher's next tick.\<close>

definition demo_server :: "unit Server" where
  "demo_server = start_races (snd (Handle demo_proto lenient () demo_world [1] ''a'' (sv_game (boot () demo_tables))))
     (boot () demo_tables)"

definition demo_watched :: "unit Server" where
  "demo_watched = watch_tick [77] demo_server"

lemma demo_served: "served demo_outside (boot () demo_tables) demo_server"
proof -
  let ?s = "boot () demo_tables"
  have out: "fst (Handle demo_proto lenient () demo_world [1] ''a'' (sv_game ?s)) = Returns [1]" by code_simp
  have "server_step demo_outside ?s demo_server"
    unfolding demo_server_def
    by (rule server_step.datagram [of _ "()" demo_world "[1]" "''a''" _ "[1]"])
      (use out in \<open>simp_all add: demo_outside_def prod_eq_iff handler_waits_def boot_def\<close>)
  then show ?thesis using served.more served.start by blast
qed

lemma demo_watched_served: "served demo_outside (boot () demo_tables) demo_watched"
proof -
  have "gm_order [77] (m_races (g_mgr (sv_game demo_server)))" unfolding gm_order_def by code_simp
  then show ?thesis
    unfolding demo_watched_def by (intro served.more [OF demo_served] server_step.watch)
qed

theorem server_races_are_races_witness:
  "finishCalls (sv_runs demo_server ! 0) \<le> 1 \<and> length (sv_heap demo_server) = 1"
proof -
  have "length (sv_heap demo_server) = 1" by code_simp
  with server_races_are_races [OF demo_served, of 0] show ?thesis by simp
qed

text \<open>C13. Every race is broadcast once and to its players: no two broadcasters serve the same race; the next tick of the watcher gives a
  broadcaster to every race that is registered at that moment, before the finished ones are dropped; and the next tick of a
  broadcaster's follower has it send to every player whose session is in its race, as long as the race is not done. An address, once
  listed, is not replaced.\<close>

theorem every_race_is_broadcast:
  assumes "served X (boot v db) s"
  shows "distinct (map br_race (sv_bcs s)) \<and>
    (\<forall>ord rid p. rid \<in> set ord \<and> Get rid (g_mgr (sv_game s)) = Some p \<longrightarrow>
       (\<exists>b \<in> set (sv_bcs (watch_tick ord s)). raceID (sv_heap s ! br_race b) = rid)) \<and>
    (\<forall>i ord pid. i < length (sv_bcs s) \<and> pid \<in> set ord \<and> \<not> DoneClosed (sv_heap s ! br_race (sv_bcs s ! i)) \<and>
       RaceFromPlayer pid (g_sess (sv_game s)) = Some (br_race (sv_bcs s ! i)) \<longrightarrow>
       pid \<in> fst ` set (entries (br_subs (sv_bcs (follow_tick ord i s) ! i))) \<and>
       set (entries (br_subs (sv_bcs s ! i))) \<subseteq> set (entries (br_subs (sv_bcs (follow_tick ord i s) ! i))))"
proof -
  have inv: "server_inv X s" using served_inv [OF assms boot_inv] .
  have watch: "\<exists>b \<in> set (sv_bcs (watch_tick ord s)). raceID (sv_heap s ! br_race b) = rid"
    if "rid \<in> set ord" "Get rid (g_mgr (sv_game s)) = Some p" for ord rid p
  proof -
    have "p \<in> set (Manager.List ord (g_mgr (sv_game s)))" using that by (auto simp: List_Get)
    moreover have "raceID (sv_heap s ! p) = rid"
      using sessions_wf [OF inv] that(2) by (auto simp: mgr_wf_def Get_def)
    ultimately show ?thesis using watch_inv(3) [OF inv] by blast
  qed
  have follow: "pid \<in> fst ` set (entries (br_subs (sv_bcs (follow_tick ord i s) ! i))) \<and>
       set (entries (br_subs (sv_bcs s ! i))) \<subseteq> set (entries (br_subs (sv_bcs (follow_tick ord i s) ! i)))"
    if i: "i < length (sv_bcs s)" and pid: "pid \<in> set ord" "RaceFromPlayer pid (g_sess (sv_game s)) = Some (br_race (sv_bcs s ! i))"
      and run: "\<not> DoneClosed (sv_heap s ! br_race (sv_bcs s ! i))" for i ord pid
  proof -
    let ?views = "RacePlayers ord (Some (br_race (sv_bcs s ! i))) (g_sess (sv_game s))"
    let ?new = "map (\<lambda>v. (pv_PlayerID v, Some (pv_Addr v))) ?views"
    have "pid \<in> pv_PlayerID ` set (List.map_filter f ord)"
      if "f pid = Some x" "pv_PlayerID x = pid" for f :: "uuid \<Rightarrow> PlayerView option" and x
      using pid(1) that by (induction ord) (auto simp: map_filter_simps split: option.split)
    then have "pid \<in> fst ` set ?new"
      using pid(2) by (force simp: RacePlayers_def RaceFromPlayer_def image_image split: option.splits)
    then show ?thesis
      using subs.adds_listed [of "br_subs (sv_bcs s ! i)" ?new] bcs_nth [OF inv i] i run
      by (auto simp: follow_tick_def Let_def)
  qed
  have "distinct (map br_race (sv_bcs s))" using inv by (simp add: server_inv_def pool_ok_def)
  with watch follow show ?thesis by blast
qed

theorem every_race_is_broadcast_witness:
  "9 \<in> fst ` set (entries (br_subs (sv_bcs (follow_tick [9] 0 demo_watched) ! 0)))"
proof -
  have "0 < length (sv_bcs demo_watched)" "\<not> DoneClosed (sv_heap demo_watched ! br_race (sv_bcs demo_watched ! 0))"
    "RaceFromPlayer 9 (g_sess (sv_game demo_watched)) = Some (br_race (sv_bcs demo_watched ! 0))"
    by code_simp+
  then show ?thesis using every_race_is_broadcast [OF demo_watched_served] by simp
qed

text \<open>C14. Snapshots go back to where a player came from: the tick of the follower lists a player whose session is in the race, and who is
  not listed yet, at the address its join came from, so that the next snapshot the broadcaster takes is written to that IP and port in
  one well-formed frame. If that address has a zone, as link-local IPv6 addresses do, it is written to no IP at all.\<close>

theorem snapshots_reach_the_sender:
  assumes "served X (boot v db) s" and "i < length (sv_bcs s)" and "b = sv_bcs s ! i" and "\<not> DoneClosed (sv_heap s ! br_race b)"
    and "gm_get (sr_player (g_sess (sv_game s))) p = Some \<lparr>ae_key = UDPAddr_String a, ae_race = Some (br_race b)\<rparr>"
    and "gm_order ord (sr_player (g_sess (sv_game s)))" and "p \<notin> fst ` set (entries (br_subs b))"
    and "endpoint a" and "set (ua_Zone a) \<inter> {CHR ''['', CHR '']''} = {}"
    and "\<not> br_returned b" and "ch_recv (SnapshotOut r) = Some (snap, c)"
    and "marshal snap = Some payload" and "length payload \<le> MaxFrame"
    and "broadcast_step marshal ArmSnapshot ctxDone r (sv_bcs (follow_tick ord i s) ! i) = (r', b')"
  shows "\<exists>f. (f, if ua_Zone a = [] then home a else \<lparr>ua_IP = [], ua_Port = ua_Port a, ua_Zone = []\<rparr>) \<in> set (br_writes b') \<and>
    Decode f = Inr (payload, [])"
proof -
  define A where "A = (if ua_Zone a = [] then home a else \<lparr>ua_IP = [], ua_Port = ua_Port a, ua_Zone = []\<rparr>)"
  have inv: "server_inv X s" using served_inv [OF assms(1) boot_inv] .
  let ?views = "RacePlayers ord (Some (br_race b)) (g_sess (sv_game s))"
  let ?new = "map (\<lambda>v. (pv_PlayerID v, Some (pv_Addr v))) ?views"
  let ?subs = "foldl (\<lambda>t (pid, a). snd (Add pid a t)) (br_subs b) ?new"
  have b1: "sv_bcs (follow_tick ord i s) ! i = b\<lparr>br_subs := ?subs\<rparr>"
    using assms(2-4) by (simp add: follow_tick_def Let_def)
  have addr: "view_addr (UDPAddr_String a) = A" using view_addr_home view_addr_zone assms(8,9) by (simp add: A_def)
  have wf: "subs_wf (br_subs b)" using bcs_nth [OF inv assms(2)] assms(3) by simp
  have "p \<in> set ord" using gm_order_dom [OF assms(6)] assms(5) by auto
  then have view: "\<lparr>pv_PlayerID = p, pv_Addr = A\<rparr> \<in> set ?views"
    using assms(5) addr by (simp add: RacePlayers_iff)
  then have "(p, Some A) \<in> set ?new" using image_eqI [of "(p, Some A)" "\<lambda>v. (pv_PlayerID v, Some (pv_Addr v))" "\<lparr>pv_PlayerID = p, pv_Addr = A\<rparr>"] by simp
  then have "p \<in> fst ` set ?new" using image_eqI [of p fst "(p, Some A)"] by simp
  moreover have "fst ` set (entries ?subs) = fst ` set (entries (br_subs b)) \<union> fst ` set ?new"
    using subs.adds_listed [OF wf, of ?new] by blast
  ultimately have "p \<in> fst ` set (entries ?subs)" by simp
  then obtain x where x: "(p, x) \<in> set (entries ?subs)" by auto
  moreover have "(p, x) \<notin> set (entries (br_subs b))" using assms(7) image_eqI [of p fst "(p, x)"] by auto
  ultimately have "(p, x) \<in> set ?new" using subs.adds_from [OF wf x] by simp
  then have "x = Some A" using assms(5) addr by (auto simp: RacePlayers_iff)
  then have to: "(p, A) \<in> set (with_addr ?subs)" using x by (auto simp: with_addr_def set_map_filter intro!: bexI [of _ "(p, Some A)"])
  obtain f where f: "Encode payload = Inr f" using assms(13) by (simp add: Encode_Inr)
  have "br_writes b' = br_writes b @ map (\<lambda>(_, a). (f, a)) (with_addr ?subs)"
    using assms(10-12,14) f unfolding b1 by (auto simp: broadcast_step_def publish_eq)
  moreover have "(f, A) \<in> set (map (\<lambda>(_, a). (f, a)) (with_addr ?subs))" using to by force
  ultimately show ?thesis using Decode_Encode [OF f, of "[]"] by (intro exI [of _ f]) (simp flip: A_def)
qed

text \<open>The player 9 joins from \<open>127.0.0.1:7\<close>.\<close>

definition local_addr :: UDPAddr where
  "local_addr = \<lparr>ua_IP = [127, 0, 0, 1], ua_Port = 7, ua_Zone = []\<rparr>"

definition local_joined :: "unit Server" where
  "local_joined = start_races
     (snd (Handle demo_proto lenient () demo_world [1] (UDPAddr_String local_addr) (sv_game (boot () demo_tables)))) (boot () demo_tables)"

lemma local_served: "served demo_outside (boot () demo_tables) (watch_tick [77] local_joined)"
proof -
  let ?s = "boot () demo_tables"
  have out: "fst (Handle demo_proto lenient () demo_world [1] (UDPAddr_String local_addr) (sv_game ?s)) = Returns [1]" by code_simp
  have "server_step demo_outside ?s local_joined"
    unfolding local_joined_def
    by (rule server_step.datagram [of _ "()" demo_world "[1]" "UDPAddr_String local_addr" _ "[1]"])
      (use out in \<open>simp_all add: demo_outside_def prod_eq_iff handler_waits_def boot_def\<close>)
  moreover have "gm_order [77] (m_races (g_mgr (sv_game local_joined)))" unfolding gm_order_def by code_simp
  ultimately show ?thesis using served.more [OF served.more [OF served.start] server_step.watch] by blast
qed

theorem snapshots_reach_the_sender_witness:
  "\<exists>f. (f, \<lparr>ua_IP = [0, 0, 0, 0, 0, 0, 0, 0, 0, 0, 0xff, 0xff, 127, 0, 0, 1], ua_Port = 7, ua_Zone = []\<rparr>) \<in>
      set (br_writes (snd (broadcast_step (\<lambda>_. Some [7]) ArmSnapshot False demo_emitting
        (sv_bcs (follow_tick [9] 0 (watch_tick [77] local_joined)) ! 0)))) \<and> Decode f = Inr ([7], [])"
proof -
  let ?s = "watch_tick [77] local_joined"
  have b: "0 < length (sv_bcs ?s)" "\<not> DoneClosed (sv_heap ?s ! br_race (sv_bcs ?s ! 0))" "\<not> br_returned (sv_bcs ?s ! 0)"
    "9 \<notin> fst ` set (entries (br_subs (sv_bcs ?s ! 0)))" "gm_order [9] (sr_player (g_sess (sv_game ?s)))"
    "gm_get (sr_player (g_sess (sv_game ?s))) 9 = Some \<lparr>ae_key = UDPAddr_String local_addr, ae_race = Some (br_race (sv_bcs ?s ! 0))\<rparr>"
    unfolding gm_order_def by code_simp+
  have r: "ch_recv (SnapshotOut demo_emitting) = Some (demo_snapshot, ch_make 4)" by code_simp
  have a: "endpoint local_addr" "set (ua_Zone local_addr) \<inter> {CHR ''['', CHR '']''} = {}" "ua_Zone local_addr = []"
    "home local_addr = \<lparr>ua_IP = [0, 0, 0, 0, 0, 0, 0, 0, 0, 0, 0xff, 0xff, 127, 0, 0, 1], ua_Port = 7, ua_Zone = []\<rparr>"
    by (simp_all add: endpoint_def local_addr_def home_def To16_def v4_mapped_def eval_nat_numeral)
  show ?thesis
    using snapshots_reach_the_sender [OF local_served b(1) refl b(2,6,5,4) a(1,2) b(3) r, of "\<lambda>_. Some [7]" "[7]",
        OF refl _ prod.collapse [symmetric], of False]
    unfolding a(4) [symmetric] by (simp add: a(3) MaxFrame_def)
qed

text \<open>C21. A player who connects late brings the server down: once a match's race is over and the watcher has ticked, a join request for that
  match with a valid token makes the handler dereference a nil race; nothing recovers the panic.\<close>

theorem late_join_crashes:
  assumes "served X (boot v db) s" and "ByMatch m (g_mgr (sv_game s)) = (Some r, True)"
    and "status (sv_heap s ! r) = StatusFinished"
    and "join_ids L req = Some (m, p)" and "verify m p (jr_GameToken req) e (g_ver (sv_game s)) = (None, v')"
  shows "\<exists>msg. fst (handleJoin L verify e w req from (sv_game (watch_tick ord s))) = Panics msg"
proof -
  have inv: "server_inv X s" using served_inv [OF assms(1) boot_inv] .
  have game: "sv_game (watch_tick ord s) = (sv_game s)\<lparr>g_mgr := CleanupFinished (g_mgr (sv_game s))\<rparr>"
    by (rule watch_inv(2) [OF inv])
  show ?thesis
    using assms(5) register_dropped [OF sessions_wf [OF inv] assms(2,3)]
    by (simp add: game handleJoin_eq [OF assms(4)])
qed

text \<open>The server when the context is done: the loop of its race notices at its head and finishes the race.\<close>

definition stop_env :: env where
  "stop_env = \<lparr>e_now = 90, e_now' = 90, e_clock = (\<lambda>_. 90), e_ctx = True, e_wake = WakeCtx, e_ord = [9], e_ord' = [9]\<rparr>"

definition loop_once :: "unit Server \<Rightarrow> unit Server" where
  "loop_once s =
     (case run_step flat_lib (\<lambda>_. ''id'') stop_env (run_at s 0) of
        None \<Rightarrow> s | Some t \<Rightarrow> set_race 0 (race t) s\<lparr>sv_runs := (sv_runs s)[0 := t]\<rparr>)"

lemma loop_once_served:
  assumes "served demo_outside (boot () demo_tables) s" and "length (sv_runs s) = 1" and "env_ok stop_env (sv_heap s ! 0)"
    and "pc (sv_runs s ! 0) \<noteq> FinishCallback True"
  shows "served demo_outside (boot () demo_tables) (loop_once s)"
proof (cases "run_step flat_lib (\<lambda>_. ''id'') stop_env (run_at s 0)")
  case (Some t)
  have "server_step demo_outside s (set_race 0 (race t) s\<lparr>sv_runs := (sv_runs s)[0 := t], sv_db := sv_db s\<rparr>)"
    using server_step.race_goroutine [of 0 s stop_env demo_outside t] assms(2-4) Some
    by (simp add: demo_outside_def)
  then show ?thesis using served.more [OF assms(1)] Some by (simp add: loop_once_def set_race_def)
qed (use assms(1) in \<open>simp add: loop_once_def\<close>)

lemma demo_stopped_served: "served demo_outside (boot () demo_tables) (loop_once (loop_once demo_server))"
proof (intro loop_once_served)
  show "served demo_outside (boot () demo_tables) demo_server" by (rule demo_served)
  show "length (sv_runs demo_server) = 1" "pc (sv_runs demo_server ! 0) \<noteq> FinishCallback True"
    "length (sv_runs (loop_once demo_server)) = 1" "pc (sv_runs (loop_once demo_server) ! 0) \<noteq> FinishCallback True"
    by code_simp+
  show "env_ok stop_env (sv_heap demo_server ! 0)" "env_ok stop_env (sv_heap (loop_once demo_server) ! 0)"
    unfolding env_ok_def gm_order_def by code_simp+
qed

theorem late_join_crashes_witness:
  "\<exists>msg. fst (handleJoin demo_proto lenient () demo_world demo_req2 ''b''
     (sv_game (watch_tick [77] (loop_once (loop_once demo_server))))) = Panics msg"
proof -
  let ?s = "loop_once (loop_once demo_server)"
  have "ByMatch 5 (g_mgr (sv_game ?s)) = (Some 0, True)" "status (sv_heap ?s ! 0) = StatusFinished" by code_simp+
  moreover have "join_ids demo_proto demo_req2 = Some (5, 8)"
    by (simp add: join_ids_def demo_proto_def demo_req2_def)
  moreover have "lenient 5 8 (jr_GameToken demo_req2) () (g_ver (sv_game ?s)) = (None, ())" by (simp add: lenient_def)
  ultimately show ?thesis by (rule late_join_crashes [OF demo_stopped_served])
qed

end
