(* ===== verification/Leaderboard.thy ===== *)
theory Leaderboard
  imports Results Http
begin

text \<open>
  \<open>internal/leaderboard/repo.go\<close> and \<open>handler.go\<close>: the best laps on a track. The query is a
  function on the tables; \<open>ord\<close> is the order in which the database produces the groups, which decides
  between players with the same best lap. \<open>uuid.Parse\<close> is a parameter.
\<close>

subsection \<open>The repository\<close>

record LbEntry =
  lb_Rank :: nat
  lb_PlayerID :: uuid
  lb_DisplayName :: string
  lb_BestLapMs :: int
  lb_AchievedAt :: "gotime option"

record LbTrack =
  lt_TrackID :: uuid
  lt_Name :: string

datatype db_error = ErrNoRows | DbFailure string

definition LoadTrack :: "string option \<Rightarrow> uuid \<Rightarrow> tables \<Rightarrow> db_error + LbTrack" where
  "LoadTrack fault tid db =
     (case fault of
        Some err \<Rightarrow> Inl (DbFailure (''leaderboard: load track: '' @ err))
      | None \<Rightarrow>
          (case gm_get (t_tracks db) tid of
             None \<Rightarrow> Inl ErrNoRows
           | Some name \<Rightarrow> Inr \<lparr>lt_TrackID = tid, lt_Name = name\<rparr>))"

text \<open>The joined rows that pass the \<open>WHERE\<close> clause: lap time and creation of each counted result.\<close>

definition counted :: "uuid \<Rightarrow> uuid \<Rightarrow> tables \<Rightarrow> (int \<times> gotime option) list" where
  "counted tid pid db =
     List.map_filter (\<lambda>((rid, p), row).
       if p = pid \<and> map_option row_track (gm_get (t_races db) rid) = Some tid
       then (case row_best_lap_ms row of
               None \<Rightarrow> None
             | Some b \<Rightarrow> if 0 < b then Some (b, gm_get (t_created db) (rid, p)) else None)
       else None) (t_race_results db)"

definition best_lap :: "uuid \<Rightarrow> tables \<Rightarrow> uuid \<Rightarrow> int" where
  "best_lap tid db pid = Min (set (map fst (counted tid pid db)))"

text \<open>\<open>MIN(created_at)\<close> over the group; it is NULL only if no row has one.\<close>

definition achieved :: "uuid \<Rightarrow> tables \<Rightarrow> uuid \<Rightarrow> gotime option" where
  "achieved tid db pid =
     (case List.map_filter snd (counted tid pid db) of [] \<Rightarrow> None | t # ts \<Rightarrow> Some (foldl min t ts))"

definition lb_groups :: "uuid \<Rightarrow> uuid list \<Rightarrow> tables \<Rightarrow> (uuid \<times> string) list" where
  "lb_groups tid ord db =
     List.map_filter (\<lambda>pid. case gm_get (t_players db) pid of
         None \<Rightarrow> None
       | Some name \<Rightarrow> if counted tid pid db = [] then None else Some (pid, name)) ord"

definition BestLapsByTrack ::
    "string option \<Rightarrow> uuid list \<Rightarrow> uuid \<Rightarrow> int \<Rightarrow> tables \<Rightarrow> db_error + LbEntry list" where
  "BestLapsByTrack fault ord tid n db =
     (let limit = (if n \<le> 0 then 10 else n)
      in case fault of
           Some err \<Rightarrow> Inl (DbFailure (''leaderboard: best laps: '' @ err))
         | None \<Rightarrow>
             let rows = take (nat limit) (sort_key (\<lambda>(pid, _). best_lap tid db pid) (lb_groups tid ord db))
             in Inr (map (\<lambda>(rank, pid, name). \<lparr>lb_Rank = rank, lb_PlayerID = pid, lb_DisplayName = name,
                        lb_BestLapMs = best_lap tid db pid, lb_AchievedAt = achieved tid db pid\<rparr>)
                      (zip [1..<length rows + 1] rows)))"

text \<open>A player's best lap on each track; tracks in the order \<open>ord\<close>.\<close>

definition PlayerBestPerTrack ::
    "string option \<Rightarrow> uuid list \<Rightarrow> uuid \<Rightarrow> tables \<Rightarrow> db_error + (uuid, int) gomap" where
  "PlayerBestPerTrack fault ord playerID db =
     (case fault of
        Some err \<Rightarrow> Inl (DbFailure (''leaderboard: player bests: '' @ err))
      | None \<Rightarrow>
          Inr (foldl (\<lambda>out tid. if counted tid playerID db = [] then out
                               else gm_put tid (best_lap tid db playerID) out) [] ord))"

subsection \<open>The handler\<close>

record LbResponse =
  lr_TrackID :: uuid
  lr_Name :: string
  lr_Entries :: "LbEntry list"

text \<open>The \<open>limit\<close> parameter: 10 when absent, at most 100, \<open>None\<close> when refused.\<close>

definition parse_limit :: "string \<Rightarrow> int option" where
  "parse_limit l =
     (if l = [] then Some 10
      else case Atoi l of
        None \<Rightarrow> None
      | Some n \<Rightarrow> if n \<le> 0 then None else Some (if 100 < n then 100 else n))"

text \<open>\<open>GET /api/v1/leaderboard\<close>; \<open>fault\<close> and \<open>fault'\<close> are what the two queries meet.\<close>

definition handle_Top ::
    "(string \<Rightarrow> uuid option) \<Rightarrow> string option \<Rightarrow> string option \<Rightarrow> uuid list \<Rightarrow> uuid option \<Rightarrow>
     string \<Rightarrow> string \<Rightarrow> tables \<Rightarrow> LbResponse response" where
  "handle_Top parse fault fault' ord ctx trackIdParam limitParam db =
     (case PlayerIDFromContext ctx of
        None \<Rightarrow> HttpError 401 ''unauthorized''
      | Some _ \<Rightarrow>
          if trackIdParam = [] then HttpError 400 ''trackId is required''
          else case parse trackIdParam of
            None \<Rightarrow> HttpError 400 ''bad trackId uuid''
          | Some tid \<Rightarrow>
          (case parse_limit limitParam of
             None \<Rightarrow> HttpError 400 ''bad limit''
           | Some limit \<Rightarrow>
          (case LoadTrack fault tid db of
             Inl ErrNoRows \<Rightarrow> HttpError 404 ''not found''
           | Inl _ \<Rightarrow> HttpError 500 ''internal''
           | Inr track \<Rightarrow>
          (case BestLapsByTrack fault' ord tid limit db of
             Inl _ \<Rightarrow> HttpError 500 ''internal''
           | Inr entries \<Rightarrow> HttpJSON 200 \<lparr>lr_TrackID = lt_TrackID track, lr_Name = lt_Name track, lr_Entries = entries\<rparr>))))"

subsection \<open>Lemmas\<close>

lemma set_map_filter_Some: "y \<in> set (List.map_filter f xs) \<longleftrightarrow> (\<exists>x \<in> set xs. f x = Some y)"
  by (induction xs) (auto simp: map_filter_simps split: option.split)

lemma lb_groups_set:
  "(pid, name) \<in> set (lb_groups tid ord db) \<longleftrightarrow>
     pid \<in> set ord \<and> gm_get (t_players db) pid = Some name \<and> counted tid pid db \<noteq> []"
  by (auto simp: lb_groups_def set_map_filter_Some split: option.splits if_splits)

lemma lb_groups_distinct: "distinct ord \<Longrightarrow> distinct (map fst (lb_groups tid ord db))"
proof (induction ord)
  case (Cons pid ord)
  have "pid \<notin> fst ` set (lb_groups tid ord db)" using Cons.prems by (auto simp: lb_groups_set)
  then show ?case using Cons by (auto simp: lb_groups_def map_filter_simps split: option.split)
qed (simp add: lb_groups_def map_filter_simps)

lemma best_lap_least:
  "x \<in> set (counted tid pid db) \<Longrightarrow> best_lap tid db pid \<le> fst x"
  by (simp add: best_lap_def)

lemma best_lap_in: "counted tid pid db \<noteq> [] \<Longrightarrow> best_lap tid db pid \<in> fst ` set (counted tid pid db)"
  using Min_in [of "set (map fst (counted tid pid db))"] by (simp add: best_lap_def)

lemma counted_iff:
  assumes "gm_wf (t_race_results db)"
  shows "b \<in> fst ` set (counted tid pid db) \<longleftrightarrow>
    (\<exists>rid row race. gm_get (t_race_results db) (rid, pid) = Some row \<and> gm_get (t_races db) rid = Some race \<and>
       row_track race = tid \<and> row_best_lap_ms row = Some b \<and> 0 < b)"
proof -
  define f where "f = (\<lambda>((rid, p), row :: ResultRow).
       if p = pid \<and> map_option row_track (gm_get (t_races db) rid) = Some tid
       then (case row_best_lap_ms row of
               None \<Rightarrow> None
             | Some b \<Rightarrow> if 0 < b then Some (b, gm_get (t_created db) (rid, p)) else None)
       else None)"
  have f: "f ((rid, p), row) = Some (b, c) \<longleftrightarrow> p = pid \<and> map_option row_track (gm_get (t_races db) rid) = Some tid \<and>
      row_best_lap_ms row = Some b \<and> 0 < b \<and> c = gm_get (t_created db) (rid, p)" for rid p row c
    by (auto simp: f_def split: option.split)
  have mem: "((rid, p), row) \<in> set (t_race_results db) \<longleftrightarrow> gm_get (t_race_results db) (rid, p) = Some row" for rid p row
    using assms by (simp add: gm_wf_def gm_get_def)
  have "b \<in> fst ` set (counted tid pid db) \<longleftrightarrow> (\<exists>c rid p row. ((rid, p), row) \<in> set (t_race_results db) \<and> f ((rid, p), row) = Some (b, c))"
    unfolding counted_def f_def [symmetric] by (force simp: set_map_filter_Some)
  then show ?thesis unfolding f mem by auto
qed

lemma sort_take_greatest:
  assumes "x \<in> set (take n (sort_key k xs))" and "y \<in> set xs" and "y \<notin> set (take n (sort_key k xs))"
  shows "k x \<le> k y"
proof -
  let ?s = "sort_key k xs"
  have "y \<in> set (drop n ?s)" using assms(2,3) append_take_drop_id [of n ?s] by (metis Un_iff set_append set_sort)
  moreover have "sorted (map k (take n ?s) @ map k (drop n ?s))"
    by (simp add: map_append [symmetric] del: map_append)
  ultimately show ?thesis using assms(1) by (auto simp: sorted_append)
qed

subsection \<open>Properties\<close>

text \<open>The reference: the lap times that count for a player on a track.\<close>

definition lap_times :: "uuid \<Rightarrow> uuid \<Rightarrow> tables \<Rightarrow> int set" where
  "lap_times tid pid db = {b. \<exists>rid row race. gm_get (t_race_results db) (rid, pid) = Some row \<and>
     gm_get (t_races db) rid = Some race \<and> row_track race = tid \<and> row_best_lap_ms row = Some b \<and> 0 < b}"

lemma counted_lap_times: "gm_wf (t_race_results db) \<Longrightarrow> fst ` set (counted tid pid db) = lap_times tid pid db"
  by (rule set_eqI) (simp add: counted_iff lap_times_def)

definition board_rows :: "uuid list \<Rightarrow> uuid \<Rightarrow> int \<Rightarrow> tables \<Rightarrow> (uuid \<times> string) list" where
  "board_rows ord tid n db = take (nat n) (sort_key (\<lambda>(pid, _). best_lap tid db pid) (lb_groups tid ord db))"

lemma BestLapsByTrack_rows:
  assumes "0 < n" and "BestLapsByTrack None ord tid n db = Inr es"
  shows "map lb_Rank es = [1..<length es + 1]" and "map lb_PlayerID es = map fst (board_rows ord tid n db)"
    and "map lb_DisplayName es = map snd (board_rows ord tid n db)"
    and "map lb_BestLapMs es = map (best_lap tid db) (map lb_PlayerID es)"
proof -
  let ?rows = "board_rows ord tid n db"
  let ?Z = "zip [1..<length ?rows + 1] ?rows"
  have Z: "map fst ?Z = [1..<length ?rows + 1]" "map snd ?Z = ?rows" by (simp_all del: upt_Suc)
  have es: "es = map (\<lambda>x. \<lparr>lb_Rank = fst x, lb_PlayerID = fst (snd x), lb_DisplayName = snd (snd x),
        lb_BestLapMs = best_lap tid db (fst (snd x)), lb_AchievedAt = achieved tid db (fst (snd x))\<rparr>) ?Z"
    using assms by (simp add: BestLapsByTrack_def Let_def board_rows_def case_prod_unfold del: upt_Suc)
  have "map lb_Rank es = map fst ?Z" "map lb_PlayerID es = map fst (map snd ?Z)"
    "map lb_DisplayName es = map snd (map snd ?Z)"
    unfolding es map_map comp_def by (simp_all del: upt_Suc)
  moreover have "length es = length ?rows" by (simp add: es del: upt_Suc)
  ultimately show "map lb_Rank es = [1..<length es + 1]" and "map lb_PlayerID es = map fst ?rows"
    and "map lb_DisplayName es = map snd ?rows"
    unfolding Z by simp_all
  show "map lb_BestLapMs es = map (best_lap tid db) (map lb_PlayerID es)"
    unfolding es map_map comp_def by (simp del: upt_Suc)
qed

lemma board_rows_facts:
  assumes "distinct ord"
  shows "sorted (map (\<lambda>(pid, _). best_lap tid db pid) (board_rows ord tid n db))"
    and "distinct (map fst (board_rows ord tid n db))"
    and "set (board_rows ord tid n db) \<subseteq> set (lb_groups tid ord db)"
    and "length (board_rows ord tid n db) = min (length (lb_groups tid ord db)) (nat n)"
proof -
  let ?k = "\<lambda>(pid, _ :: string). best_lap tid db pid" and ?G = "lb_groups tid ord db"
  have "sorted (map ?k (sort_key ?k ?G))" by simp
  then show "sorted (map ?k (board_rows ord tid n db))"
    by (simp add: board_rows_def take_map [symmetric] sorted_wrt_take)
  have "distinct (map fst (sort_key ?k ?G))"
    using lb_groups_distinct [OF assms, of tid db] by (simp add: distinct_map)
  then show "distinct (map fst (board_rows ord tid n db))" by (simp add: board_rows_def take_map [symmetric])
  show "set (board_rows ord tid n db) \<subseteq> set ?G"
    using set_take_subset [of "nat n" "sort_key ?k ?G"] by (simp add: board_rows_def)
qed (simp add: board_rows_def)

lemma left_out:
  assumes "(pid, name) \<in> set (lb_groups tid ord db)" and "(pid, name) \<notin> set (board_rows ord tid n db)"
    and "b \<in> fst ` set (counted tid pid db)"
  shows "length (board_rows ord tid n db) = nat n"
    and "x \<in> set (board_rows ord tid n db) \<Longrightarrow> best_lap tid db (fst x) \<le> b"
proof -
  let ?k = "\<lambda>(pid, _ :: string). best_lap tid db pid" and ?G = "lb_groups tid ord db"
  show "length (board_rows ord tid n db) = nat n"
  proof (rule ccontr)
    assume "length (board_rows ord tid n db) \<noteq> nat n"
    then have "board_rows ord tid n db = sort_key ?k ?G" by (simp add: board_rows_def)
    then show False using assms(1,2) by simp
  qed
  assume "x \<in> set (board_rows ord tid n db)"
  then have "?k x \<le> ?k (pid, name)"
    using sort_take_greatest [of x "nat n" ?k ?G "(pid, name)"] assms(1,2) unfolding board_rows_def by blast
  also have "\<dots> \<le> b" using assms(3) best_lap_least by fastforce
  finally show "best_lap tid db (fst x) \<le> b" by (simp add: case_prod_unfold)
qed

text \<open>C30. The leaderboard is the ranking of the best laps on a track: ranks count from 1, lap times ascend, no player appears
  twice; each entry is a player under its name with the least positive best lap it has in a result of a race on that track; a
  player left out has no such lap, or the board is full and its best lap is no better than any on the board.\<close>

theorem leaderboard_is_ranking:
  assumes "gm_wf (t_race_results db)" and "distinct ord" and "dom (gm_get (t_players db)) \<subseteq> set ord" and "0 < n"
    and "BestLapsByTrack None ord tid n db = Inr es"
  shows "map lb_Rank es = [1..<length es + 1] \<and> sorted (map lb_BestLapMs es) \<and> distinct (map lb_PlayerID es) \<and>
    int (length es) \<le> n \<and>
    (\<forall>e \<in> set es. gm_get (t_players db) (lb_PlayerID e) = Some (lb_DisplayName e) \<and>
       lb_BestLapMs e \<in> lap_times tid (lb_PlayerID e) db \<and>
       (\<forall>b \<in> lap_times tid (lb_PlayerID e) db. lb_BestLapMs e \<le> b)) \<and>
    (\<forall>pid name b. gm_get (t_players db) pid = Some name \<and> pid \<notin> set (map lb_PlayerID es) \<and> b \<in> lap_times tid pid db \<longrightarrow>
       int (length es) = n \<and> (\<forall>e \<in> set es. lb_BestLapMs e \<le> b))"
proof -
  let ?rows = "board_rows ord tid n db"
  note maps = BestLapsByTrack_rows [OF assms(4,5)] and rows = board_rows_facts [OF assms(2), where tid = tid and db = db and n = n]
  have len: "length es = length ?rows" using arg_cong [OF maps(2), of length] by simp
  have "map lb_BestLapMs es = map (\<lambda>(pid, _). best_lap tid db pid) ?rows"
    by (simp add: maps(2,4) o_def case_prod_unfold)
  then have order: "sorted (map lb_BestLapMs es)" "distinct (map lb_PlayerID es)" "int (length es) \<le> n"
    using rows assms(4) len by (simp_all add: maps(2))
  have entry: "gm_get (t_players db) (lb_PlayerID e) = Some (lb_DisplayName e) \<and>
      lb_BestLapMs e \<in> fst ` set (counted tid (lb_PlayerID e) db) \<and>
      (\<forall>b \<in> fst ` set (counted tid (lb_PlayerID e) db). lb_BestLapMs e \<le> b)" if "e \<in> set es" for e
  proof -
    obtain i where i: "i < length es" "e = es ! i" using \<open>e \<in> set es\<close> by (auto simp: in_set_conv_nth)
    have "lb_PlayerID e = fst (?rows ! i)" "lb_DisplayName e = snd (?rows ! i)"
      "lb_BestLapMs e = best_lap tid db (lb_PlayerID e)"
      using i len arg_cong [OF maps(2), of "\<lambda>xs. xs ! i"] arg_cong [OF maps(3), of "\<lambda>xs. xs ! i"]
        arg_cong [OF maps(4), of "\<lambda>xs. xs ! i"] by simp_all
    moreover have "?rows ! i \<in> set (lb_groups tid ord db)" using rows(3) i(1) len by (metis nth_mem subsetD)
    ultimately show ?thesis
      using lb_groups_set [of "fst (?rows ! i)" "snd (?rows ! i)" tid ord db] best_lap_in best_lap_least by fastforce
  qed
  have out: "int (length es) = n \<and> (\<forall>e \<in> set es. lb_BestLapMs e \<le> b)"
    if pid: "gm_get (t_players db) pid = Some name" "pid \<notin> set (map lb_PlayerID es)"
      and b: "b \<in> fst ` set (counted tid pid db)" for pid name b
  proof -
    have "(pid, name) \<in> set (lb_groups tid ord db)" using b pid(1) assms(3) by (auto simp: lb_groups_set)
    moreover have "(pid, name) \<notin> set ?rows" using pid(2) unfolding maps(2) by force
    ultimately have "length ?rows = nat n" "\<And>x. x \<in> set ?rows \<Longrightarrow> best_lap tid db (fst x) \<le> b"
      using left_out [of pid name tid ord db n b] b by blast+
    moreover have "lb_BestLapMs e \<in> (\<lambda>x. best_lap tid db (fst x)) ` set ?rows" if "e \<in> set es" for e
    proof -
      have "lb_BestLapMs e \<in> set (map lb_BestLapMs es)" using that by simp
      then show ?thesis unfolding maps(4) maps(2) by auto
    qed
    ultimately show ?thesis using len assms(4) by fastforce
  qed
  show ?thesis
    unfolding counted_lap_times [OF assms(1), symmetric]
    by (intro conjI ballI allI impI maps(1) order) (use entry out in blast)+
qed

text \<open>Two races on track 3: player 9 improves from 5 to 4 seconds, player 8 has one lap of 4.5.\<close>

definition demo_board :: tables where
  "demo_board = \<lparr>t_tracks = [(3, ''t'')], t_players = [(8, ''eight''), (9, ''nine'')],
     t_races = [(77, \<lparr>row_track = 3, row_started = 0, row_finished = 1000\<rparr>),
                (78, \<lparr>row_track = 3, row_started = 0, row_finished = 2000\<rparr>)],
     t_race_players = [],
     t_race_results = [((77, 9), \<lparr>row_position = 1, row_total_time_ms = 9000, row_best_lap_ms = Some 5000\<rparr>),
                       ((77, 8), \<lparr>row_position = 2, row_total_time_ms = 9500, row_best_lap_ms = Some 4500\<rparr>),
                       ((78, 9), \<lparr>row_position = 1, row_total_time_ms = 8000, row_best_lap_ms = Some 4000\<rparr>)],
     t_created = [((77, 9), 1000), ((77, 8), 1000), ((78, 9), 2000)]\<rparr>"

lemma demo_board_best: "BestLapsByTrack None [8, 9] 3 10 demo_board = Inr
   [\<lparr>lb_Rank = 1, lb_PlayerID = 9, lb_DisplayName = ''nine'', lb_BestLapMs = 4000, lb_AchievedAt = Some 1000\<rparr>,
    \<lparr>lb_Rank = 2, lb_PlayerID = 8, lb_DisplayName = ''eight'', lb_BestLapMs = 4500, lb_AchievedAt = Some 1000\<rparr>]"
  by code_simp

theorem leaderboard_is_ranking_witness:
  "5000 \<in> lap_times 3 9 demo_board \<and> 3999 \<notin> lap_times 3 9 demo_board"
proof -
  have "gm_wf (t_race_results demo_board)" unfolding gm_wf_def by code_simp
  moreover have "dom (gm_get (t_players demo_board)) \<subseteq> set [8, 9]"
    by (auto simp: demo_board_def gm_get_def split: if_splits)
  ultimately have "\<forall>b \<in> lap_times 3 9 demo_board. 4000 \<le> b"
    using leaderboard_is_ranking [OF _ _ _ _ demo_board_best] by simp
  moreover have "5000 \<in> lap_times 3 9 demo_board"
    by (auto simp: lap_times_def demo_board_def gm_get_def intro: exI [of _ 77])
  ultimately show ?thesis by fastforce
qed

end
