(* ===== verification/RaceHistory.thy ===== *)
theory RaceHistory
  imports Leaderboard
begin

text \<open>
  \<open>internal/racehistory/repo.go\<close> and \<open>handler.go\<close>: a player's races, page by page, and one race in detail.
  Every race in the tables has been stored finished, so its \<open>finished_at\<close> is not NULL and its
  status is \<open>finished\<close>. \<open>ord\<close> is the order in which the database produces the rows before it sorts
  them; \<open>uuid.Parse\<close> and \<open>time.Parse\<close> with the two layouts are parameters.
\<close>

subsection \<open>The repository\<close>

record PlayerRaceRow =
  pr_RaceID :: uuid
  pr_TrackID :: uuid
  pr_TrackName :: string
  pr_FinishedAt :: gotime
  pr_Position :: int
  pr_TotalTimeMs :: int
  pr_BestLapMs :: int

record PlayerHistoryPage =
  hp_Races :: "PlayerRaceRow list"
  hp_NextCursor :: "gotime option"

definition coalesce0 :: "int option \<Rightarrow> int" where
  "coalesce0 b = (case b of None \<Rightarrow> 0 | Some n \<Rightarrow> n)"

text \<open>The joined row of a player's result in race \<open>rid\<close>.\<close>

definition history_row :: "uuid \<Rightarrow> tables \<Rightarrow> uuid \<Rightarrow> PlayerRaceRow option" where
  "history_row playerID db rid =
     (case (gm_get (t_race_results db) (rid, playerID), gm_get (t_races db) rid) of
        (Some row, Some rc) \<Rightarrow>
          (case gm_get (t_tracks db) (row_track rc) of
             None \<Rightarrow> None
           | Some name \<Rightarrow>
               Some \<lparr>pr_RaceID = rid, pr_TrackID = row_track rc, pr_TrackName = name,
                     pr_FinishedAt = row_finished rc, pr_Position = row_position row,
                     pr_TotalTimeMs = row_total_time_ms row, pr_BestLapMs = coalesce0 (row_best_lap_ms row)\<rparr>)
      | _ \<Rightarrow> None)"

definition clamp_limit :: "int \<Rightarrow> int" where
  "clamp_limit limit = (let limit = (if limit \<le> 0 then 20 else limit) in if 100 < limit then 100 else limit)"

definition history_rows :: "uuid list \<Rightarrow> uuid \<Rightarrow> gotime option \<Rightarrow> tables \<Rightarrow> PlayerRaceRow list" where
  "history_rows ord playerID cursor db =
     sort_key (\<lambda>r. - pr_FinishedAt r)
       (filter (\<lambda>r. case cursor of None \<Rightarrow> True | Some c \<Rightarrow> pr_FinishedAt r < c)
          (List.map_filter (history_row playerID db) ord))"

definition ListByPlayer ::
    "string option \<Rightarrow> uuid list \<Rightarrow> uuid \<Rightarrow> gotime option \<Rightarrow> int \<Rightarrow> tables \<Rightarrow> db_error + PlayerHistoryPage" where
  "ListByPlayer fault ord playerID cursor limit db =
     (let limit = clamp_limit limit
      in case fault of
           Some err \<Rightarrow> Inl (DbFailure (''racehistory: list: '' @ err))
         | None \<Rightarrow>
             let races = take (nat limit) (history_rows ord playerID cursor db)
             in Inr \<lparr>hp_Races = races,
                     hp_NextCursor = (if int (length races) = limit then Some (pr_FinishedAt (last races)) else None)\<rparr>)"

record DetailRow =
  dr_PlayerID :: uuid
  dr_DisplayName :: string
  dr_Position :: int
  dr_TotalTimeMs :: int
  dr_BestLapMs :: int

record RaceDetail =
  rd_RaceID :: uuid
  rd_TrackID :: uuid
  rd_TrackName :: string
  rd_Status :: string
  rd_StartedAt :: gotime
  rd_FinishedAt :: gotime
  rd_Results :: "DetailRow list"

definition detail_row :: "uuid \<Rightarrow> tables \<Rightarrow> uuid \<Rightarrow> DetailRow option" where
  "detail_row rid db pid =
     (case (gm_get (t_race_results db) (rid, pid), gm_get (t_players db) pid) of
        (Some row, Some name) \<Rightarrow>
          Some \<lparr>dr_PlayerID = pid, dr_DisplayName = name, dr_Position = row_position row,
                dr_TotalTimeMs = row_total_time_ms row, dr_BestLapMs = coalesce0 (row_best_lap_ms row)\<rparr>
      | _ \<Rightarrow> None)"

datatype history_error = ErrNotFound | FromDb db_error

text \<open>\<open>TranslateError\<close>, which nothing calls.\<close>

fun TranslateError :: "history_error \<Rightarrow> history_error" where
  "TranslateError (FromDb ErrNoRows) = ErrNotFound"
| "TranslateError err = err"

definition GetRace ::
    "string option \<Rightarrow> string option \<Rightarrow> uuid list \<Rightarrow> uuid \<Rightarrow> tables \<Rightarrow> history_error + RaceDetail" where
  "GetRace fault fault' ord raceId db =
     (case fault of
        Some err \<Rightarrow> Inl (FromDb (DbFailure err))
      | None \<Rightarrow>
     (case gm_get (t_races db) raceId of
        None \<Rightarrow> Inl (FromDb ErrNoRows)
      | Some rc \<Rightarrow>
     (case gm_get (t_tracks db) (row_track rc) of
        None \<Rightarrow> Inl (FromDb ErrNoRows)
      | Some name \<Rightarrow>
     (case fault' of
        Some err \<Rightarrow> Inl (FromDb (DbFailure err))
      | None \<Rightarrow>
          Inr \<lparr>rd_RaceID = raceId, rd_TrackID = row_track rc, rd_TrackName = name, rd_Status = ''finished'',
               rd_StartedAt = row_started rc, rd_FinishedAt = row_finished rc,
               rd_Results = sort_key dr_Position (List.map_filter (detail_row raceId db) ord)\<rparr>))))"

subsection \<open>The handlers\<close>

text \<open>The \<open>limit\<close> and \<open>cursor\<close> parameters of \<open>GET /api/v1/players/me/races\<close>.\<close>

definition history_limit :: "string \<Rightarrow> int option" where
  "history_limit l =
     (if l = [] then Some 20
      else case Atoi l of None \<Rightarrow> None | Some n \<Rightarrow> if n \<le> 0 then None else Some n)"

definition history_cursor ::
    "(string \<Rightarrow> gotime option) \<Rightarrow> (string \<Rightarrow> gotime option) \<Rightarrow> string \<Rightarrow> gotime option option" where
  "history_cursor parseNano parsePlain c =
     (if c = [] then Some None
      else case parseNano c of
        Some t \<Rightarrow> Some (Some t)
      | None \<Rightarrow> (case parsePlain c of None \<Rightarrow> None | Some t \<Rightarrow> Some (Some t)))"

definition handle_PlayerRaces ::
    "(string \<Rightarrow> gotime option) \<Rightarrow> (string \<Rightarrow> gotime option) \<Rightarrow> string option \<Rightarrow> uuid list \<Rightarrow> uuid option \<Rightarrow>
     string \<Rightarrow> string \<Rightarrow> tables \<Rightarrow> PlayerHistoryPage response" where
  "handle_PlayerRaces parseNano parsePlain fault ord ctx limitParam cursorParam db =
     (case PlayerIDFromContext ctx of
        None \<Rightarrow> HttpError 401 ''unauthorized''
      | Some playerID \<Rightarrow>
     (case history_limit limitParam of
        None \<Rightarrow> HttpError 400 ''bad limit''
      | Some limit \<Rightarrow>
     (case history_cursor parseNano parsePlain cursorParam of
        None \<Rightarrow> HttpError 400 ''bad cursor''
      | Some cursor \<Rightarrow>
     (case ListByPlayer fault ord playerID cursor limit db of
        Inl _ \<Rightarrow> HttpError 500 ''internal''
      | Inr page \<Rightarrow> HttpJSON 200 page))))"

text \<open>\<open>GET /api/v1/races/{id}\<close>.\<close>

definition handle_Race ::
    "(string \<Rightarrow> uuid option) \<Rightarrow> string option \<Rightarrow> string option \<Rightarrow> uuid list \<Rightarrow> uuid option \<Rightarrow>
     string \<Rightarrow> tables \<Rightarrow> RaceDetail response" where
  "handle_Race parse fault fault' ord ctx idParam db =
     (case PlayerIDFromContext ctx of
        None \<Rightarrow> HttpError 401 ''unauthorized''
      | Some _ \<Rightarrow>
     (case parse idParam of
        None \<Rightarrow> HttpError 400 ''bad uuid''
      | Some rid \<Rightarrow>
     (case GetRace fault fault' ord rid db of
        Inl err \<Rightarrow> if err = ErrNotFound then HttpError 404 ''not found'' else HttpError 500 ''internal''
      | Inr d \<Rightarrow> HttpJSON 200 d)))"

subsection \<open>Reading the history page by page\<close>

text \<open>
  A client that follows \<open>NextCursor\<close> until there is none, at most \<open>n\<close> pages; \<open>ords\<close> gives the database's
  order for each query.
\<close>

fun read_pages ::
    "(nat \<Rightarrow> uuid list) \<Rightarrow> uuid \<Rightarrow> int \<Rightarrow> tables \<Rightarrow> nat \<Rightarrow> gotime option \<Rightarrow> PlayerRaceRow list option" where
  "read_pages ords pid limit db 0 cursor = None"
| "read_pages ords pid limit db (Suc n) cursor =
     (case ListByPlayer None (ords n) pid cursor limit db of
        Inl _ \<Rightarrow> None
      | Inr page \<Rightarrow>
          (case hp_NextCursor page of
             None \<Rightarrow> Some (hp_Races page)
           | Some c \<Rightarrow> map_option ((@) (hp_Races page)) (read_pages ords pid limit db n (Some c))))"

lemma clamp_limit_bounds: "1 \<le> clamp_limit limit \<and> clamp_limit limit \<le> 100"
  by (simp add: clamp_limit_def Let_def)

text \<open>All of a player's rows, and what it takes for a list to be the history.\<close>

definition all_rows :: "uuid \<Rightarrow> tables \<Rightarrow> PlayerRaceRow set" where
  "all_rows pid db = {r. \<exists>rid. history_row pid db rid = Some r}"

definition is_history :: "uuid \<Rightarrow> tables \<Rightarrow> PlayerRaceRow list \<Rightarrow> bool" where
  "is_history pid db rs \<longleftrightarrow> set rs = all_rows pid db \<and> distinct rs \<and> sorted_wrt (\<lambda>r r'. pr_FinishedAt r' < pr_FinishedAt r) rs"

definition db_order :: "tables \<Rightarrow> uuid list \<Rightarrow> bool" where
  "db_order db ord \<longleftrightarrow> distinct ord \<and> dom (gm_get (t_races db)) \<subseteq> set ord"

lemma history_row_id: "history_row pid db rid = Some r \<Longrightarrow> pr_RaceID r = rid \<and> rid \<in> dom (gm_get (t_races db))"
  by (auto simp: history_row_def split: option.splits)

lemma rows_of_order:
  assumes "db_order db ord"
  shows "set (List.map_filter (history_row pid db) ord) = all_rows pid db"
    and "distinct (List.map_filter (history_row pid db) ord)"
proof -
  show "set (List.map_filter (history_row pid db) ord) = all_rows pid db"
    using assms history_row_id by (fastforce simp: set_map_filter_Some all_rows_def db_order_def)
  have "distinct ord \<Longrightarrow> distinct (List.map_filter (history_row pid db) ord)" for ord
  proof (induction ord)
    case (Cons rid ord)
    have "r \<notin> set (List.map_filter (history_row pid db) ord)" if "history_row pid db rid = Some r" for r
      using Cons.prems that by (metis distinct.simps(2) history_row_id set_map_filter_Some)
    then show ?case using Cons by (auto simp: map_filter_simps split: option.split)
  qed (simp add: map_filter_simps)
  then show "distinct (List.map_filter (history_row pid db) ord)" using assms by (simp add: db_order_def)
qed

lemma sorted_strict:
  "sorted_wrt (\<lambda>r r'. pr_FinishedAt r' < pr_FinishedAt r) rs \<longleftrightarrow> sorted_wrt (<) (map (\<lambda>r. - pr_FinishedAt r) rs)"
  by (simp add: sorted_wrt_map)

lemma history_unique:
  assumes "is_history pid db rs" and "is_history pid db rs'"
  shows "rs = rs'"
proof -
  let ?k = "\<lambda>r. - pr_FinishedAt r"
  have s: "sorted_wrt (<) (map ?k rs)" "sorted_wrt (<) (map ?k rs')" and same: "set rs = set rs'"
    using assms by (simp_all add: is_history_def sorted_strict)
  then have d: "distinct (map ?k rs)" "distinct (map ?k rs')" "sorted (map ?k rs)" "sorted (map ?k rs')"
    by (simp_all add: strict_sorted_iff)
  have "map ?k rs = map ?k rs'" using d same by (intro sorted_distinct_set_unique) auto
  moreover have "inj_on ?k (set rs \<union> set rs')" using d(1) same by (simp add: distinct_map)
  ultimately show ?thesis by (rule map_inj_on)
qed

lemma history_rows_filter:
  "history_rows ord pid cursor db =
     filter (\<lambda>r. case cursor of None \<Rightarrow> True | Some c \<Rightarrow> pr_FinishedAt r < c)
       (sort_key (\<lambda>r. - pr_FinishedAt r) (List.map_filter (history_row pid db) ord))"
  by (simp add: history_rows_def filter_sort)

lemma history_rows_None:
  assumes "db_order db ord" and "inj_on pr_FinishedAt (all_rows pid db)"
  shows "is_history pid db (history_rows ord pid None db)"
proof -
  let ?R = "List.map_filter (history_row pid db) ord" and ?k = "\<lambda>r. - pr_FinishedAt r"
  have R: "set ?R = all_rows pid db" "distinct ?R" using rows_of_order [OF assms(1)] by auto
  have "inj_on ?k (set ?R)" using assms(2) by (simp add: R(1) inj_on_def)
  then have "distinct (map ?k (sort_key ?k ?R))" using R(2) by (simp add: distinct_map)
  moreover have "sorted (map ?k (sort_key ?k ?R))" by simp
  ultimately have "sorted_wrt (<) (map ?k (sort_key ?k ?R))" unfolding strict_sorted_iff by blast
  then show ?thesis using R by (simp add: is_history_def history_rows_filter sorted_strict)
qed

lemma history_rows_cursor:
  assumes "db_order db ord" and "inj_on pr_FinishedAt (all_rows pid db)" and "is_history pid db (pre @ rest)"
    and "cursor = (if pre = [] then None else Some (pr_FinishedAt (last pre)))"
  shows "history_rows ord pid cursor db = rest"
proof -
  have all: "sort_key (\<lambda>r. - pr_FinishedAt r) (List.map_filter (history_row pid db) ord) = pre @ rest"
    using history_unique [OF history_rows_None [OF assms(1,2)] assms(3)] by (simp add: history_rows_filter)
  show ?thesis
  proof (cases "pre = []")
    case True
    then show ?thesis using assms(4) by (simp add: history_rows_filter all)
  next
    case False
    then obtain pre' l where pre: "pre = pre' @ [l]" by (metis rev_exhaust)
    have s: "sorted_wrt (\<lambda>r r'. pr_FinishedAt r' < pr_FinishedAt r) (pre' @ l # rest)"
      using assms(3) by (simp add: is_history_def pre)
    then have "filter (\<lambda>r. pr_FinishedAt r < pr_FinishedAt l) pre' = []" "\<forall>r \<in> set rest. pr_FinishedAt r < pr_FinishedAt l"
      by (auto simp: sorted_wrt_append filter_empty_conv)
    then show ?thesis using assms(4) by (simp add: history_rows_filter all pre)
  qed
qed

lemma read_pages_rest:
  assumes "\<And>i. db_order db (ords i)" and "inj_on pr_FinishedAt (all_rows pid db)" and "is_history pid db (pre @ rest)"
    and "cursor = (if pre = [] then None else Some (pr_FinishedAt (last pre)))" and "length rest < n"
  shows "read_pages ords pid limit db n cursor = Some rest"
  using assms(3-5)
proof (induction n arbitrary: pre rest cursor)
  case (Suc n)
  let ?L = "nat (clamp_limit limit)"
  have L: "0 < ?L" "int ?L = clamp_limit limit" using clamp_limit_bounds [of limit] by simp_all
  note rows = history_rows_cursor [OF assms(1) assms(2) Suc.prems(1,2)]
  have full: "int (length (take ?L rest)) = clamp_limit limit \<longleftrightarrow> length (take ?L rest) = ?L" using L(2) by linarith
  have page: "ListByPlayer None (ords n) pid cursor limit db =
      Inr \<lparr>hp_Races = take ?L rest, hp_NextCursor =
        (if length (take ?L rest) = ?L then Some (pr_FinishedAt (last (take ?L rest))) else None)\<rparr>"
    unfolding ListByPlayer_def Let_def rows full by simp
  show ?case
  proof (cases "?L \<le> length rest")
    case True
    have ne: "take ?L rest \<noteq> []" using True L(1) by auto
    have "read_pages ords pid limit db n (Some (pr_FinishedAt (last (take ?L rest)))) = Some (drop ?L rest)"
    proof (rule Suc.IH)
      show "is_history pid db ((pre @ take ?L rest) @ drop ?L rest)" using Suc.prems(1) by simp
      show "Some (pr_FinishedAt (last (take ?L rest))) =
          (if pre @ take ?L rest = [] then None else Some (pr_FinishedAt (last (pre @ take ?L rest))))"
        using ne by (simp add: last_append del: take_eq_Nil take_eq_Nil2)
      show "length (drop ?L rest) < n" using Suc.prems(3) True L(1) by simp
    qed
    then show ?thesis using True by (simp add: page)
  next
    case False
    then show ?thesis by (simp add: page)
  qed
qed simp

subsection \<open>Properties\<close>

text \<open>C31. Following the cursors reads a player's whole history: as long as no two of the player's races finished at the same instant, the pages,
  whatever their size and in whatever order the database finds the rows, are together the races the player has a result
  in, each once, latest first, and the last page is reached after at most one page more than there are races.\<close>

theorem pages_read_the_history:
  assumes "\<And>i. db_order db (ords i)" and "inj_on pr_FinishedAt (all_rows pid db)" and "card (all_rows pid db) < n"
  shows "\<exists>rs. read_pages ords pid limit db n None = Some rs \<and> set rs = all_rows pid db \<and> distinct rs \<and>
    sorted_wrt (\<lambda>r r'. pr_FinishedAt r' < pr_FinishedAt r) rs"
proof -
  let ?rs = "history_rows (ords 0) pid None db"
  have h: "is_history pid db ([] @ ?rs)" using history_rows_None [OF assms(1,2)] by simp
  then have "length ?rs < n" using assms(3) distinct_card [of ?rs] by (simp add: is_history_def)
  then have "read_pages ords pid limit db n None = Some ?rs"
    using read_pages_rest [where pre = "[]", OF assms(1,2) h] by simp
  then show ?thesis using h by (simp add: is_history_def)
qed

theorem pages_read_the_history_witness:
  "\<exists>rs. read_pages (\<lambda>_. [78, 77]) 9 1 demo_board 3 None = Some rs \<and> distinct rs"
proof -
  have order: "db_order demo_board [78, 77]"
    by (auto simp: db_order_def demo_board_def gm_get_def split: if_splits)
  define a b where "a = the (history_row 9 demo_board 77)" and "b = the (history_row 9 demo_board 78)"
  have ab: "history_row 9 demo_board 77 = Some a" "history_row 9 demo_board 78 = Some b"
    "pr_FinishedAt a = 1000" "pr_FinishedAt b = 2000"
    unfolding a_def b_def by code_simp+
  have "set (List.map_filter (history_row 9 demo_board) [78, 77]) = {b, a}"
    by (rule set_eqI) (auto simp: set_map_filter_Some ab(1) ab(2))
  then have rows: "all_rows 9 demo_board = {b, a}"
    using rows_of_order(1) [OF order, of 9] by (simp only:)
  then have "inj_on pr_FinishedAt (all_rows 9 demo_board)" "card (all_rows 9 demo_board) < 3"
    using ab(3,4) by (auto simp: inj_on_def card_insert_if)
  then show ?thesis using pages_read_the_history [of demo_board "\<lambda>_. [78, 77]" 9 3 1] order by blast
qed

text \<open>A race nobody has finished, or that does not exist, is answered as an internal error, never as not found: the handler
  looks for an error that its repository does not return.\<close>

theorem unknown_race_is_internal_error:
  assumes "gm_get (t_races db) rid = None" and "parse idParam = Some rid" and "pid \<noteq> 0"
  shows "handle_Race parse fault fault' ord (Some pid) idParam db = HttpError 500 ''internal'' \<and>
    (\<forall>ctx i tables. status_of (handle_Race parse fault fault' ord ctx i tables) \<noteq> 404)"
  using assms
  by (auto simp: handle_Race_def GetRace_def PlayerIDFromContext_def split: option.split sum.splits)

theorem unknown_race_is_internal_error_witness:
  "handle_Race (\<lambda>_. Some 5) None None [] (Some 9) ''5'' demo_board = HttpError 500 ''internal''"
  using unknown_race_is_internal_error [of demo_board 5 "\<lambda>_. Some 5" "''5''" 9]
  by (simp add: demo_board_def gm_get_def)

text \<open>Two races that finished in the same microsecond: with pages of one, the second is never read.\<close>

definition demo_tie :: tables where
  "demo_tie = demo_board\<lparr>t_races := [(77, \<lparr>row_track = 3, row_started = 0, row_finished = 1000\<rparr>),
     (78, \<lparr>row_track = 3, row_started = 0, row_finished = 1000\<rparr>)]\<rparr>"

lemma pages_lose_ties:
  "map_option (map pr_RaceID) (read_pages (\<lambda>_. [78, 77]) 9 1 demo_tie 9 None) = Some [78]"
  by code_simp

end
