(* ===== verification/Storage.thy ===== *)
theory Storage
  imports GameServer RaceHistory
begin

text \<open>
  The tables that the game server writes and the REST API reads: their rows keep to the types and keys of
  \<open>migrations/000001_init.up.sql\<close> in every state the server can reach, and a stored race shows on the leaderboard.
\<close>

subsection \<open>Well-typed tables\<close>

text \<open>
  One row per key; a race runs on a track that exists; the two rows of a player in a race come together, belong to a
  race and a player that exist, agree on the place, hold 32-bit numbers, and say when they were created.
\<close>

definition result_typed :: "tables \<Rightarrow> uuid \<times> uuid \<Rightarrow> ResultRow \<Rightarrow> bool" where
  "result_typed db k row \<longleftrightarrow>
     gm_get (t_races db) (fst k) \<noteq> None \<and> gm_get (t_players db) (snd k) \<noteq> None \<and>
     int4 (row_position row) \<and> int4 (row_total_time_ms row) \<and>
     (case row_best_lap_ms row of None \<Rightarrow> True | Some b \<Rightarrow> int4 b \<and> b \<noteq> 0) \<and>
     map_option row_finish_position (gm_get (t_race_players db) k) = Some (row_position row) \<and>
     gm_get (t_created db) k \<noteq> None"

definition tables_ok :: "tables \<Rightarrow> bool" where
  "tables_ok db \<longleftrightarrow>
     gm_wf (t_races db) \<and> gm_wf (t_race_players db) \<and> gm_wf (t_race_results db) \<and> gm_wf (t_created db) \<and>
     (\<forall>rid row. gm_get (t_races db) rid = Some row \<longrightarrow> gm_get (t_tracks db) (row_track row) \<noteq> None) \<and>
     (\<forall>k row. gm_get (t_race_results db) k = Some row \<longrightarrow> result_typed db k row) \<and>
     dom (gm_get (t_race_players db)) = dom (gm_get (t_race_results db))"

lemma tables_okD:
  assumes "tables_ok db"
  shows "gm_wf (t_races db)" and "gm_wf (t_race_players db)" and "gm_wf (t_race_results db)" and "gm_wf (t_created db)"
    and "gm_get (t_races db) rid = Some rc \<Longrightarrow> gm_get (t_tracks db) (row_track rc) \<noteq> None"
    and "gm_get (t_race_results db) k = Some row \<Longrightarrow> result_typed db k row"
    and "dom (gm_get (t_race_players db)) = dom (gm_get (t_race_results db))"
  using assms unfolding tables_ok_def by blast+

lemma put_race_ok:
  assumes ok: "tables_ok db" and track: "gm_get (t_tracks db) (row_track rc) \<noteq> None"
  shows "tables_ok (db\<lparr>t_races := gm_put rid rc (t_races db)\<rparr>)"
proof -
  let ?db = "db\<lparr>t_races := gm_put rid rc (t_races db)\<rparr>"
  have "result_typed ?db k row" if "gm_get (t_race_results db) k = Some row" for k row
    using tables_okD(6) [OF ok that] by (simp add: result_typed_def gm.get_put)
  moreover have "gm_get (t_tracks db) (row_track rc') \<noteq> None" if "gm_get (gm_put rid rc (t_races db)) i = Some rc'" for i rc'
    using that track tables_okD(5) [OF ok] by (auto simp: gm.get_put split: if_splits)
  ultimately show ?thesis using tables_okD(1-4,7) [OF ok] unfolding tables_ok_def by simp
qed

lemma upsert_race_ok:
  assumes "tables_ok db" and "exec_stmt e UpsertRace (upsert_race rid track start finished) db = Inr db'"
  shows "tables_ok db' \<and> gm_get (t_races db') rid \<noteq> None"
proof -
  obtain rc where "db' = db\<lparr>t_races := gm_put rid rc (t_races db)\<rparr>" "gm_get (t_tracks db) (row_track rc) \<noteq> None"
    using assms(2) tables_okD(5) [OF assms(1)]
    by (auto simp: exec_stmt_def upsert_race_def split: option.splits if_splits)
  then show ?thesis using put_race_ok [OF assms(1)] by simp
qed

text \<open>The two upserts of one entry.\<close>

lemma upsert_entry_ok:
  assumes ok: "tables_ok db" and race: "gm_get (t_races db) rid \<noteq> None"
    and p: "upsert_race_player rid pid position finished db = Inr db1"
    and q: "upsert_race_result now rid pid position totalMs bestMs db1 = Inr db2"
  shows "tables_ok db2 \<and> t_races db2 = t_races db"
proof -
  have num: "int4 position" "int4 totalMs" "int4 bestMs" using p q
    by (auto simp: upsert_race_player_def upsert_race_result_def split: if_splits)
  have known: "gm_get (t_race_players db) (rid, pid) = None \<Longrightarrow> gm_get (t_players db) pid \<noteq> None" using p
    by (auto simp: upsert_race_player_def split: if_splits)
  have db1: "db1 = db\<lparr>t_race_players := gm_put (rid, pid) \<lparr>row_finish_position = position, row_finished_at = pg_time finished\<rparr>
      (t_race_players db)\<rparr>" using p by (auto simp: upsert_race_player_def split: if_splits)
  have db2: "db2 = db1\<lparr>t_race_results := gm_put (rid, pid)
        \<lparr>row_position = position, row_total_time_ms = totalMs, row_best_lap_ms = (if bestMs = 0 then None else Some bestMs)\<rparr> (t_race_results db1),
      t_created := (if gm_get (t_race_results db1) (rid, pid) = None then gm_put (rid, pid) (pg_time now) (t_created db1) else t_created db1)\<rparr>"
    using q by (auto simp: upsert_race_result_def split: if_splits)
  have dom: "dom (gm_get (t_race_players db)) = dom (gm_get (t_race_results db))"
    and typed: "\<And>k row. gm_get (t_race_results db) k = Some row \<Longrightarrow> result_typed db k row"
    using tables_okD(6,7) [OF ok] by blast+
  have player: "gm_get (t_players db) pid \<noteq> None"
  proof (cases "gm_get (t_race_results db) (rid, pid)")
    case None
    then have "(rid, pid) \<notin> dom (gm_get (t_race_players db))" using dom by auto
    then show ?thesis using known by (simp add: domIff)
  next
    case (Some row)
    then show ?thesis using typed by (fastforce simp: result_typed_def)
  qed
  have "result_typed db2 k row" if "gm_get (t_race_results db2) k = Some row" for k row
  proof (cases "k = (rid, pid)")
    case True
    have "gm_get (t_created db2) k \<noteq> None"
      using typed [of "(rid, pid)"] True by (cases "gm_get (t_race_results db) (rid, pid)") (auto simp: db1 db2 result_typed_def)
    then show ?thesis using that True num player race by (auto simp: db1 db2 result_typed_def)
  next
    case False
    then have "result_typed db k row" using that typed by (simp add: db1 db2)
    then show ?thesis using False by (simp add: db1 db2 result_typed_def)
  qed
  moreover have "gm_wf (t_races db2)" "gm_wf (t_race_players db2)" "gm_wf (t_race_results db2)" "gm_wf (t_created db2)"
    using tables_okD(1-4) [OF ok] by (simp_all add: db1 db2)
  moreover have "dom (gm_get (t_race_players db2)) = dom (gm_get (t_race_results db2))" using dom by (simp add: db1 db2 gm.get_put)
  moreover have "t_races db2 = t_races db" "t_tracks db2 = t_tracks db" by (simp_all add: db1 db2)
  ultimately show ?thesis using tables_okD(5) [OF ok] unfolding tables_ok_def by simp
qed

lemma persist_entries_ok:
  "tables_ok db \<Longrightarrow> gm_get (t_races db) rid \<noteq> None \<Longrightarrow> persist_entries us e rid finished i es db = Inr db' \<Longrightarrow> tables_ok db'"
proof (induction us e rid finished i es db rule: persist_entries.induct)
  case (2 us e rid finishedAt i r rs db)
  show ?case
  proof (cases "en_PlayerID r = uuid_Nil")
    case True
    then show ?thesis using 2 by simp
  next
    case False
    obtain db1 db2 where
      p: "exec_stmt e (UpsertPlayer i) (upsert_race_player rid (en_PlayerID r) (en_Position r) finishedAt) db = Inr db1"
      and q: "exec_stmt e (UpsertResult i) (upsert_race_result (de_now_tx e) rid (en_PlayerID r) (en_Position r)
          (en_TotalTimeMs r) (en_BestLapMs r)) db1 = Inr db2"
      and rest: "persist_entries us e rid finishedAt (Suc i) rs db2 = Inr db'"
      using 2(5) False by (auto split: sum.splits)
    have "tables_ok db2 \<and> t_races db2 = t_races db"
      using upsert_entry_ok [OF 2(3,4)] p q by (auto simp: exec_stmt_def split: option.splits)
    then show ?thesis using 2(2) [OF False p q] 2(4) rest by simp
  qed
qed simp

lemma PersistRaceFinish_ok:
  assumes "tables_ok db"
  shows "tables_ok (snd (PersistRaceFinish us e req db))"
proof -
  have "tables_ok (snd (persist_tx us e req start finished db))" for start finished
  proof (cases "exec_stmt e UpsertRace (upsert_race (wr_RaceID req) (wr_TrackID req) start finished) db")
    case (Inr db1)
    note u = upsert_race_ok [OF assms Inr]
    then show ?thesis using assms persist_entries_ok [of db1 "wr_RaceID req" us e finished 0 "wr_Results req"]
      by (cases "persist_entries us e (wr_RaceID req) finished 0 (wr_Results req) db1")
        (auto simp: persist_tx_def Inr split: option.split)
  qed (simp add: persist_tx_def assms)
  then show ?thesis using assms by (auto simp: PersistRaceFinish_def split: option.splits)
qed

lemma persistRace_ok: "tables_ok db \<Longrightarrow> tables_ok (persistRace us e e' cancelled r db)"
  using PersistRaceFinish_ok [of db us e "write_request r"] PersistRaceFinish_ok [of "snd (PersistRaceFinish us e (write_request r) db)" us e' "write_request r"]
  by (auto simp: persistRace_def PersistWithRetry_def split: prod.splits option.splits)

lemma spawns_db [simp]: "sv_db (foldl (\<lambda>s p. spawn_broadcaster p s) s ps) = sv_db s"
  by (induction ps arbitrary: s) (simp_all add: spawn_broadcaster_def Let_def)

lemma server_step_db:
  "server_step X s s' \<Longrightarrow> tables_ok (sv_db s) \<Longrightarrow> tables_ok (sv_db s')"
  by (induction rule: server_step.induct)
    (auto simp: start_races_def set_race_def watch_tick_def wireNewRaces_def follow_tick_def Let_def intro: persistRace_ok)

subsection \<open>Properties\<close>

text \<open>C22. From well-typed tables every state of the game server has well-typed tables, whatever its statements and commits meet; in them
  every stored result is in its player's history, with its place, and its race can be read in detail.\<close>

theorem stored_rows_typed:
  assumes "served X (boot v db) s" and "tables_ok db"
  shows "tables_ok (sv_db s) \<and>
    (\<forall>rid pid row. gm_get (t_race_results (sv_db s)) (rid, pid) = Some row \<longrightarrow>
       (\<exists>h d. history_row pid (sv_db s) rid = Some h \<and> pr_Position h = row_position row \<and>
          GetRace None None ord rid (sv_db s) = Inr d))"
proof -
  have "tables_ok (sv_db s)" using assms(1)
  proof induction
    case start
    then show ?case using assms(2) by (simp add: boot_def)
  next
    case (more s s')
    then show ?case using server_step_db by blast
  qed
  moreover have "\<exists>h d. history_row pid t rid = Some h \<and> pr_Position h = row_position row \<and> GetRace None None ord rid t = Inr d"
    if ok: "tables_ok t" and row: "gm_get (t_race_results t) (rid, pid) = Some row" for t rid pid row
  proof -
    have "gm_get (t_races t) rid \<noteq> None" using tables_okD(6) [OF ok row] by (simp add: result_typed_def)
    then obtain rc where rc: "gm_get (t_races t) rid = Some rc" by blast
    then obtain name where "gm_get (t_tracks t) (row_track rc) = Some name" using tables_okD(5) [OF ok rc] by blast
    then show ?thesis using row rc by (simp add: history_row_def GetRace_def)
  qed
  ultimately show ?thesis by blast
qed

text \<open>A stored lap shows: a result with a positive best lap is on the board of its race's track, if the board has room for all players,
  with a lap no worse.\<close>

lemma row_on_board:
  assumes ok: "tables_ok db" and row: "gm_get (t_race_results db) (rid, pid) = Some row" and lap: "row_best_lap_ms row = Some b" "0 < b"
    and race: "gm_get (t_races db) rid = Some rc" "row_track rc = t"
    and ord: "distinct ord" "dom (gm_get (t_players db)) \<subseteq> set ord" "int (length ord) \<le> n"
  shows "\<exists>es. BestLapsByTrack None ord t n db = Inr es \<and> (\<exists>en \<in> set es. lb_PlayerID en = pid \<and> lb_BestLapMs en \<le> b)"
proof -
  obtain name where name: "gm_get (t_players db) pid = Some name"
    using tables_okD(6) [OF ok row] by (auto simp: result_typed_def)
  have b: "b \<in> fst ` set (counted t pid db)"
    using row race lap unfolding counted_iff [OF tables_okD(3) [OF ok]] by fastforce
  have "(pid, name) \<in> set (lb_groups t ord db)"
    using b name ord(2) by (auto simp: lb_groups_set)
  moreover have "length (lb_groups t ord db) \<le> length ord"
    by (simp add: lb_groups_def List.map_filter_def)
  ultimately have "(pid, name) \<in> set (board_rows ord t n db)" using ord(3) by (simp add: board_rows_def)
  moreover have "0 < n" using ord(2,3) name by (cases ord) auto
  moreover obtain es where es: "BestLapsByTrack None ord t n db = Inr es" by (auto simp: BestLapsByTrack_def Let_def)
  ultimately have "pid \<in> set (map lb_PlayerID es)" "map lb_BestLapMs es = map (best_lap t db) (map lb_PlayerID es)"
    using BestLapsByTrack_rows(2,4) [of n ord t db es] by force+
  then obtain en where "en \<in> set es" "lb_PlayerID en = pid" "lb_BestLapMs en = best_lap t db pid" by auto
  moreover have "best_lap t db pid \<le> b" using b best_lap_least by fastforce
  ultimately show ?thesis using es by auto
qed

text \<open>A finished race reaches the leaderboard: once the standings of a race not stored before are written with a working database, the
  board of its track, if it has room for all players, lists every finisher that reported a positive best lap, with a lap no
  worse than that one.\<close>

theorem race_reaches_leaderboard:
  assumes "de_fault e = (\<lambda>_. None)" and "raceID r \<noteq> 0" and "trackID (raceTrack r) \<noteq> 0"
    and "gm_get (t_tracks db) (trackID (raceTrack r)) \<noteq> None" and "FinalResults r \<noteq> []"
    and "distinct (map rr_PlayerID (FinalResults r))" and "0 \<notin> set (map rr_PlayerID (FinalResults r))"
    and "set (map rr_PlayerID (FinalResults r)) \<subseteq> dom (gm_get (t_players db))"
    and "\<forall>x \<in> set (FinalResults r). int4 (int (rr_Position x)) \<and> int4 (rr_TotalTimeMs x) \<and> int4 (rr_BestLapMs x)"
    and "tables_ok db" and "gm_get (t_races db) (raceID r) = None" and "db' = persistRace us e e' cancelled r db"
    and "distinct ord" and "dom (gm_get (t_players db)) \<subseteq> set ord" and "int (length ord) \<le> n"
    and "x \<in> set (FinalResults r)" and "0 < rr_BestLapMs x"
  shows "\<exists>es. BestLapsByTrack None ord (trackID (raceTrack r)) n db' = Inr es \<and>
    (\<exists>en \<in> set es. lb_PlayerID en = rr_PlayerID x \<and> lb_BestLapMs en \<le> rr_BestLapMs x)"
proof -
  let ?t = "trackID (raceTrack r)" and ?p = "rr_PlayerID x"
  have st: "stored (write_request r) db db'" unfolding assms(12) using assms(1-5,8,9) by (rule persistRace_stores)
  have ok: "tables_ok db'" unfolding assms(12) by (rule persistRace_ok [OF assms(10)])
  obtain i where i: "i < length (FinalResults r)" "x = FinalResults r ! i" using assms(16) by (auto simp: in_set_conv_nth)
  have "gm_get (t_race_results db') = gm_get (t_race_results db) ++ result_rows (raceID r) (map entry_of (FinalResults r))"
    and races: "\<exists>rc. gm_get (t_races db') (raceID r) = Some rc \<and> row_track rc = ?t" and players: "t_players db' = t_players db"
    using st assms(11) by (auto simp: stored_def write_request_def)
  then have row: "gm_get (t_race_results db') (raceID r, ?p) = Some
      \<lparr>row_position = int (rr_Position x), row_total_time_ms = rr_TotalTimeMs x, row_best_lap_ms = Some (rr_BestLapMs x)\<rparr>"
    using standing_row [OF assms(6,7) i(1)] assms(17) i(2) by (simp add: map_add_def)
  obtain rc where rc: "gm_get (t_races db') (raceID r) = Some rc" "row_track rc = ?t" using races by blast
  show ?thesis
    by (rule row_on_board [OF ok row _ _ rc assms(13)]) (use assms(14,15,17) players in simp_all)
qed

lemma demo_tables_ok: "tables_ok demo_tables"
  by (simp add: tables_ok_def demo_tables_def gm_get_def [abs_def])

theorem stored_rows_typed_witness:
  "tables_ok (sv_db (loop_once (loop_once demo_server)))"
  using stored_rows_typed [OF demo_stopped_served demo_tables_ok] by blast

text \<open>The race of two finishers again, now with best laps.\<close>

definition demo_lapped :: Race where
  "demo_lapped = demo_over\<lparr>players := map (\<lambda>(k, p). (k, p\<lparr>BestLapMs := 2400\<rparr>)) (players demo_over)\<rparr>"

lemma demo_lapped_results:
  "FinalResults demo_lapped = [\<lparr>rr_PlayerID = 9, rr_Position = 1, rr_TotalTimeMs = 5000, rr_BestLapMs = 2400\<rparr>,
     \<lparr>rr_PlayerID = 8, rr_Position = 2, rr_TotalTimeMs = 6000, rr_BestLapMs = 2400\<rparr>]"
  "raceID demo_lapped = 77" "trackID (raceTrack demo_lapped) = 3"
  by code_simp+

theorem race_reaches_leaderboard_witness:
  "\<exists>es. BestLapsByTrack None [8, 9] 3 10 (persistRace (\<lambda>_. []) calm calm False demo_lapped demo_tables) = Inr es \<and>
    (\<exists>en \<in> set es. lb_PlayerID en = 8 \<and> lb_BestLapMs en \<le> 2400)"
proof -
  have "\<exists>es. BestLapsByTrack None [8, 9] (trackID (raceTrack demo_lapped)) 10 (persistRace (\<lambda>_. []) calm calm False demo_lapped demo_tables) = Inr es \<and>
    (\<exists>en \<in> set es. lb_PlayerID en = rr_PlayerID (FinalResults demo_lapped ! 1) \<and> lb_BestLapMs en \<le> rr_BestLapMs (FinalResults demo_lapped ! 1))"
    by (rule race_reaches_leaderboard [OF _ _ _ _ _ _ _ _ _ demo_tables_ok _ refl])
      (simp_all add: demo_lapped_results calm_def demo_tables_def int4_def gm_get_def domIff subset_iff)
  then show ?thesis by (simp add: demo_lapped_results)
qed

end
