(* ===== verification/Ledger.thy ===== *)
theory Ledger
  imports Storage RaceRun
begin

text \<open>
  The results of every race the game server ever runs, against its tables: the callback \<open>persistRace\<close> of
  \<open>cmd/game-server/main.go\<close> inside the whole server. \<open>served_fresh\<close> are the runs of \<open>server_step\<close> in which \<open>uuid.New\<close>
  gives each race a new id; \<open>ledger\<close> is the invariant that ties the tables to the races. At the end, a race is run
  from its player's join to its row on the leaderboard.
\<close>

subsection \<open>The standings of a race in the tables\<close>

definition standing_rows :: "Race \<Rightarrow> uuid \<Rightarrow> ResultRow option" where
  "standing_rows r pid = result_rows (raceID r) (map entry_of (FinalResults r)) (raceID r, pid)"

definition unrecorded :: "uuid \<Rightarrow> tables \<Rightarrow> bool" where
  "unrecorded rid db \<longleftrightarrow>
     gm_get (t_races db) rid = None \<and> (\<forall>pid. gm_get (t_race_results db) (rid, pid) = None)"

definition recorded :: "Race \<Rightarrow> tables \<Rightarrow> bool" where
  "recorded r db \<longleftrightarrow>
     map_option row_track (gm_get (t_races db) (raceID r)) = Some (trackID (raceTrack r)) \<and>
     (\<forall>pid. gm_get (t_race_results db) (raceID r, pid) = standing_rows r pid)"

definition storable :: "tables \<Rightarrow> Race \<Rightarrow> bool" where
  "storable db r \<longleftrightarrow>
     trackID (raceTrack r) \<noteq> 0 \<and> gm_get (t_tracks db) (trackID (raceTrack r)) \<noteq> None \<and> FinalResults r \<noteq> [] \<and>
     (\<forall>x \<in> set (FinalResults r). gm_get (t_players db) (rr_PlayerID x) \<noteq> None \<and>
        int4 (int (rr_Position x)) \<and> int4 (rr_TotalTimeMs x) \<and> int4 (rr_BestLapMs x))"

lemma result_congs:
  assumes "raceID r' = raceID r" and "raceTrack r' = raceTrack r" and "FinalResults r' = FinalResults r"
  shows "recorded r' db = recorded r db" and "storable db r' = storable db r"
  using assms by (simp_all add: recorded_def standing_rows_def storable_def)

lemma stored_records:
  assumes "stored (write_request r) db db'"
  shows "unrecorded (raceID r) db \<Longrightarrow> recorded r db'"
    and "k \<noteq> raceID r \<Longrightarrow> gm_get (t_races db') k = gm_get (t_races db) k \<and>
      gm_get (t_race_results db') (k, pid) = gm_get (t_race_results db) (k, pid)"
    and "t_tracks db' = t_tracks db \<and> t_players db' = t_players db"
  using assms result_rows_None [of k "raceID r" pid "map entry_of (FinalResults r)"]
  by (auto simp: stored_def write_request_def unrecorded_def recorded_def standing_rows_def map_add_def split: option.split)

lemma callback_records:
  assumes "db' = persistRace us d d' cancelled r db"
  shows "unrecorded (raceID r) db \<Longrightarrow> recorded r db' \<or> unrecorded (raceID r) db'"
    and "k \<noteq> raceID r \<Longrightarrow> gm_get (t_races db') k = gm_get (t_races db) k \<and>
      gm_get (t_race_results db') (k, pid) = gm_get (t_race_results db) (k, pid)"
    and "t_tracks db' = t_tracks db \<and> t_players db' = t_players db"
proof -
  have "db' = db \<or> stored (write_request r) db db'"
    unfolding assms persistRace_def PersistWithRetry_retried by (rule writer.retried_all_or_nothing)
  then show "unrecorded (raceID r) db \<Longrightarrow> recorded r db' \<or> unrecorded (raceID r) db'"
    and "k \<noteq> raceID r \<Longrightarrow> gm_get (t_races db') k = gm_get (t_races db) k \<and>
      gm_get (t_race_results db') (k, pid) = gm_get (t_race_results db) (k, pid)"
    and "t_tracks db' = t_tracks db \<and> t_players db' = t_players db"
    using stored_records by blast+
qed

lemma callback_succeeds:
  assumes "de_fault d = (\<lambda>_. None)" and "raceID r \<noteq> 0" and "storable db r" and "unrecorded (raceID r) db"
  shows "recorded r (persistRace us d d' cancelled r db)"
proof (rule stored_records(1) [OF persistRace_stores])
  show "set (map rr_PlayerID (FinalResults r)) \<subseteq> dom (gm_get (t_players db))" using assms(3) by (auto simp: storable_def)
qed (use assms in \<open>simp_all add: storable_def\<close>)

subsection \<open>Runs with fresh race ids\<close>

text \<open>What \<open>uuid.New\<close> promises of a step: the races it makes get ids that no race of the server and none of the table has.\<close>

definition new_ids :: "'v Server \<Rightarrow> 'v Server \<Rightarrow> bool" where
  "new_ids s s' \<longleftrightarrow>
     distinct (map raceID (sv_heap s')) \<and> 0 \<notin> raceID ` set (sv_heap s') \<and>
     (\<forall>p. length (sv_heap s) \<le> p \<and> p < length (sv_heap s') \<longrightarrow> gm_get (t_races (sv_db s)) (raceID (sv_heap s' ! p)) = None)"

text \<open>A step in which the database works: every statement of a callback made in it succeeds.\<close>

definition db_works :: "('e, 'v) outside \<Rightarrow> 'v Server \<Rightarrow> 'v Server \<Rightarrow> bool" where
  "db_works X s s' \<longleftrightarrow>
     (\<forall>p < length (sv_runs s). pc (sv_runs s ! p) = FinishCallback True \<and> sv_runs s' ! p \<noteq> sv_runs s ! p \<longrightarrow>
        (\<exists>d d' cancelled. de_fault d = (\<lambda>_. None) \<and> sv_db s' = persistRace (o_us X) d d' cancelled (sv_heap s' ! p) (sv_db s)))"

inductive served_fresh :: "bool \<Rightarrow> ('e, 'v) outside \<Rightarrow> 'v Server \<Rightarrow> 'v Server \<Rightarrow> bool" for up X s0 where
  start: "served_fresh up X s0 s0"
| more: "served_fresh up X s0 s \<Longrightarrow> server_step X s s' \<Longrightarrow> new_ids s s' \<Longrightarrow> (up \<longrightarrow> db_works X s s') \<Longrightarrow>
    served_fresh up X s0 s'"

lemma served_fresh_served: "served_fresh up X s0 s \<Longrightarrow> served X s0 s"
  by (induction rule: served_fresh.induct) (auto intro: served.intros)

subsection \<open>What the tables hold\<close>

definition race_ledger :: "bool \<Rightarrow> tables \<Rightarrow> 'v Server \<Rightarrow> raceptr \<Rightarrow> bool" where
  "race_ledger up db0 s p \<longleftrightarrow>
     (if finishCalls (sv_runs s ! p) = 0 then unrecorded (raceID (sv_heap s ! p)) (sv_db s)
      else recorded (sv_heap s ! p) (sv_db s) \<or>
           unrecorded (raceID (sv_heap s ! p)) (sv_db s) \<and> \<not> (up \<and> storable db0 (sv_heap s ! p)))"

definition ledger :: "bool \<Rightarrow> tables \<Rightarrow> 'v Server \<Rightarrow> bool" where
  "ledger up db0 s \<longleftrightarrow>
     tables_ok (sv_db s) \<and> t_tracks (sv_db s) = t_tracks db0 \<and> t_players (sv_db s) = t_players db0 \<and>
     distinct (map raceID (sv_heap s)) \<and> 0 \<notin> raceID ` set (sv_heap s) \<and>
     (\<forall>p < length (sv_heap s). race_ledger up db0 s p) \<and>
     (\<forall>k pid. k \<notin> raceID ` set (sv_heap s) \<longrightarrow>
        gm_get (t_races (sv_db s)) k = gm_get (t_races db0) k \<and>
        gm_get (t_race_results (sv_db s)) (k, pid) = gm_get (t_race_results db0) (k, pid))"

text \<open>A step that leaves the tables, and the results of the races whose callback has been called, alone.\<close>

lemma ledger_frame:
  assumes led: "ledger up db0 s" and ids: "new_ids s s'" and db: "sv_db s' = sv_db s"
    and len: "length (sv_heap s) \<le> length (sv_heap s')"
    and old: "\<And>p. p < length (sv_heap s) \<Longrightarrow> finishCalls (sv_runs s' ! p) = finishCalls (sv_runs s ! p) \<and>
      raceID (sv_heap s' ! p) = raceID (sv_heap s ! p) \<and>
      (finishCalls (sv_runs s ! p) \<noteq> 0 \<longrightarrow> raceTrack (sv_heap s' ! p) = raceTrack (sv_heap s ! p) \<and>
         FinalResults (sv_heap s' ! p) = FinalResults (sv_heap s ! p))"
    and new: "\<And>p. length (sv_heap s) \<le> p \<Longrightarrow> p < length (sv_heap s') \<Longrightarrow> finishCalls (sv_runs s' ! p) = 0"
  shows "ledger up db0 s'"
proof -
  have "race_ledger up db0 s' p" if p: "p < length (sv_heap s')" for p
  proof (cases "p < length (sv_heap s)")
    case True
    then have "race_ledger up db0 s p" using led by (simp add: ledger_def)
    then show ?thesis using old [OF True] result_congs [of "sv_heap s' ! p" "sv_heap s ! p"]
      by (auto simp: race_ledger_def db split: if_splits)
  next
    case False
    have ok: "tables_ok (sv_db s)" using led by (simp add: ledger_def)
    have none: "gm_get (t_races (sv_db s)) (raceID (sv_heap s' ! p)) = None" using ids False p by (simp add: new_ids_def)
    then have "gm_get (t_race_results (sv_db s)) (raceID (sv_heap s' ! p), pid) = None" for pid
      using tables_okD(6) [OF ok, of "(raceID (sv_heap s' ! p), pid)"]
      by (cases "gm_get (t_race_results (sv_db s)) (raceID (sv_heap s' ! p), pid)") (auto simp: result_typed_def)
    then show ?thesis using none new False p by (simp add: race_ledger_def unrecorded_def db)
  qed
  moreover have "raceID ` set (sv_heap s) \<subseteq> raceID ` set (sv_heap s')"
  proof
    fix x assume "x \<in> raceID ` set (sv_heap s)"
    then obtain p where p: "p < length (sv_heap s)" "x = raceID (sv_heap s ! p)" by (auto simp: in_set_conv_nth)
    then have "x = raceID (sv_heap s' ! p)" using old by simp
    then show "x \<in> raceID ` set (sv_heap s')" using p(1) len by simp
  qed
  ultimately show ?thesis using led ids unfolding ledger_def new_ids_def db by blast
qed

lemma handler_results:
  assumes "handler_change r r'" and "status r = StatusFinished"
  shows "raceTrack r' = raceTrack r" and "FinalResults r' = FinalResults r"
  using assms by (auto simp: handler_change_def ApplyInput_def AddPlayer_def FinalResults_def)

lemma called_over:
  assumes "alone X t" and "finishCalls t \<noteq> 0"
  shows "status (race t) = StatusFinished" and "pc t = FinishClose \<or> pc t = Returned"
  using alone_inv(1) [OF assms(1)] assms(2) by (auto simp: loop_inv_def ctl_inv_def split: if_splits)

lemma run_step_called:
  assumes "alone X t" and "run_step M us e t = Some t'" and "pc t \<noteq> FinishCallback True"
  shows "finishCalls t' = finishCalls t \<and> raceID (race t') = raceID (race t) \<and>
    (finishCalls t \<noteq> 0 \<longrightarrow> raceTrack (race t') = raceTrack (race t) \<and> FinalResults (race t') = FinalResults (race t))"
proof (cases "finishCalls t = 0")
  case True
  then show ?thesis using run_step_raceID [OF assms(2)] assms(2,3)
    by (cases "pc t") (auto simp: run_step_def advance_locked_def Let_def split: option.splits if_splits wake.splits)
next
  case False
  then show ?thesis using called_over(2) [OF assms(1) False] assms(2)
    by (auto simp: run_step_def FinalResults_def)
qed

lemma server_len: "server_inv X s \<Longrightarrow> length (sv_runs s) = length (sv_heap s)"
  by (simp add: server_inv_def)

lemma server_alone: "server_inv X s \<Longrightarrow> p < length (sv_heap s) \<Longrightarrow> alone X (run_at s p)"
  by (simp add: server_inv_def)

lemma run_at_simps [simp]: "finishCalls (run_at s p) = finishCalls (sv_runs s ! p)" "race (run_at s p) = sv_heap s ! p"
  "pc (run_at s p) = pc (sv_runs s ! p)"
  by (simp_all add: run_at_def)

text \<open>The step that calls the callback.\<close>

lemma ledger_callback:
  assumes inv: "server_inv X s" and led: "ledger up db0 s" and p: "p < length (sv_heap s)"
    and step: "run_step (o_math X) (o_us X) e (run_at s p) = Some t" and cb: "pc (sv_runs s ! p) = FinishCallback True"
    and s': "s' = set_race p (race t) s\<lparr>sv_runs := (sv_runs s)[p := t],
      sv_db := persistRace (o_us X) d d' cancelled (race t) (sv_db s)\<rparr>"
    and works: "up \<longrightarrow> db_works X s s'"
  shows "ledger up db0 s'"
proof -
  let ?r = "sv_heap s ! p"
  note len = server_len [OF inv]
  have zero: "finishCalls (sv_runs s ! p) = 0"
    using alone_inv(1) [OF server_alone [OF inv p]] cb by (simp add: loop_inv_def ctl_inv_def)
  have t: "race t = ?r" "finishCalls t = 1" using step cb zero by (auto simp: run_step_def)
  have heap: "sv_heap s' = sv_heap s" using p by (simp add: s' set_race_def race_moves_def t list_update_same_conv)
  have db: "sv_db s' = persistRace (o_us X) d d' cancelled ?r (sv_db s)" by (simp add: s' t)
  have runs: "sv_runs s' = (sv_runs s)[p := t]" by (simp add: s')
  note c = callback_records [OF db]
  have un: "unrecorded (raceID ?r) (sv_db s)" using led p zero by (simp add: ledger_def race_ledger_def)
  have "race_ledger up db0 s' q" if q: "q < length (sv_heap s)" for q
  proof (cases "q = p")
    case True
    have "recorded ?r (sv_db s')" if up: up and st: "storable db0 ?r"
    proof -
      have "sv_runs s' ! p \<noteq> sv_runs s ! p" "p < length (sv_runs s)" using t(2) zero p len by (auto simp: runs)
      then obtain d d' can where d: "de_fault d = (\<lambda>_. None)" "sv_db s' = persistRace (o_us X) d d' can ?r (sv_db s)"
        using works up cb unfolding db_works_def heap by blast
      have "raceID ?r \<noteq> 0" using led p by (auto simp: ledger_def)
      moreover have "storable (sv_db s) ?r" using st led by (simp add: storable_def ledger_def)
      ultimately show ?thesis using callback_succeeds [OF d(1) _ _ un] d(2) by simp
    qed
    moreover have "sv_runs s' ! p = t" using p len by (simp add: runs)
    ultimately show ?thesis using c(1) [OF un] t(2) unfolding race_ledger_def heap True by auto
  next
    case False
    then have "raceID (sv_heap s ! q) \<noteq> raceID ?r"
      using led p q by (auto simp: ledger_def distinct_conv_nth)
    then have "unrecorded (raceID (sv_heap s ! q)) (sv_db s') = unrecorded (raceID (sv_heap s ! q)) (sv_db s)"
      "recorded (sv_heap s ! q) (sv_db s') = recorded (sv_heap s ! q) (sv_db s)"
      using c(2) by (simp_all add: unrecorded_def recorded_def)
    moreover have "race_ledger up db0 s q" using led q by (simp add: ledger_def)
    ultimately show ?thesis using False by (auto simp: race_ledger_def heap runs split: if_splits)
  qed
  moreover have "tables_ok (sv_db s')" using led persistRace_ok by (simp add: ledger_def db)
  moreover have "k \<noteq> raceID ?r" if "k \<notin> raceID ` set (sv_heap s)" for k using that p by auto
  ultimately show ?thesis using led c(2,3) unfolding ledger_def heap by simp
qed

lemma ledger_step:
  assumes inv: "server_inv X s" and led: "ledger up db0 s" and step: "server_step X s s'" and ids: "new_ids s s'"
    and works: "up \<longrightarrow> db_works X s s'"
  shows "ledger up db0 s'"
  using step
proof cases
  case (datagram e w payload "from" out g')
  have wf: "game_wf (sv_game s)" "m_onFinish (g_mgr (sv_game s))" using inv by (auto simp: server_inv_def)
  note ch = Handle_change [OF wf datagram(2)] and len = server_len [OF inv]
  show ?thesis
  proof (rule ledger_frame [OF led ids])
    fix p assume p: "p < length (sv_heap s)"
    have h: "handler_change (sv_heap s ! p) (sv_heap s' ! p)" using ch p by (simp add: datagram(1) start_races_def)
    have f: "finishCalls (sv_runs s' ! p) = finishCalls (sv_runs s ! p)" using p len by (simp add: datagram(1) start_races_def nth_append)
    show "finishCalls (sv_runs s' ! p) = finishCalls (sv_runs s ! p) \<and> raceID (sv_heap s' ! p) = raceID (sv_heap s ! p) \<and>
      (finishCalls (sv_runs s ! p) \<noteq> 0 \<longrightarrow> raceTrack (sv_heap s' ! p) = raceTrack (sv_heap s ! p) \<and>
         FinalResults (sv_heap s' ! p) = FinalResults (sv_heap s ! p))"
      using f handler_change_keeps(1) [OF h] handler_results [OF h] called_over(1) [OF server_alone [OF inv p]] by auto
  next
    fix p assume "length (sv_heap s) \<le> p" "p < length (sv_heap s')"
    then show "finishCalls (sv_runs s' ! p) = 0" using len by (simp add: datagram(1) start_races_def nth_append init_run_def)
  qed (use ch in \<open>simp_all add: datagram(1) start_races_def\<close>)
next
  case (race_goroutine p e t d d' cancelled)
  note len = server_len [OF inv]
  then have p: "p < length (sv_heap s)" using race_goroutine(2) by simp
  show ?thesis
  proof (cases "pc (sv_runs s ! p) = FinishCallback True")
    case True
    then show ?thesis using ledger_callback [OF inv led p race_goroutine(4) True _ works] race_goroutine(1) by simp
  next
    case False
    then show ?thesis
      using run_step_called [OF server_alone [OF inv p] race_goroutine(4)] p len
      by (intro ledger_frame [OF led ids]) (auto simp: race_goroutine(1) set_race_def race_moves_def nth_list_update)
  qed
next
  case (watch ord)
  have "sv_game s' = (sv_game s)\<lparr>g_mgr := CleanupFinished (g_mgr (sv_game s))\<rparr>" using watch_inv(2) [OF inv] watch(1) by simp
  moreover have "sv_runs s' = sv_runs s \<and> sv_db s' = sv_db s"
  proof -
    have "sv_runs (foldl (\<lambda>s p. spawn_broadcaster p s) s ps) = sv_runs s" for ps and s :: "'b Server"
      by (induction ps arbitrary: s) (simp_all add: spawn_broadcaster_def Let_def)
    then show ?thesis by (simp add: watch(1) watch_tick_def wireNewRaces_def Let_def)
  qed
  ultimately show ?thesis by (intro ledger_frame [OF led ids]) (simp_all add: CleanupFinished_def)
next
  case (follow i ord)
  then have "sv_heap s' = sv_heap s \<and> sv_runs s' = sv_runs s \<and> sv_db s' = sv_db s" by (simp add: follow_tick_def Let_def)
  then show ?thesis by (intro ledger_frame [OF led ids]) simp_all
next
  case (broadcast i arm ctxDone r' b')
  have i: "br_race (sv_bcs s ! i) < length (sv_heap s)" using bcs_nth [OF inv broadcast(2)] by blast
  have "raceID r' = raceID (sv_heap s ! br_race (sv_bcs s ! i)) \<and> raceTrack r' = raceTrack (sv_heap s ! br_race (sv_bcs s ! i)) \<and>
      FinalResults r' = FinalResults (sv_heap s ! br_race (sv_bcs s ! i))"
    using broadcast(3) by (auto simp: broadcast_step_def FinalResults_def split: if_splits arm.splits option.splits)
  then show ?thesis using i
    by (intro ledger_frame [OF led ids]) (auto simp: broadcast(1) set_race_def race_moves_def nth_list_update)
qed

lemma served_ledger:
  assumes "served_fresh up X (boot v db0) s" and "tables_ok db0"
  shows "server_inv X s \<and> ledger up db0 s"
  using assms(1)
proof induction
  case start
  show ?case using assms(2) boot_inv [of X v db0]
    by (simp add: ledger_def boot_def SetOnFinish_def NewManager_def)
next
  case (more s s')
  then show ?case using server_step_inv ledger_step by blast
qed

subsection \<open>Properties\<close>

text \<open>C3. The tables of the game server are a ledger of its races. Whatever datagrams arrive, however the goroutines interleave and
  whichever statements fail, as long as each race gets a new id: a race whose callback has not been called has no row; one whose
  callback was called is finished, and has either exactly its final standings stored or nothing; with a working database it has its
  standings stored if its track and players are in their tables and its numbers fit the columns; and no other row is touched.\<close>

theorem results_ledger:
  assumes "served_fresh up X (boot v db0) s" and "tables_ok db0"
  shows "(\<forall>p < length (sv_heap s). let r = sv_heap s ! p in
      (finishCalls (sv_runs s ! p) = 0 \<longrightarrow> unrecorded (raceID r) (sv_db s)) \<and>
      (finishCalls (sv_runs s ! p) \<noteq> 0 \<longrightarrow> status r = StatusFinished \<and>
         (recorded r (sv_db s) \<or> unrecorded (raceID r) (sv_db s)) \<and> (up \<and> storable db0 r \<longrightarrow> recorded r (sv_db s)))) \<and>
    (\<forall>k pid. k \<notin> raceID ` set (sv_heap s) \<longrightarrow>
      gm_get (t_races (sv_db s)) k = gm_get (t_races db0) k \<and>
      gm_get (t_race_results (sv_db s)) (k, pid) = gm_get (t_race_results db0) (k, pid))"
proof -
  have inv: "server_inv X s" and led: "ledger up db0 s" using served_ledger [OF assms] by auto
  have "status (sv_heap s ! p) = StatusFinished" if "p < length (sv_heap s)" "finishCalls (sv_runs s ! p) \<noteq> 0" for p
    using called_over(1) [OF server_alone [OF inv that(1)]] that(2) by simp
  then show ?thesis using led by (auto simp: ledger_def race_ledger_def Let_def split: if_splits)
qed

text \<open>C4. What a race ends with is what the REST server shows: in every later state of a game server whose database works, a player
  who finished a race is in its own history with the place, total time and best lap of the race's final results, and on the
  leaderboard of the race's track, if that has room for all players, with a lap no worse than its best in that race.\<close>

theorem finished_race_is_shown:
  assumes "served_fresh True X (boot v db0) s" and "tables_ok db0" and "p < length (sv_heap s)" and "r = sv_heap s ! p"
    and "finishCalls (sv_runs s ! p) \<noteq> 0" and "storable db0 r"
    and "x \<in> set (FinalResults r)" and "rr_PlayerID x \<noteq> 0" and "0 < rr_BestLapMs x"
    and "distinct ord" and "dom (gm_get (t_players db0)) \<subseteq> set ord" and "int (length ord) \<le> n"
  shows "(\<exists>h. history_row (rr_PlayerID x) (sv_db s) (raceID r) = Some h \<and> pr_TrackID h = trackID (raceTrack r) \<and>
      pr_Position h = int (rr_Position x) \<and> pr_TotalTimeMs h = rr_TotalTimeMs x \<and> pr_BestLapMs h = rr_BestLapMs x) \<and>
    (\<exists>es. BestLapsByTrack None ord (trackID (raceTrack r)) n (sv_db s) = Inr es \<and>
      (\<exists>en \<in> set es. lb_PlayerID en = rr_PlayerID x \<and> lb_BestLapMs en \<le> rr_BestLapMs x))"
proof -
  let ?db = "sv_db s"
  have led: "ledger True db0 s" and al: "alone X (run_at s p)"
    using served_ledger [OF assms(1,2)] server_alone assms(3) by auto
  have ok: "tables_ok ?db" and players: "t_players ?db = t_players db0" and "race_ledger True db0 s p"
    using led assms(3) by (auto simp: ledger_def)
  then have rec: "recorded r ?db" using assms(4-6) by (simp add: race_ledger_def)
  have exact: "race_wf r" "order_exact r" using alone_inv(1,2) [OF al] assms(4) by (simp_all add: loop_inv_def)
  have "distinct (map rr_PlayerID (FinalResults r))"
    using exact(2) by (simp add: order_exact_results [OF exact] order_exact_def o_def result_of_def Let_def)
  then have ids: "distinct (map en_PlayerID (map entry_of (FinalResults r)))" by (simp add: entry_of_def o_def)
  obtain i where i: "i < length (FinalResults r)" "x = FinalResults r ! i" using assms(7) by (auto simp: in_set_conv_nth)
  have row: "gm_get (t_race_results ?db) (raceID r, rr_PlayerID x) = Some
      \<lparr>row_position = int (rr_Position x), row_total_time_ms = rr_TotalTimeMs x, row_best_lap_ms = Some (rr_BestLapMs x)\<rparr>"
    using rec result_rows_nth [OF ids, of i "raceID r"] i assms(8,9) by (simp add: recorded_def standing_rows_def entry_of_def)
  obtain rc where rc: "gm_get (t_races ?db) (raceID r) = Some rc" "row_track rc = trackID (raceTrack r)"
    using rec by (auto simp: recorded_def)
  obtain name where "gm_get (t_tracks ?db) (row_track rc) = Some name" using tables_okD(5) [OF ok rc(1)] by blast
  then have "\<exists>h. history_row (rr_PlayerID x) ?db (raceID r) = Some h \<and> pr_TrackID h = trackID (raceTrack r) \<and>
      pr_Position h = int (rr_Position x) \<and> pr_TotalTimeMs h = rr_TotalTimeMs x \<and> pr_BestLapMs h = rr_BestLapMs x"
    using row rc by (simp add: history_row_def coalesce0_def)
  moreover have "\<exists>es. BestLapsByTrack None ord (trackID (raceTrack r)) n ?db = Inr es \<and>
      (\<exists>en \<in> set es. lb_PlayerID en = rr_PlayerID x \<and> lb_BestLapMs en \<le> rr_BestLapMs x)"
    by (rule row_on_board [OF ok row _ _ rc assms(10)]) (use assms(9,11,12) players in simp_all)
  ultimately show ?thesis by blast
qed

subsection \<open>A race to its end\<close>

text \<open>The player 9 joins match 5 on the track 3 and never moves.\<close>

definition lap_world :: world where
  "lap_world = \<lparr>w_trackFn = buildTrackLookup (Some (3, ''t'')), w_newID = 77, w_now = 50\<rparr>"

definition lap_server :: "unit Server" where
  "lap_server = start_races (snd (Handle demo_proto lenient () lap_world [1] ''a'' (sv_game (boot () demo_tables))))
     (boot () demo_tables)"

text \<open>The server with this one race in the state \<open>t\<close>.\<close>

definition with_race :: "RunState \<Rightarrow> unit Server \<Rightarrow> unit Server" where
  "with_race t s = set_race 0 (race t) s\<lparr>sv_runs := [t]\<rparr>"

lemma with_race_at:
  assumes "length (sv_heap s) = 1"
  shows "sv_heap (with_race t s) = [race t]" and "run_at (with_race t s) 0 = t" and "sv_runs (with_race t s) = [t]"
    and "sv_db (with_race t s) = sv_db s" and "with_race t' (with_race t s) = with_race t' s"
proof -
  show heap: "sv_heap (with_race t s) = [race t]"
    using assms by (cases "sv_heap s") (simp_all add: with_race_def set_race_def race_moves_def)
  show runs: "sv_runs (with_race t s) = [t]" by (simp add: with_race_def)
  show "run_at (with_race t s) 0 = t" by (simp add: run_at_def heap runs)
  show "sv_db (with_race t s) = sv_db s" by (simp add: with_race_def set_race_def)
  show "with_race t' (with_race t s) = with_race t' s"
    using assms by (cases "sv_heap s") (simp_all add: with_race_def set_race_def race_moves_def)
qed

lemma quick_served:
  assumes "served_fresh True demo_outside s0 (with_race t s)" and "length (sv_heap s) = 1" and "raceID (race t) \<noteq> 0"
    and "quick [9] n t = Some t'"
  shows "served_fresh True demo_outside s0 (with_race t' s) \<and> raceID (race t') = raceID (race t)"
  using assms
proof (induction n arbitrary: t)
  case (Suc n)
  obtain t1 where t1: "quick_step [9] t = Some t1" "quick [9] n t1 = Some t'"
    using Suc.prems(4) by (auto split: option.splits)
  note run = quick_step_run [OF t1(1)] and at = with_race_at [OF Suc.prems(2)]
  have id: "raceID (race t1) = raceID (race t)" using run_step_raceID [OF run(1)] .
  have "server_step demo_outside (with_race t s) (set_race 0 (race t1) (with_race t s)\<lparr>sv_runs := (sv_runs (with_race t s))[0 := t1],
      sv_db := (if pc (sv_runs (with_race t s) ! 0) = FinishCallback True
        then persistRace (o_us demo_outside) calm calm False (race t1) (sv_db (with_race t s)) else sv_db (with_race t s))\<rparr>)"
    by (rule server_step.race_goroutine) (use run(1,2) in \<open>simp_all add: at demo_outside_def\<close>)
  moreover have "set_race 0 (race t1) (with_race t s)\<lparr>sv_runs := [t1], sv_db := sv_db s\<rparr> = with_race t1 s"
    using Suc.prems(2) by (cases "sv_heap s") (simp_all add: with_race_def set_race_def race_moves_def)
  ultimately have "server_step demo_outside (with_race t s) (with_race t1 s)" using run(3) by (simp add: at)
  then have "served_fresh True demo_outside s0 (with_race t1 s)"
    by (rule served_fresh.more [OF Suc.prems(1)]) (use run(3) id Suc.prems(3) in \<open>simp_all add: new_ids_def db_works_def at\<close>)
  then show ?case using Suc.IH [of t1] Suc.prems(2,3) t1(2) id by simp
qed simp_all

lemma lap_served: "served_fresh True demo_outside (boot () demo_tables) lap_server"
proof -
  let ?s = "boot () demo_tables"
  have out: "fst (Handle demo_proto lenient () lap_world [1] ''a'' (sv_game ?s)) = Returns [1]" by code_simp
  have ids: "map raceID (sv_heap lap_server) = [77]" by code_simp
  have "server_step demo_outside ?s lap_server"
    unfolding lap_server_def
    by (rule server_step.datagram [of _ "()" lap_world "[1]" "''a''" _ "[1]"])
      (use out in \<open>simp_all add: demo_outside_def prod_eq_iff handler_waits_def boot_def\<close>)
  moreover have "new_ids ?s lap_server" "db_works demo_outside ?s lap_server"
    using ids by (simp_all add: new_ids_def db_works_def boot_def demo_tables_def gm_get_def flip: set_map)
  ultimately show ?thesis using served_fresh.more [OF served_fresh.start] by blast
qed

definition lap_end :: RunState where
  "lap_end = the (quick [9] 90 (sv_runs lap_server ! 0))"

lemma lap_end_facts:
  "quick [9] 90 (sv_runs lap_server ! 0) \<noteq> None" "pc lap_end = FinishCallback True" "raceID (race lap_end) = 77"
  "trackID (raceTrack (race lap_end)) = 3" "map fst (players (race lap_end)) = [9]"
  "FinalResults (race lap_end) = [\<lparr>rr_PlayerID = 9, rr_Position = 1, rr_TotalTimeMs = 36000, rr_BestLapMs = 36000\<rparr>]"
proof -
  have "(case quick [9] 90 (sv_runs lap_server ! 0) of None \<Rightarrow> False | Some t \<Rightarrow> pc t = FinishCallback True \<and> raceID (race t) = 77 \<and>
     trackID (raceTrack (race t)) = 3 \<and> map fst (players (race t)) = [9] \<and>
     FinalResults (race t) = [\<lparr>rr_PlayerID = 9, rr_Position = 1, rr_TotalTimeMs = 36000, rr_BestLapMs = 36000\<rparr>])"
    by code_simp
  then show "quick [9] 90 (sv_runs lap_server ! 0) \<noteq> None" "pc lap_end = FinishCallback True" "raceID (race lap_end) = 77"
    "trackID (raceTrack (race lap_end)) = 3" "map fst (players (race lap_end)) = [9]"
    "FinalResults (race lap_end) = [\<lparr>rr_PlayerID = 9, rr_Position = 1, rr_TotalTimeMs = 36000, rr_BestLapMs = 36000\<rparr>]"
    unfolding lap_end_def by (auto split: option.splits)
qed

definition lap_done :: "unit Server" where
  "lap_done = with_race (lap_end\<lparr>finishCalls := finishCalls lap_end + 1, pc := FinishClose\<rparr>) lap_server
     \<lparr>sv_db := persistRace (\<lambda>_. ''id'') calm calm False (race lap_end) (sv_db lap_server)\<rparr>"

lemma lap_done_served: "served_fresh True demo_outside (boot () demo_tables) lap_done"
proof -
  obtain t0 where t0: "sv_runs lap_server = [t0]" "race t0 = sv_heap lap_server ! 0"
  proof -
    have "length (sv_runs lap_server) = 1" by code_simp
    moreover have "race (sv_runs lap_server ! 0) = sv_heap lap_server ! 0" by code_simp
    ultimately show ?thesis using that by (cases "sv_runs lap_server") auto
  qed
  have len: "length (sv_heap lap_server) = 1" by code_simp
  note at = with_race_at [OF len]
  have "with_race t0 lap_server = lap_server"
    using t0 len by (cases "sv_heap lap_server") (simp_all add: with_race_def set_race_def race_moves_def)
  moreover have "raceID (race t0) \<noteq> 0" unfolding t0 by code_simp
  moreover have "quick [9] 90 t0 = Some lap_end" using lap_end_facts(1) t0 by (auto simp: lap_end_def)
  ultimately have served: "served_fresh True demo_outside (boot () demo_tables) (with_race lap_end lap_server)"
    using quick_served [of "boot () demo_tables" t0 lap_server 90 lap_end] lap_served len by simp
  let ?t = "lap_end\<lparr>finishCalls := finishCalls lap_end + 1, pc := FinishClose\<rparr>"
  have "env_ok (lap_env [9] lap_end) (race lap_end)"
    using lap_end_facts(5) by (simp add: env_ok_def gm_order_def gm_keys_def lap_env_def Let_def)
  moreover have "run_step flat_lib (\<lambda>_. ''id'') (lap_env [9] lap_end) lap_end = Some ?t"
    using lap_end_facts(2) by (simp add: run_step_def)
  ultimately have "server_step demo_outside (with_race lap_end lap_server) (set_race 0 (race ?t) (with_race lap_end lap_server)
      \<lparr>sv_runs := (sv_runs (with_race lap_end lap_server))[0 := ?t],
       sv_db := (if pc (sv_runs (with_race lap_end lap_server) ! 0) = FinishCallback True
        then persistRace (o_us demo_outside) calm calm False (race ?t) (sv_db (with_race lap_end lap_server)) else sv_db (with_race lap_end lap_server))\<rparr>)"
    by (intro server_step.race_goroutine [where e = "lap_env [9] lap_end"]) (simp_all add: at demo_outside_def)
  moreover have "set_race 0 (race ?t) (with_race lap_end lap_server)\<lparr>sv_runs := [?t], sv_db := db\<rparr> = with_race ?t lap_server\<lparr>sv_db := db\<rparr>" for db
    using len by (cases "sv_heap lap_server") (simp_all add: with_race_def set_race_def race_moves_def)
  ultimately have "server_step demo_outside (with_race lap_end lap_server) lap_done"
    using lap_end_facts(2) by (simp add: at demo_outside_def lap_done_def)
  moreover have "db_works demo_outside (with_race lap_end lap_server) lap_done"
    unfolding db_works_def by (auto simp: at lap_done_def demo_outside_def calm_def intro!: exI [of _ calm] exI [of _ False])
  moreover have "new_ids (with_race lap_end lap_server) lap_done"
    using lap_end_facts(3) by (simp add: new_ids_def at lap_done_def)
  ultimately show ?thesis using served_fresh.more [OF served] by blast
qed

lemma lap_done_facts:
  "sv_heap lap_done = [race lap_end]" "finishCalls (sv_runs lap_done ! 0) \<noteq> 0" "storable demo_tables (race lap_end)"
proof -
  have len: "length (sv_heap lap_server) = 1" by code_simp
  show "sv_heap lap_done = [race lap_end]" "finishCalls (sv_runs lap_done ! 0) \<noteq> 0"
    using with_race_at(1,3) [OF len] by (simp_all add: lap_done_def)
  show "storable demo_tables (race lap_end)"
    by (simp add: storable_def lap_end_facts demo_tables_def gm_get_def int4_def)
qed

theorem results_ledger_witness:
  "recorded (race lap_end) (sv_db lap_done) \<and> gm_get (t_races (sv_db lap_done)) 5 = None"
proof -
  have "gm_get (t_races demo_tables) 5 = None" by (simp add: demo_tables_def gm_get_def)
  then show ?thesis
    using results_ledger [OF lap_done_served demo_tables_ok] lap_end_facts(3) by (simp add: lap_done_facts Let_def)
qed

theorem finished_race_is_shown_witness:
  "(\<exists>h. history_row 9 (sv_db lap_done) 77 = Some h \<and> pr_Position h = 1 \<and> pr_TotalTimeMs h = 36000) \<and>
   (\<exists>es. BestLapsByTrack None [8, 9] 3 10 (sv_db lap_done) = Inr es \<and>
     (\<exists>en \<in> set es. lb_PlayerID en = 9 \<and> lb_BestLapMs en \<le> 36000))"
proof -
  let ?x = "\<lparr>rr_PlayerID = 9, rr_Position = 1, rr_TotalTimeMs = 36000, rr_BestLapMs = 36000\<rparr>"
  let ?r = "race lap_end"
  have ord: "dom (gm_get (t_players demo_tables)) \<subseteq> set [8, 9]" by (simp add: demo_tables_def gm_get_def domIff subset_iff)
  have p: "0 < length (sv_heap lap_done)" "?r = sv_heap lap_done ! 0" by (simp_all add: lap_done_facts(1))
  have x: "?x \<in> set (FinalResults ?r)" "rr_PlayerID ?x \<noteq> 0" "0 < rr_BestLapMs ?x" by (simp_all add: lap_end_facts(6))
  have o: "distinct [8, 9 :: uuid]" "int (length [8, 9 :: uuid]) \<le> 10" by simp_all
  show ?thesis
    using finished_race_is_shown [OF lap_done_served demo_tables_ok p lap_done_facts(2,3) x o(1) ord o(2)]
    unfolding lap_end_facts(3,4) by auto
qed

end
