(* ===== verification/Client.thy ===== *)
theory Client
  imports Dispatcher Framing
begin

text \<open>
  \<open>cmd/udp-client/main.go\<close>: the developer's client, and what it and the game server say to each other. The
  protobuf library, \<open>uuid.New\<close> and \<open>strings.ToLower\<close> are parameters; what is printed is left out. A
  run yields the datagrams sent and either an exit code or a value.
\<close>

subsection \<open>What the client uses\<close>

record clientlib =
  cl_marshalJoin :: "JoinRaceRequest \<Rightarrow> bytes option"
  cl_unmarshalResp :: "bytes \<Rightarrow> JoinRaceResponse option"
  cl_marshalInput :: "pbPlayerInput \<Rightarrow> bytes option"
  cl_isSnapshot :: "bytes \<Rightarrow> bool"

datatype 'a run = Exits nat | Goes 'a

definition ascii :: "string \<Rightarrow> bytes" where
  "ascii s = map of_char s"

subsection \<open>The modes\<close>

text \<open>\<open>written\<close> says whether the write succeeds; \<open>reply\<close> is the datagram that arrives in time, if one does.\<close>

definition sendPing :: "bool \<Rightarrow> bytes option \<Rightarrow> bytes list \<times> unit run" where
  "sendPing written reply =
     (if \<not> written then ([], Exits 1)
      else ([ascii ''PING''],
        case reply of
          None \<Rightarrow> Exits 1
        | Some d \<Rightarrow> if take 64 d \<noteq> ascii ''PONG'' then Exits 1 else Goes ()))"

text \<open>The request: \<open>new\<close> and \<open>new'\<close> are the ids drawn for the ids not given.\<close>

definition join_request :: "string \<Rightarrow> string \<Rightarrow> string \<Rightarrow> string \<Rightarrow> string \<Rightarrow> JoinRaceRequest" where
  "join_request new new' mid pid tok =
     \<lparr>jr_MatchId = (if mid = [] then new else mid), jr_PlayerId = (if pid = [] then new' else pid), jr_GameToken = tok\<rparr>"

definition sendJoin ::
    "clientlib \<Rightarrow> JoinRaceRequest \<Rightarrow> bool \<Rightarrow> bytes option \<Rightarrow> bytes list \<times> JoinRaceResponse option run" where
  "sendJoin C req written reply =
     (case cl_marshalJoin C req of
        None \<Rightarrow> ([], Exits 1)
      | Some payload \<Rightarrow>
     (case Encode payload of
        Inl err \<Rightarrow> ([], Exits 1)
      | Inr framed \<Rightarrow>
          if \<not> written then ([], Exits 1)
          else ([framed], Goes
            (case reply of
               None \<Rightarrow> None
             | Some d \<Rightarrow>
                 (case Decode (take 1024 d) of
                    Inl err \<Rightarrow> None
                  | Inr (out, _) \<Rightarrow> cl_unmarshalResp C out)))))"

text \<open>
  The loop of \<open>player\<close> mode: \<open>n\<close> passes before the deadline. A message that cannot be marshalled or
  framed is tried again in the next pass, with the same number.
\<close>

fun drive :: "clientlib \<Rightarrow> float64 \<Rightarrow> float64 \<Rightarrow> nat \<Rightarrow> 32 word \<Rightarrow> bytes list" where
  "drive C throttle steering 0 sq = []"
| "drive C throttle steering (Suc n) sq =
     (case cl_marshalInput C \<lparr>pi_Throttle = to_float32 throttle, pi_Brake = Fin 0, pi_Steering = to_float32 steering,
               pi_Sequence = sq\<rparr> of
        None \<Rightarrow> drive C throttle steering n sq
      | Some bs \<Rightarrow>
          (case Encode bs of
             Inl err \<Rightarrow> drive C throttle steering n sq
           | Inr framed \<Rightarrow> framed # drive C throttle steering n (sq + 1)))"

text \<open>The snapshots that the reader counts among the datagrams it receives, up to the first error.\<close>

fun count_snapshots :: "clientlib \<Rightarrow> bytes option list \<Rightarrow> nat" where
  "count_snapshots C [] = 0"
| "count_snapshots C (None # ds) = 0"
| "count_snapshots C (Some d # ds) =
     (case Decode (take 4096 d) of
        Inl err \<Rightarrow> count_snapshots C ds
      | Inr (payload, _) \<Rightarrow> (if cl_isSnapshot C payload then Suc (count_snapshots C ds) else count_snapshots C ds))"

definition runPlayer ::
    "clientlib \<Rightarrow> JoinRaceRequest \<Rightarrow> bool \<Rightarrow> bytes option \<Rightarrow> float64 \<Rightarrow> float64 \<Rightarrow> nat \<Rightarrow> bytes list \<times> unit run" where
  "runPlayer C req written reply throttle steering passes =
     (case sendJoin C req written reply of
        (sent, Exits code) \<Rightarrow> (sent, Exits code)
      | (sent, Goes None) \<Rightarrow> (sent, Exits 1)
      | (sent, Goes (Some resp)) \<Rightarrow>
          if \<not> resp_Ok resp then (sent, Exits 1)
          else (sent @ drive C throttle steering passes 1, Goes ()))"

text \<open>
  \<open>main\<close>, after the flags: \<open>resolved\<close> and \<open>dialled\<close> say whether the server's address resolves and a socket opens.
  \<open>Goes\<close> is a normal end, exit code 0.
\<close>

definition client_main ::
    "clientlib \<Rightarrow> (string \<Rightarrow> string) \<Rightarrow> bool \<Rightarrow> bool \<Rightarrow> bool \<Rightarrow> bytes option \<Rightarrow> string \<Rightarrow> JoinRaceRequest \<Rightarrow>
     float64 \<Rightarrow> float64 \<Rightarrow> nat \<Rightarrow> bytes list \<times> unit run" where
  "client_main C lower resolved dialled written reply mode req throttle steering passes =
     (if \<not> resolved then ([], Exits 1)
      else
        let m = lower mode
        in if m = ''ping'' then (if \<not> dialled then ([], Exits 1) else sendPing written reply)
           else if m = ''protobuf'' \<or> m = ''join'' then
             (if \<not> dialled then ([], Exits 1)
              else case sendJoin C req written reply of
                (sent, Exits code) \<Rightarrow> (sent, Exits code)
              | (sent, Goes _) \<Rightarrow> (sent, Goes ()))
           else if m = ''player'' then
             (if \<not> dialled then ([], Exits 1) else runPlayer C req written reply throttle steering passes)
           else ([], Exits 2))"

subsection \<open>Against the server\<close>

text \<open>The dispatcher as the server's read loop calls it; a panic ends the server, so no reply comes.\<close>

definition game_handler ::
    "protolib \<Rightarrow> ('e, 'v) verifier \<Rightarrow> 'e \<Rightarrow> world \<Rightarrow> 'v Game \<Rightarrow> bytes \<Rightarrow> string \<Rightarrow> bytes \<times> 'v Game" where
  "game_handler L verify e w g payload from =
     (case Handle L verify e w payload from g of
        (Returns out, g') \<Rightarrow> (out, g')
      | (Panics msg, g') \<Rightarrow> ([], g'))"

text \<open>
  What the protobuf library documents of the two ends: what one marshals the other reads back, and the two bytes the
  dispatcher falls back to when a response cannot be marshalled (an invalid UTF-8 string) are a response whose field 1, \<open>ok\<close>, is false and
  whose other fields are absent.
\<close>

definition refused :: JoinRaceResponse where
  "refused = \<lparr>resp_Ok = False, resp_Error = [], resp_RaceId = [], resp_InitialTick = 0\<rparr>"

definition pb_doc :: "clientlib \<Rightarrow> protolib \<Rightarrow> bool" where
  "pb_doc C L \<longleftrightarrow>
     (\<forall>req p. cl_marshalJoin C req = Some p \<longrightarrow> unmarshalJoin L p = Some req) \<and>
     (\<forall>r p. marshalResp L r = Some p \<longrightarrow> cl_unmarshalResp C p = Some r) \<and>
     cl_unmarshalResp C [0x08, 0x00] = Some refused"

lemma Encode_small: "length p \<le> 2044 \<Longrightarrow> \<exists>f. Encode p = Inr f \<and> length f = length p + 4"
  by (simp add: Encode_def MaxFrame_def be_PutUint32_def)

lemma serve_one:
  assumes "Encode p = Inr f" and "length p \<le> 2044" and "h s p from = (reply, s')" and "reply \<noteq> []" and "Encode reply = Inr f'"
  shows "serve_datagram (Some h) f from s = ([(f', from)], s')"
proof -
  have "length f \<le> 2048" using Encode_small [OF assms(2)] assms(1,2) by auto
  then have "Decode (take 2048 f) = Inr (p, [])" using Decode_Encode [OF assms(1), of "[]"] by simp
  then show ?thesis using assms(3-5) by (simp add: serve_datagram_def Let_def)
qed

text \<open>The response the dispatcher means to give, by what came of the request.\<close>

fun means :: "protolib \<Rightarrow> world \<Rightarrow> JoinRaceRequest \<Rightarrow> (uuid \<times> uuid) option \<Rightarrow> string option \<Rightarrow>
    (string + raceptr) go \<times> Manager \<Rightarrow> JoinRaceResponse \<Rightarrow> bool" where
  "means L w req None verdict reg r =
     (r = refused\<lparr>resp_Error := (if uuidParse L (jr_MatchId req) = None then ''bad match_id'' else ''bad player_id'')\<rparr>)"
| "means L w req (Some ids) (Some err) reg r = (r = refused\<lparr>resp_Error := err\<rparr>)"
| "means L w req (Some ids) None (Returns (Inl err), mg) r = (r = refused\<lparr>resp_Error := err\<rparr>)"
| "means L w req (Some ids) None (Returns (Inr ptr), mg) r =
     (r = \<lparr>resp_Ok = True, resp_Error = [], resp_RaceId = uuidString L (raceID (heap mg ! ptr)),
           resp_InitialTick = initialTick (w_now w)\<rparr>)"
| "means L w req (Some ids) None (Panics msg, mg) r = False"

lemma marshalJoinResp_read:
  assumes "pb_doc C L"
  shows "cl_unmarshalResp C (marshalJoinResp L (resp_Ok r) (resp_Error r) (resp_RaceId r) (resp_InitialTick r)) =
    Some (if marshalResp L r = None then refused else r)"
  using assms by (cases r) (simp add: marshalJoinResp_def pb_doc_def split: option.split)

lemma handleJoin_means:
  assumes "handleJoin L verify e w req from g = (Returns out, g')" and "jr_GameToken req \<noteq> []"
    and "ids = join_ids L req"
    and "verdict = fst (verify (fst (the ids)) (snd (the ids)) (jr_GameToken req) e (g_ver g))"
    and "reg = RegisterPlayer (w_trackFn w) (w_newID w) (w_now w) (fst (the ids)) (snd (the ids)) (g_mgr g)"
  shows "\<exists>r. out = marshalJoinResp L (resp_Ok r) (resp_Error r) (resp_RaceId r) (resp_InitialTick r) \<and> means L w req ids verdict reg r"
proof (cases ids)
  case None
  let ?r = "refused\<lparr>resp_Error := (if uuidParse L (jr_MatchId req) = None then ''bad match_id'' else ''bad player_id'')\<rparr>"
  have "out = marshalJoinResp L (resp_Ok ?r) (resp_Error ?r) (resp_RaceId ?r) (resp_InitialTick ?r)"
    using assms(1,2) None unfolding assms(3)
    by (auto simp: handleJoin_def join_ids_def refused_def split: option.splits if_splits)
  then show ?thesis unfolding None by (intro exI [of _ ?r]) simp
next
  case (Some mp)
  then obtain m p where ids: "join_ids L req = Some (m, p)" "ids = Some (m, p)" using assms(3) by (cases mp) simp
  obtain v where v: "verify m p (jr_GameToken req) e (g_ver g) = (verdict, v)" using assms(4) ids(2) by (simp add: prod_eq_iff)
  have reg: "reg = RegisterPlayer (w_trackFn w) (w_newID w) (w_now w) m p (g_mgr g)" using assms(5) ids(2) by simp
  have join: "handleJoin L verify e w req from g = (case (verdict, v) of
      (Some err, v) \<Rightarrow> (Returns (marshalJoinResp L False err [] 0), g\<lparr>g_ver := v\<rparr>)
    | (None, v) \<Rightarrow>
        (case reg of
           (Panics msg, mg) \<Rightarrow> (Panics msg, g\<lparr>g_ver := v, g_mgr := mg\<rparr>)
         | (Returns (Inl err), mg) \<Rightarrow> (Returns (marshalJoinResp L False err [] 0), g\<lparr>g_ver := v, g_mgr := mg\<rparr>)
         | (Returns (Inr r), mg) \<Rightarrow>
             (Returns (marshalJoinResp L True [] (uuidString L (raceID (heap mg ! r))) (initialTick (w_now w))),
              g\<lparr>g_ver := v, g_mgr := mg, g_sess := SetRace p (Some r) (snd (BindAddr from p (g_sess g)))\<rparr>)))"
    unfolding handleJoin_eq [OF ids(1)] v reg by (rule refl)
  show ?thesis
  proof (cases verdict)
    case (Some err)
    then show ?thesis using assms(1) join ids(2) by (intro exI [of _ "refused\<lparr>resp_Error := err\<rparr>"]) (auto simp: refused_def)
  next
    case None
    obtain res mg where r: "reg = (res, mg)" by fastforce
    show ?thesis
    proof (cases res)
      case (Panics msg)
      then show ?thesis using assms(1) join None r by simp
    next
      case (Returns x)
      show ?thesis
      proof (cases x)
        case (Inl err)
        then show ?thesis using assms(1) join None r Returns ids(2)
          by (intro exI [of _ "refused\<lparr>resp_Error := err\<rparr>"]) (auto simp: refused_def)
      next
        case (Inr ptr)
        then show ?thesis using assms(1) join None r Returns ids(2)
          by (intro exI [of _ "\<lparr>resp_Ok = True, resp_Error = [], resp_RaceId = uuidString L (raceID (heap mg ! ptr)),
              resp_InitialTick = initialTick (w_now w)\<rparr>"]) auto
      qed
    qed
  qed
qed

subsection \<open>Properties\<close>

text \<open>C23. A join over the wire: a request with a match id and a token that fits one datagram, framed by the client, reaches the
  dispatcher as it was sent; and unless the dispatcher panics, or its reply is empty or beyond the client's buffer, the client reads from
  that reply the very response the dispatcher meant, all its four fields: which identifier is malformed, the
  verifier's error, the error of the registration, or ok with the id of the race and the tick; when that response
  cannot be marshalled, the client is refused without a reason.\<close>

theorem join_over_the_wire:
  assumes "pb_doc C L" and "cl_marshalJoin C req = Some p" and "length p \<le> 2044"
    and "jr_MatchId req \<noteq> []" and "jr_GameToken req \<noteq> []"
    and "handleJoin L verify e w req from g = (Returns out, g')" and "out \<noteq> []" and "length out \<le> 1020"
    and "ids = join_ids L req"
    and "verdict = fst (verify (fst (the ids)) (snd (the ids)) (jr_GameToken req) e (g_ver g))"
    and "reg = RegisterPlayer (w_trackFn w) (w_newID w) (w_now w) (fst (the ids)) (snd (the ids)) (g_mgr g)"
  shows "\<exists>f f' r. serve_datagram (Some (game_handler L verify e w)) f from g = ([(f', from)], g') \<and>
    means L w req ids verdict reg r \<and>
    sendJoin C req True (Some f') = ([f], Goes (Some (if marshalResp L r = None then refused else r)))"
proof -
  obtain f where f: "Encode p = Inr f" using Encode_small [OF assms(3)] by blast
  obtain f' where f': "Encode out = Inr f'" "length f' = length out + 4" using Encode_small [of out] assms(8) by auto
  have "Handle L verify e w p from g = (Returns out, g')"
    using assms(1,2,4-6) by (simp add: pb_doc_def Handle_def)
  then have serve: "serve_datagram (Some (game_handler L verify e w)) f from g = ([(f', from)], g')"
    by (intro serve_one [OF f assms(3) _ assms(7) f'(1)]) (simp add: game_handler_def)
  obtain r where out: "out = marshalJoinResp L (resp_Ok r) (resp_Error r) (resp_RaceId r) (resp_InitialTick r)"
    and r: "means L w req ids verdict reg r"
    using handleJoin_means [OF assms(6,5,9-11)] by blast
  have "Decode (take 1024 f') = Inr (out, [])"
    using Decode_Encode [OF f'(1), of "[]"] f'(2) assms(8) by simp
  then have "sendJoin C req True (Some f') = ([f], Goes (Some (if marshalResp L r = None then refused else r)))"
    using marshalJoinResp_read [OF assms(1)] by (simp add: sendJoin_def assms(2) f out)
  then show ?thesis using serve r by blast
qed

text \<open>The four bytes of a ping, read as a length, are beyond the largest frame.\<close>

lemma Decode_ping: "Decode (ascii ''PING'') = Inl ErrFrameTooLarge"
proof -
  have b: "ascii ''PING'' = [80, 73, 78, 71]" by (simp add: ascii_def)
  have "be_Uint32 [80, 73, 78, 71] = 0x50494E47" by (simp add: be_Uint32_def) 
  then have "unat (be_Uint32 (take HeaderSize [80, 73, 78, 71])) = 0x50494E47" by (simp add: HeaderSize_def)
  then show ?thesis by (simp add: b Decode_def HeaderSize_def MaxFrame_def Let_def)
qed

text \<open>The default mode cannot succeed against the game server: the server drops a ping without a reply, so the client ends with exit code 1.\<close>

theorem ping_is_never_answered:
  "serve_datagram handle (ascii ''PING'') from s = ([], s) \<and>
   client_main C id True True True None ''ping'' req throttle steering passes = ([ascii ''PING''], Exits 1)"
proof -
  have "take 2048 (ascii ''PING'') = ascii ''PING''" by (simp add: ascii_def)
  then have "serve_datagram handle (ascii ''PING'') from s = ([], s)" by (simp add: serve_datagram_def Decode_ping)
  then show ?thesis by (simp add: client_main_def sendPing_def Let_def)
qed

text \<open>The inputs of \<open>player\<close> mode, as the server reads them: numbered from 1, each the same.\<close>

lemma drive_inputs:
  assumes "\<And>i. \<exists>p. cl_marshalInput C i = Some p \<and> length p \<le> 2044 \<and> unmarshalInput L p = Some i"
  shows "list_all2 (\<lambda>f k. \<exists>p. Decode f = Inr (p, []) \<and> unmarshalInput L p =
      Some \<lparr>pi_Throttle = to_float32 th, pi_Brake = Fin 0, pi_Steering = to_float32 st, pi_Sequence = sq + of_nat k\<rparr>)
    (drive C th st n sq) [0..<n]"
proof (induction n arbitrary: sq)
  case (Suc n)
  obtain p where p: "cl_marshalInput C \<lparr>pi_Throttle = to_float32 th, pi_Brake = Fin 0, pi_Steering = to_float32 st, pi_Sequence = sq\<rparr> = Some p"
    "length p \<le> 2044" "unmarshalInput L p = Some \<lparr>pi_Throttle = to_float32 th, pi_Brake = Fin 0, pi_Steering = to_float32 st, pi_Sequence = sq\<rparr>"
    using assms by blast
  obtain f where f: "Encode p = Inr f" using Encode_small [OF p(2)] by blast
  have "Decode f = Inr (p, [])" using Decode_Encode [OF f, of "[]"] by simp
  moreover have "[0..<Suc n] = 0 # map Suc [0..<n]" by (simp add: map_Suc_upt upt_conv_Cons del: upt_Suc)
  ultimately show ?case using Suc.IH [of "sq + 1"] p f
    by (simp add: list_all2_map2 add.assoc del: upt_Suc)
qed simp

text \<open>A wire format for responses: a flag, two escaped strings, and the bits of the tick.\<close>

fun put_string :: "string \<Rightarrow> bytes" where
  "put_string [] = [0]"
| "put_string (c # cs) = 1 # of_char c # put_string cs"

fun get_string :: "bytes \<Rightarrow> (string \<times> bytes) option" where
  "get_string (b # bs) =
     (if b = 0 then Some ([], bs)
      else case bs of [] \<Rightarrow> None
        | c # bs' \<Rightarrow> map_option (\<lambda>(s, rest). (char_of (unat c) # s, rest)) (get_string bs'))"
| "get_string [] = None"

definition put_resp :: "JoinRaceResponse \<Rightarrow> bytes" where
  "put_resp r = (if resp_Ok r then 1 else 0) # put_string (resp_Error r) @ put_string (resp_RaceId r) @
     map (\<lambda>i. if bit (resp_InitialTick r) i then 1 else 0) [0..<64]"

definition get_resp :: "bytes \<Rightarrow> JoinRaceResponse option" where
  "get_resp b =
     (case get_string (tl b) of None \<Rightarrow> None
      | Some (e, rest) \<Rightarrow>
          (case get_string rest of None \<Rightarrow> None
           | Some (rid, bits) \<Rightarrow>
               Some \<lparr>resp_Ok = (hd b = 1), resp_Error = e, resp_RaceId = rid,
                     resp_InitialTick = horner_sum of_bool 2 (map (\<lambda>x. x = 1) bits)\<rparr>))"

lemma char_of_byte: "char_of (unat (of_char c :: 8 word)) = c"
proof -
  have "(of_char c :: 8 word) = of_nat (of_char c)" by (rule of_nat_of_char [symmetric])
  then have "unat (of_char c :: 8 word) = take_bit 8 (of_char c :: nat)" by (simp only: unat_of_nat) (simp add: take_bit_eq_mod)
  then show ?thesis by (simp add: take_bit_eq_mod)
qed

lemma get_put_string: "get_string (put_string s @ rest) = Some (s, rest)"
  by (induction s) (simp_all add: char_of_byte)

lemma get_put_resp: "get_resp (put_resp r) = Some r"
proof -
  have "map (\<lambda>x :: 8 word. x = 1) (map (\<lambda>i. if bit (resp_InitialTick r) i then 1 else 0) [0..<64]) = map (bit (resp_InitialTick r)) [0..<64]"
    by simp
  moreover have "horner_sum of_bool 2 (map (bit (resp_InitialTick r)) [0..<64]) = resp_InitialTick r"
    by (simp add: horner_sum_bit_eq_take_bit take_bit_word_eq_self del: upt_conv_Cons) 
  ultimately show ?thesis by (simp add: get_resp_def put_resp_def get_put_string del: map_map)
qed

definition wire_proto :: protolib where
  "wire_proto = demo_proto\<lparr>marshalResp := (\<lambda>r. Some (put_resp r))\<rparr>"

definition wire_client :: clientlib where
  "wire_client = \<lparr>cl_marshalJoin = (\<lambda>req. if req = demo_req then Some [1] else None),
     cl_unmarshalResp = (\<lambda>b. if b = [0x08, 0x00] then Some refused else get_resp b),
     cl_marshalInput = (\<lambda>_. None), cl_isSnapshot = (\<lambda>_. False)\<rparr>"

lemma put_resp_long: "put_resp r \<noteq> [b, b']"
proof
  assume "put_resp r = [b, b']"
  from arg_cong [OF this, of length] show False by (simp add: put_resp_def del: upt_Suc)
qed

lemma wire_doc: "pb_doc wire_client wire_proto"
  by (auto simp: pb_doc_def wire_client_def wire_proto_def get_put_resp put_resp_long demo_proto_def demo_req_def)

text \<open>The player joins over the wire and is told ok, with the id of the race and the tick.\<close>

theorem join_over_the_wire_witness:
  "\<exists>f f' g'. serve_datagram (Some (game_handler wire_proto lenient () demo_world)) f ''a'' (demo_game ()) = ([(f', ''a'')], g') \<and>
    sendJoin wire_client demo_req True (Some f') = ([f], Goes (Some \<lparr>resp_Ok = True, resp_Error = [], resp_RaceId = ''id'',
      resp_InitialTick = initialTick (w_now demo_world)\<rparr>))"
proof -
  have ids: "join_ids wire_proto demo_req = Some (5, 9)" using demo_ids by (simp add: join_ids_def wire_proto_def)
  obtain mg where reg: "RegisterPlayer (w_trackFn demo_world) (w_newID demo_world) (w_now demo_world) 5 9
      (g_mgr (demo_game ())) = (Returns (Inr 0), mg)"
    using demo_reg by (auto simp: prod_eq_iff demo_game_def)
  have ok: "lenient 5 9 (jr_GameToken demo_req) () (g_ver (demo_game ())) = (None, ())" by (simp add: lenient_def)
  let ?out = "marshalJoinResp wire_proto True [] (uuidString wire_proto (raceID (heap mg ! 0))) (initialTick (w_now demo_world))"
  let ?r = "\<lparr>resp_Ok = True, resp_Error = [], resp_RaceId = ''id'', resp_InitialTick = initialTick (w_now demo_world)\<rparr>"
  obtain g' where join: "handleJoin wire_proto lenient () demo_world demo_req ''a'' (demo_game ()) = (Returns ?out, g')"
    using handleJoin_eq [OF ids, of lenient "()" demo_world "''a''" "demo_game ()"] reg ok by simp
  have out: "?out = put_resp ?r"
    by (simp add: marshalJoinResp_def wire_proto_def demo_proto_def)
  have len: "length ?out \<le> 1020" "?out \<noteq> []" unfolding out by (simp_all add: put_resp_def del: upt_conv_Cons)
  have req: "cl_marshalJoin wire_client demo_req = Some [1]" "length [1 :: 8 word] \<le> 2044"
    "jr_MatchId demo_req \<noteq> []" "jr_GameToken demo_req \<noteq> []" by (simp_all add: wire_client_def demo_req_def token_of_def)
  obtain f f' r where w: "serve_datagram (Some (game_handler wire_proto lenient () demo_world)) f ''a'' (demo_game ()) = ([(f', ''a'')], g')"
    "means wire_proto demo_world demo_req (Some (5, 9)) (fst (lenient 5 9 (jr_GameToken demo_req) () (g_ver (demo_game ()))))
      (RegisterPlayer (w_trackFn demo_world) (w_newID demo_world) (w_now demo_world) 5 9 (g_mgr (demo_game ()))) r"
    "sendJoin wire_client demo_req True (Some f') = ([f], Goes (Some (if marshalResp wire_proto r = None then refused else r)))"
    using join_over_the_wire [OF wire_doc req join len(2,1) ids [symmetric] refl refl] by auto
  have "r = ?r" using w(2) unfolding reg ok by (simp add: wire_proto_def demo_proto_def)
  moreover have "marshalResp wire_proto r \<noteq> None" by (simp add: wire_proto_def)
  ultimately have "(if marshalResp wire_proto r = None then refused else r) = ?r" by auto
  then have "sendJoin wire_client demo_req True (Some f') = ([f], Goes (Some ?r))" using w(3) by (simp only:)
  then show ?thesis using w(1) by blast
qed

end
