(* ===== verification/Auth.thy ===== *)
theory Auth
  imports Http Containers "HOL-Library.Countable"
begin

text \<open>
  \<open>internal/auth\<close>: accounts, passwords, access tokens and the middleware. The tables are the lists of
  their rows. bcrypt, the JWT library, \<open>mail.ParseAddress\<close> and \<open>strings.ToLower\<close> are the fields of
  \<open>authlib\<close>; \<open>strings.TrimSpace\<close> and \<open>strings.EqualFold\<close> on the bearer prefix are concrete. A Go string
  is the list of its bytes, as characters.
\<close>

subsection \<open>Errors\<close>

text \<open>\<open>ErrInvalidInput\<close> and \<open>AuthFailure\<close> carry the whole message of an error that wraps the sentinel, or none.\<close>

datatype auth_error =
    ErrInvalidCredentials
  | ErrEmailTaken
  | ErrPlayerNotFound
  | ErrInvalidInput string
  | ErrUnauthorized
  | AuthFailure string

fun auth_error_String :: "auth_error \<Rightarrow> string" where
  "auth_error_String ErrInvalidCredentials = ''invalid credentials''"
| "auth_error_String ErrEmailTaken = ''email already in use''"
| "auth_error_String ErrPlayerNotFound = ''player not found''"
| "auth_error_String (ErrInvalidInput msg) = msg"
| "auth_error_String ErrUnauthorized = ''unauthorized''"
| "auth_error_String (AuthFailure msg) = msg"

subsection \<open>Claims and libraries\<close>

record Claims =
  cl_UserID :: uuid
  cl_PlayerID :: uuid
  cl_Issuer :: string
  cl_Subject :: string
  cl_IssuedAt :: gotime
  cl_ExpiresAt :: gotime

text \<open>
  \<open>al_hash\<close> takes the salt it draws. \<open>al_sign\<close> is \<open>SignedString\<close> with HS256, which keeps times to the
  second; \<open>al_parse\<close> is \<open>ParseWithClaims\<close> with that method and the expected issuer, at a clock reading.
\<close>

record authlib =
  al_toLower :: "string \<Rightarrow> string"
  al_parseAddress :: "string \<Rightarrow> string option"
  al_hash :: "nat \<Rightarrow> string \<Rightarrow> string + string"
  al_compare :: "string \<Rightarrow> string \<Rightarrow> bool"
  al_sign :: "string \<Rightarrow> Claims \<Rightarrow> string + string"
  al_parse :: "string \<Rightarrow> string \<Rightarrow> gotime \<Rightarrow> string \<Rightarrow> Claims option"
  al_uuidString :: "uuid \<Rightarrow> string"

subsection \<open>Tokens and the middleware\<close>

definition IssueAccessToken ::
    "authlib \<Rightarrow> string \<Rightarrow> string \<Rightarrow> duration \<Rightarrow> gotime \<Rightarrow> uuid \<Rightarrow> uuid \<Rightarrow> auth_error + string" where
  "IssueAccessToken A secret issuer ttl now userID playerID =
     (if secret = [] then Inl (AuthFailure ''auth: empty JWT secret'')
      else case al_sign A secret \<lparr>cl_UserID = userID, cl_PlayerID = playerID, cl_Issuer = issuer,
               cl_Subject = al_uuidString A playerID, cl_IssuedAt = now, cl_ExpiresAt = now + ttl\<rparr> of
             Inl err \<Rightarrow> Inl (AuthFailure err)
           | Inr tok \<Rightarrow> Inr tok)"

definition ParseAccessToken :: "authlib \<Rightarrow> string \<Rightarrow> string \<Rightarrow> gotime \<Rightarrow> string \<Rightarrow> auth_error + Claims" where
  "ParseAccessToken A secret issuer now raw =
     (if raw = [] then Inl ErrUnauthorized
      else case al_parse A secret issuer now raw of
        None \<Rightarrow> Inl ErrUnauthorized
      | Some claims \<Rightarrow>
          if cl_PlayerID claims = uuid_Nil \<or> cl_UserID claims = uuid_Nil then Inl ErrUnauthorized else Inr claims)"

definition extractBearer :: "string \<Rightarrow> string" where
  "extractBearer h =
     (if length h < 7 then []
      else if map fold_ascii (take 7 h) \<noteq> map fold_ascii ''Bearer '' then []
      else TrimSpace (drop 7 h))"

text \<open>The player id that reaches the handler behind the middleware; \<open>None\<close> is the 401 reply.\<close>

definition Middleware :: "authlib \<Rightarrow> string \<Rightarrow> string \<Rightarrow> gotime \<Rightarrow> string \<Rightarrow> uuid option" where
  "Middleware A secret issuer now header =
     (let raw = extractBearer header
      in if raw = [] then None
         else case ParseAccessToken A secret issuer now raw of
           Inl _ \<Rightarrow> None
         | Inr claims \<Rightarrow> Some (cl_PlayerID claims))"

definition HashPassword :: "authlib \<Rightarrow> nat \<Rightarrow> string \<Rightarrow> auth_error + string" where
  "HashPassword A salt plain =
     (if plain = [] then Inl (ErrInvalidInput ''invalid input'')
      else case al_hash A salt plain of Inl err \<Rightarrow> Inl (AuthFailure err) | Inr h \<Rightarrow> Inr h)"

definition VerifyPassword :: "authlib \<Rightarrow> string \<Rightarrow> string \<Rightarrow> auth_error option" where
  "VerifyPassword A hash plain = (if al_compare A hash plain then None else Some ErrInvalidCredentials)"

subsection \<open>The tables\<close>

record user_row =
  us_id :: uuid
  us_email :: "string option"
  us_hash :: "string option"
  us_guest :: bool
  us_last_login :: "gotime option"

record player_row =
  pl_id :: uuid
  pl_user :: uuid
  pl_name :: string
  pl_avatar :: "string option"
  pl_created :: gotime

record accounts =
  ac_users :: "user_row list"
  ac_players :: "player_row list"

text \<open>
  What the statements of a call meet: which of them fail and with which message, whether a failed
  commit has taken effect, the ids \<open>gen_random_uuid()\<close> draws, and the database's clock.
\<close>

record auth_env =
  ae_fault :: "nat \<Rightarrow> string option"
  ae_landed :: bool
  ae_user :: uuid
  ae_player :: uuid
  ae_now :: gotime

definition insert_user :: "user_row \<Rightarrow> accounts \<Rightarrow> accounts option" where
  "insert_user u db =
     (if us_id u \<in> us_id ` set (ac_users db) \<or>
         us_email u \<noteq> None \<and> us_email u \<in> us_email ` set (ac_users db)
      then None else Some (db\<lparr>ac_users := ac_users db @ [u]\<rparr>))"

definition insert_player :: "player_row \<Rightarrow> accounts \<Rightarrow> accounts option" where
  "insert_player p db =
     (if pl_id p \<in> pl_id ` set (ac_players db) \<or> pl_user p \<notin> us_id ` set (ac_users db)
      then None else Some (db\<lparr>ac_players := ac_players db @ [p]\<rparr>))"

text \<open>The second half of both transactions: the player's row and the commit.\<close>

definition add_player_commit ::
    "string \<Rightarrow> auth_env \<Rightarrow> string \<Rightarrow> accounts \<Rightarrow> accounts \<Rightarrow> (auth_error + uuid \<times> uuid) \<times> accounts" where
  "add_player_commit what e displayName db1 db =
     (case (case ae_fault e 2 of
              Some err \<Rightarrow> Inl err
            | None \<Rightarrow> (case insert_player \<lparr>pl_id = ae_player e, pl_user = ae_user e, pl_name = displayName, pl_avatar = None, pl_created = ae_now e\<rparr> db1 of
                         None \<Rightarrow> Inl ''violates a constraint'' | Some db2 \<Rightarrow> Inr db2)) of
        Inl err \<Rightarrow> (Inl (AuthFailure (what @ err)), db)
      | Inr db2 \<Rightarrow>
          (case ae_fault e 3 of
             Some err \<Rightarrow> (Inl (AuthFailure (''commit: '' @ err)), if ae_landed e then db2 else db)
           | None \<Rightarrow> (Inr (ae_user e, ae_player e), db2)))"

definition CreateUserWithPlayer ::
    "auth_env \<Rightarrow> string \<Rightarrow> string \<Rightarrow> string \<Rightarrow> accounts \<Rightarrow> (auth_error + uuid \<times> uuid) \<times> accounts" where
  "CreateUserWithPlayer e email passwordHash displayName db =
     (case ae_fault e 0 of
        Some err \<Rightarrow> (Inl (AuthFailure (''begin tx: '' @ err)), db)
      | None \<Rightarrow>
     (case ae_fault e 1 of
        Some err \<Rightarrow> (Inl (AuthFailure (''insert user: '' @ err)), db)
      | None \<Rightarrow>
     (case insert_user \<lparr>us_id = ae_user e, us_email = Some email, us_hash = Some passwordHash, us_guest = False,
              us_last_login = None\<rparr> db of
        None \<Rightarrow> (Inl ErrEmailTaken, db)
      | Some db1 \<Rightarrow> add_player_commit ''insert player: '' e displayName db1 db)))"

definition CreateGuest :: "auth_env \<Rightarrow> string \<Rightarrow> accounts \<Rightarrow> (auth_error + uuid \<times> uuid) \<times> accounts" where
  "CreateGuest e displayName db =
     (case ae_fault e 0 of
        Some err \<Rightarrow> (Inl (AuthFailure (''begin tx: '' @ err)), db)
      | None \<Rightarrow>
     (case (case ae_fault e 1 of
              Some err \<Rightarrow> Inl err
            | None \<Rightarrow> (case insert_user \<lparr>us_id = ae_user e, us_email = None, us_hash = None, us_guest = True,
                                us_last_login = None\<rparr> db of
                         None \<Rightarrow> Inl ''violates a constraint'' | Some db1 \<Rightarrow> Inr db1)) of
        Inl err \<Rightarrow> (Inl (AuthFailure (''insert guest user: '' @ err)), db)
      | Inr db1 \<Rightarrow> add_player_commit ''insert guest player: '' e displayName db1 db))"

text \<open>
  When the query fails nothing is scanned, so \<open>hash\<close> is nil and the first test already holds: the
  error is not looked at.
\<close>

definition LookupUserByEmail :: "auth_env \<Rightarrow> string \<Rightarrow> accounts \<Rightarrow> auth_error + uuid \<times> string" where
  "LookupUserByEmail e email db =
     (let row = (if ae_fault e 4 = None then List.find (\<lambda>u. us_email u = Some email) (ac_users db) else None);
          isGuest = (case row of None \<Rightarrow> False | Some u \<Rightarrow> us_guest u);
          hash = (case row of None \<Rightarrow> None | Some u \<Rightarrow> us_hash u)
      in if ae_fault e 4 = None \<and> row = None \<or> isGuest \<or> hash = None then Inl ErrInvalidCredentials
         else case ae_fault e 4 of
           Some err \<Rightarrow> Inl (AuthFailure (''lookup user: '' @ err))
         | None \<Rightarrow> Inr (us_id (the row), the hash))"

definition PlayerByUserID :: "auth_env \<Rightarrow> uuid \<Rightarrow> accounts \<Rightarrow> auth_error + uuid" where
  "PlayerByUserID e userID db =
     (case ae_fault e 5 of
        Some err \<Rightarrow> Inl (AuthFailure (''lookup player: '' @ err))
      | None \<Rightarrow>
          (case List.find (\<lambda>p. pl_user p = userID) (ac_players db) of
             None \<Rightarrow> Inl ErrPlayerNotFound
           | Some p \<Rightarrow> Inr (pl_id p)))"

definition PlayerByID :: "auth_env \<Rightarrow> uuid \<Rightarrow> accounts \<Rightarrow> auth_error option" where
  "PlayerByID e playerID db =
     (case ae_fault e 5 of
        Some err \<Rightarrow> Some (AuthFailure err)
      | None \<Rightarrow> if playerID \<in> pl_id ` set (ac_players db) then None else Some ErrPlayerNotFound)"

definition TouchLastLogin :: "auth_env \<Rightarrow> uuid \<Rightarrow> accounts \<Rightarrow> accounts" where
  "TouchLastLogin e userID db =
     (case ae_fault e 6 of
        Some _ \<Rightarrow> db
      | None \<Rightarrow> db\<lparr>ac_users := map (\<lambda>u. if us_id u = userID then u\<lparr>us_last_login := Some (ae_now e)\<rparr> else u)
                   (ac_users db)\<rparr>)"

subsection \<open>The service\<close>

record AuthService =
  sv_secret :: string
  sv_issuer :: string
  sv_ttl :: duration

record RegisterRequest =
  rq_Email :: string
  rq_Password :: string
  rq_DisplayName :: string

definition normalizeEmail :: "authlib \<Rightarrow> string \<Rightarrow> string + string" where
  "normalizeEmail A raw =
     (let s = TrimSpace raw
      in if s = [] then Inl ''email is required''
         else case al_parseAddress A s of
           None \<Rightarrow> Inl ''invalid email''
         | Some addr \<Rightarrow> Inr (al_toLower A addr))"

definition validatePassword :: "string \<Rightarrow> string option" where
  "validatePassword p =
     (if length p < 8 then Some ''password must be at least 8 characters''
      else if 128 < length p then Some ''password too long'' else None)"

definition validateDisplayName :: "string \<Rightarrow> string + string" where
  "validateDisplayName name =
     (let trimmed = TrimSpace name
      in if trimmed = [] then Inl ''display name is required''
         else if 32 < length trimmed then Inl ''display name must be at most 32 characters''
         else Inr trimmed)"

definition invalid_input :: "string \<Rightarrow> auth_error" where
  "invalid_input why = ErrInvalidInput (''invalid input: '' @ why)"

text \<open>\<open>fmt.Errorf(what + "%w", err)\<close>: the sentinel that \<open>err\<close> wraps is still found.\<close>

fun wrap_error :: "string \<Rightarrow> auth_error \<Rightarrow> auth_error" where
  "wrap_error what (ErrInvalidInput msg) = ErrInvalidInput (what @ msg)"
| "wrap_error what err = AuthFailure (what @ auth_error_String err)"

text \<open>\<open>now\<close> is read when the token is issued; \<open>salt\<close> is what bcrypt draws.\<close>

definition Register ::
    "authlib \<Rightarrow> AuthService \<Rightarrow> nat \<Rightarrow> auth_env \<Rightarrow> gotime \<Rightarrow> RegisterRequest \<Rightarrow> accounts \<Rightarrow>
     (auth_error + string \<times> uuid) \<times> accounts" where
  "Register A s salt e now req db =
     (case normalizeEmail A (rq_Email req) of
        Inl why \<Rightarrow> (Inl (invalid_input why), db)
      | Inr email \<Rightarrow>
     (case validatePassword (rq_Password req) of
        Some why \<Rightarrow> (Inl (invalid_input why), db)
      | None \<Rightarrow>
     (case validateDisplayName (rq_DisplayName req) of
        Inl why \<Rightarrow> (Inl (invalid_input why), db)
      | Inr name \<Rightarrow>
     (case HashPassword A salt (rq_Password req) of
        Inl err \<Rightarrow> (Inl (wrap_error ''hash: '' err), db)
      | Inr hash \<Rightarrow>
     (case CreateUserWithPlayer e email hash name db of
        (Inl err, db') \<Rightarrow> (Inl err, db')
      | (Inr (userID, playerID), db') \<Rightarrow>
     (case IssueAccessToken A (sv_secret s) (sv_issuer s) (sv_ttl s) now userID playerID of
        Inl err \<Rightarrow> (Inl (wrap_error ''issue token: '' err), db')
      | Inr tok \<Rightarrow> (Inr (tok, playerID), db')))))))"

definition Login ::
    "authlib \<Rightarrow> AuthService \<Rightarrow> auth_env \<Rightarrow> gotime \<Rightarrow> string \<Rightarrow> string \<Rightarrow> accounts \<Rightarrow>
     (auth_error + string \<times> uuid) \<times> accounts" where
  "Login A s e now email password db =
     (case normalizeEmail A email of
        Inl _ \<Rightarrow> (Inl ErrInvalidCredentials, db)
      | Inr email \<Rightarrow>
     (case LookupUserByEmail e email db of
        Inl _ \<Rightarrow> (Inl ErrInvalidCredentials, db)
      | Inr (userID, hash) \<Rightarrow>
     (case VerifyPassword A hash password of
        Some _ \<Rightarrow> (Inl ErrInvalidCredentials, db)
      | None \<Rightarrow>
     (case PlayerByUserID e userID db of
        Inl err \<Rightarrow> (Inl err, db)
      | Inr playerID \<Rightarrow>
          let db' = TouchLastLogin e userID db
          in case IssueAccessToken A (sv_secret s) (sv_issuer s) (sv_ttl s) now userID playerID of
               Inl err \<Rightarrow> (Inl (wrap_error ''issue token: '' err), db')
             | Inr tok \<Rightarrow> (Inr (tok, playerID), db')))))"

text \<open>\<open>randomHex(3)\<close>: \<open>rnd\<close> is the three bytes read, \<open>None\<close> when reading fails.\<close>

definition hex_digit :: "nat \<Rightarrow> char" where
  "hex_digit n = ''0123456789abcdef'' ! n"

definition randomHex :: "bytes option \<Rightarrow> string" where
  "randomHex rnd =
     (case rnd of
        None \<Rightarrow> ''000000''
      | Some b \<Rightarrow> concat (map (\<lambda>x. [hex_digit (unat x div 16), hex_digit (unat x mod 16)]) b))"

definition Guest ::
    "authlib \<Rightarrow> AuthService \<Rightarrow> bytes option \<Rightarrow> auth_env \<Rightarrow> gotime \<Rightarrow> accounts \<Rightarrow>
     (auth_error + string \<times> uuid) \<times> accounts" where
  "Guest A s rnd e now db =
     (case CreateGuest e (''Guest-'' @ randomHex rnd) db of
        (Inl err, db') \<Rightarrow> (Inl err, db')
      | (Inr (userID, playerID), db') \<Rightarrow>
     (case IssueAccessToken A (sv_secret s) (sv_issuer s) (sv_ttl s) now userID playerID of
        Inl err \<Rightarrow> (Inl (wrap_error ''issue token: '' err), db')
      | Inr tok \<Rightarrow> (Inr (tok, playerID), db')))"

subsection \<open>The handlers\<close>

text \<open>The request's body is what \<open>json.Decoder\<close> makes of it, \<open>None\<close> when it is refused.\<close>

record AuthResponse =
  ar_AccessToken :: string
  ar_PlayerID :: string

definition writeAuthResponse :: "authlib \<Rightarrow> string \<Rightarrow> uuid \<Rightarrow> AuthResponse response" where
  "writeAuthResponse A token playerID =
     HttpJSON 200 \<lparr>ar_AccessToken = token, ar_PlayerID = al_uuidString A playerID\<rparr>"

definition handle_Register ::
    "authlib \<Rightarrow> AuthService \<Rightarrow> nat \<Rightarrow> auth_env \<Rightarrow> gotime \<Rightarrow> RegisterRequest option \<Rightarrow> accounts \<Rightarrow>
     AuthResponse response \<times> accounts" where
  "handle_Register A s salt e now body db =
     (case body of
        None \<Rightarrow> (HttpError 400 ''invalid json'', db)
      | Some req \<Rightarrow>
          (case Register A s salt e now req db of
             (Inl ErrEmailTaken, db') \<Rightarrow> (HttpError 409 ''email already in use'', db')
           | (Inl (ErrInvalidInput msg), db') \<Rightarrow> (HttpError 400 msg, db')
           | (Inl _, db') \<Rightarrow> (HttpError 500 ''internal'', db')
           | (Inr (tok, playerID), db') \<Rightarrow> (writeAuthResponse A tok playerID, db')))"

definition handle_Login ::
    "authlib \<Rightarrow> AuthService \<Rightarrow> auth_env \<Rightarrow> gotime \<Rightarrow> (string \<times> string) option \<Rightarrow> accounts \<Rightarrow>
     AuthResponse response \<times> accounts" where
  "handle_Login A s e now body db =
     (case body of
        None \<Rightarrow> (HttpError 400 ''invalid json'', db)
      | Some (email, password) \<Rightarrow>
          (case Login A s e now email password db of
             (Inl ErrInvalidCredentials, db') \<Rightarrow> (HttpError 401 ''invalid credentials'', db')
           | (Inl _, db') \<Rightarrow> (HttpError 500 ''internal'', db')
           | (Inr (tok, playerID), db') \<Rightarrow> (writeAuthResponse A tok playerID, db')))"

definition handle_Guest ::
    "authlib \<Rightarrow> AuthService \<Rightarrow> bytes option \<Rightarrow> auth_env \<Rightarrow> gotime \<Rightarrow> accounts \<Rightarrow> AuthResponse response \<times> accounts" where
  "handle_Guest A s rnd e now db =
     (case Guest A s rnd e now db of
        (Inl _, db') \<Rightarrow> (HttpError 500 ''internal'', db')
      | (Inr (tok, playerID), db') \<Rightarrow> (writeAuthResponse A tok playerID, db'))"

subsection \<open>The invariant of the accounts\<close>

text \<open>
  Ids and emails are unique, and users and players correspond one to one.
\<close>

definition auth_wf :: "accounts \<Rightarrow> bool" where
  "auth_wf db \<longleftrightarrow>
     distinct (map us_id (ac_users db)) \<and> distinct (map pl_id (ac_players db)) \<and>
     map pl_user (ac_players db) = map us_id (ac_users db) \<and>
     distinct (List.map_filter us_email (ac_users db)) \<and>
     (\<forall>u \<in> set (ac_users db). us_guest u \<longleftrightarrow> us_email u = None)"

lemma map_filter_append1: "List.map_filter f (xs @ [x]) = List.map_filter f xs @ (case f x of None \<Rightarrow> [] | Some y \<Rightarrow> [y])"
  by (induction xs) (auto simp: map_filter_simps split: option.split)

lemma in_map_filter_email: "m \<in> set (List.map_filter us_email us) \<longleftrightarrow> Some m \<in> us_email ` set us"
  by (induction us) (auto simp: map_filter_simps split: option.split)

text \<open>An account added as a whole.\<close>

definition account_added :: "accounts \<Rightarrow> accounts \<Rightarrow> bool" where
  "account_added db db' \<longleftrightarrow>
     (\<exists>u p. db' = db\<lparr>ac_users := ac_users db @ [u], ac_players := ac_players db @ [p]\<rparr> \<and> pl_user p = us_id u \<and>
        us_id u \<notin> us_id ` set (ac_users db) \<and> pl_id p \<notin> pl_id ` set (ac_players db) \<and>
        (us_guest u \<longleftrightarrow> us_email u = None) \<and> (us_email u \<noteq> None \<longrightarrow> us_email u \<notin> us_email ` set (ac_users db)))"

lemma account_added_wf: "auth_wf db \<Longrightarrow> account_added db db' \<Longrightarrow> auth_wf db'"
  by (auto simp: auth_wf_def account_added_def map_filter_append1 in_map_filter_email split: option.split)

lemma add_player_commit_cases:
  assumes "insert_user u db = Some db1" and "us_id u = ae_user e" and "us_guest u \<longleftrightarrow> us_email u = None"
    and "add_player_commit what e name db1 db = (res, db')"
  shows "db' = db \<or> account_added db db'"
    and "res = Inr ids \<Longrightarrow> ids = (ae_user e, ae_player e) \<and> account_added db db' \<and>
      db' = db\<lparr>ac_users := ac_users db @ [u],
               ac_players := ac_players db @ [\<lparr>pl_id = ae_player e, pl_user = ae_user e, pl_name = name, pl_avatar = None, pl_created = ae_now e\<rparr>]\<rparr>"
proof -
  let ?p = "\<lparr>pl_id = ae_player e, pl_user = ae_user e, pl_name = name, pl_avatar = None, pl_created = ae_now e\<rparr>"
  let ?db2 = "db\<lparr>ac_users := ac_users db @ [u], ac_players := ac_players db @ [?p]\<rparr>"
  have db1: "db1 = db\<lparr>ac_users := ac_users db @ [u]\<rparr>" "us_id u \<notin> us_id ` set (ac_users db)"
    "us_email u \<noteq> None \<longrightarrow> us_email u \<notin> us_email ` set (ac_users db)"
    using assms(1) by (auto simp: insert_user_def split: if_splits)
  have ins: "insert_player ?p db1 = (if ae_player e \<in> pl_id ` set (ac_players db) then None else Some ?db2)"
    using assms(2) by (simp add: insert_player_def db1(1))
  have added: "account_added db ?db2" if "ae_player e \<notin> pl_id ` set (ac_players db)"
    unfolding account_added_def using that db1(2,3) assms(2,3) by (intro exI [of _ u] exI [of _ ?p]) simp
  show "db' = db \<or> account_added db db'"
    and "res = Inr ids \<Longrightarrow> ids = (ae_user e, ae_player e) \<and> account_added db db' \<and> db' = ?db2"
    using assms(4) added
    by (simp_all add: add_player_commit_def ins split: option.splits if_split_asm)
qed

lemma CreateUserWithPlayer_cases:
  assumes "CreateUserWithPlayer e email h name db = (res, db')"
  shows "db' = db \<or> account_added db db'"
    and "res = Inr ids \<Longrightarrow> ids = (ae_user e, ae_player e) \<and> account_added db db' \<and>
      db' = db\<lparr>ac_users := ac_users db @ [\<lparr>us_id = ae_user e, us_email = Some email, us_hash = Some h, us_guest = False, us_last_login = None\<rparr>],
        ac_players := ac_players db @ [\<lparr>pl_id = ae_player e, pl_user = ae_user e, pl_name = name, pl_avatar = None, pl_created = ae_now e\<rparr>]\<rparr>"
  using assms add_player_commit_cases [where u = "\<lparr>us_id = ae_user e, us_email = Some email, us_hash = Some h, us_guest = False, us_last_login = None\<rparr>"
      and db = db and e = e and name = name and res = res and db' = db' and what = "''insert player: ''"]
  by (auto simp: CreateUserWithPlayer_def split: option.splits)

lemma CreateGuest_cases:
  assumes "CreateGuest e name db = (res, db')"
  shows "db' = db \<or> account_added db db'"
  using assms add_player_commit_cases(1) [where u = "\<lparr>us_id = ae_user e, us_email = None, us_hash = None, us_guest = True, us_last_login = None\<rparr>"
      and db = db and e = e and name = name and res = res and db' = db' and what = "''insert guest player: ''"]
  by (auto simp: CreateGuest_def split: option.splits)

lemma TouchLastLogin_wf: "auth_wf db \<Longrightarrow> auth_wf (TouchLastLogin e uid db)"
proof -
  let ?f = "\<lambda>u. if us_id u = uid then u\<lparr>us_last_login := Some (ae_now e)\<rparr> else u"
  have m: "map us_id (map ?f us) = map us_id us" "List.map_filter us_email (map ?f us) = List.map_filter us_email us" for us
    by (induction us) (simp_all add: map_filter_simps split: option.split)
  show "auth_wf db \<Longrightarrow> auth_wf (TouchLastLogin e uid db)"
    by (auto simp: auth_wf_def TouchLastLogin_def m simp del: map_map split: option.split)
qed

lemma Register_cases:
  assumes "Register A s salt e now req db = (res, db')"
  shows "db' = db \<or> account_added db db'"
    and "res = Inr (tok, pid) \<Longrightarrow> \<exists>email name h. normalizeEmail A (rq_Email req) = Inr email \<and>
      al_hash A salt (rq_Password req) = Inr h \<and> pid = ae_player e \<and> account_added db db' \<and>
      db' = db\<lparr>ac_users := ac_users db @ [\<lparr>us_id = ae_user e, us_email = Some email, us_hash = Some h, us_guest = False, us_last_login = None\<rparr>],
        ac_players := ac_players db @ [\<lparr>pl_id = ae_player e, pl_user = ae_user e, pl_name = name, pl_avatar = None, pl_created = ae_now e\<rparr>]\<rparr> \<and>
      IssueAccessToken A (sv_secret s) (sv_issuer s) (sv_ttl s) now (ae_user e) (ae_player e) = Inr tok"
proof -
  show "db' = db \<or> account_added db db'"
    using assms CreateUserWithPlayer_cases(1)
    by (auto simp: Register_def split: sum.splits option.splits prod.splits)
  assume "res = Inr (tok, pid)"
  then obtain email name h uid where n: "normalizeEmail A (rq_Email req) = Inr email"
    "HashPassword A salt (rq_Password req) = Inr h"
    and c: "CreateUserWithPlayer e email h name db = (Inr (uid, pid), db')"
    and t: "IssueAccessToken A (sv_secret s) (sv_issuer s) (sv_ttl s) now uid pid = Inr tok"
    using assms by (auto simp: Register_def split: sum.splits option.splits prod.splits)
  have "al_hash A salt (rq_Password req) = Inr h"
    using n(2) by (auto simp: HashPassword_def split: if_splits sum.splits)
  then show "\<exists>email name h. normalizeEmail A (rq_Email req) = Inr email \<and>
      al_hash A salt (rq_Password req) = Inr h \<and> pid = ae_player e \<and> account_added db db' \<and>
      db' = db\<lparr>ac_users := ac_users db @ [\<lparr>us_id = ae_user e, us_email = Some email, us_hash = Some h, us_guest = False, us_last_login = None\<rparr>],
        ac_players := ac_players db @ [\<lparr>pl_id = ae_player e, pl_user = ae_user e, pl_name = name, pl_avatar = None, pl_created = ae_now e\<rparr>]\<rparr> \<and>
      IssueAccessToken A (sv_secret s) (sv_issuer s) (sv_ttl s) now (ae_user e) (ae_player e) = Inr tok"
    using n(1) t CreateUserWithPlayer_cases(2) [OF c refl] by blast
qed

lemma Login_db: "snd (Login A s e now email pw db) = db \<or> (\<exists>uid. snd (Login A s e now email pw db) = TouchLastLogin e uid db)"
  by (auto simp: Login_def Let_def split: sum.splits option.splits)

text \<open>
  What the JWT library documents: signing with a key succeeds, and the token parses under the same key
  and issuer, to the ids it was signed for, as long as its expiry, a whole second, lies ahead.
\<close>

definition jwt_doc :: "authlib \<Rightarrow> bool" where
  "jwt_doc A \<longleftrightarrow> (\<forall>secret c. secret \<noteq> [] \<longrightarrow> (\<exists>tok. al_sign A secret c = Inr tok)) \<and>
     (\<forall>secret c tok. al_sign A secret c = Inr tok \<longrightarrow> tok \<noteq> [] \<and> TrimSpace tok = tok \<and>
        (\<forall>t. case al_parse A secret (cl_Issuer c) t tok of
           None \<Rightarrow> unix_time (time_Unix (cl_ExpiresAt c)) \<le> t
         | Some c' \<Rightarrow> t < unix_time (time_Unix (cl_ExpiresAt c)) \<and>
             cl_PlayerID c' = cl_PlayerID c \<and> cl_UserID c' = cl_UserID c))"

lemma Issue_admits:
  assumes "jwt_doc A" and "IssueAccessToken A secret issuer ttl now uid pid = Inr tok" and "uid \<noteq> 0" and "pid \<noteq> 0"
  shows "Middleware A secret issuer t (''Bearer '' @ tok) = (if t < unix_time (time_Unix (now + ttl)) then Some pid else None)"
proof -
  let ?c = "\<lparr>cl_UserID = uid, cl_PlayerID = pid, cl_Issuer = issuer,
               cl_Subject = al_uuidString A pid, cl_IssuedAt = now, cl_ExpiresAt = now + ttl\<rparr>"
  have "al_sign A secret ?c = Inr tok" using assms(2) by (auto simp: IssueAccessToken_def split: if_splits sum.splits)
  then have tok: "tok \<noteq> []" "TrimSpace tok = tok"
    and p: "\<forall>t. case al_parse A secret (cl_Issuer ?c) t tok of
           None \<Rightarrow> unix_time (time_Unix (cl_ExpiresAt ?c)) \<le> t
         | Some c' \<Rightarrow> t < unix_time (time_Unix (cl_ExpiresAt ?c)) \<and>
             cl_PlayerID c' = cl_PlayerID ?c \<and> cl_UserID c' = cl_UserID ?c"
    using assms(1) unfolding jwt_doc_def by blast+
  moreover have "extractBearer (''Bearer '' @ tok) = tok" by (simp add: extractBearer_def tok(2))
  ultimately show ?thesis using spec [OF p, of t] assms(3,4)
    by (cases "al_parse A secret issuer t tok") (simp_all add: Middleware_def ParseAccessToken_def Let_def)
qed

lemma Issue_ok: "jwt_doc A \<Longrightarrow> secret \<noteq> [] \<Longrightarrow> \<exists>tok. IssueAccessToken A secret issuer ttl now uid pid = Inr tok"
proof -
  assume "jwt_doc A" "secret \<noteq> []"
  then obtain tok where "al_sign A secret \<lparr>cl_UserID = uid, cl_PlayerID = pid, cl_Issuer = issuer,
               cl_Subject = al_uuidString A pid, cl_IssuedAt = now, cl_ExpiresAt = now + ttl\<rparr> = Inr tok"
    unfolding jwt_doc_def by blast
  then show ?thesis using \<open>secret \<noteq> []\<close> by (simp add: IssueAccessToken_def)
qed

lemma find_append_new: "(\<forall>y \<in> set xs. \<not> P y) \<Longrightarrow> P x \<Longrightarrow> List.find P (xs @ [x]) = Some x"
  by (induction xs) auto

text \<open>What a login meets in the tables that a registration has left.\<close>

lemma lookup_added:
  assumes "auth_wf db" and "account_added db db'"
    and "db' = db\<lparr>ac_users := ac_users db @ [u], ac_players := ac_players db @ [p]\<rparr>"
    and "us_email u = Some m" and "us_hash u = Some h" and "\<not> us_guest u"
    and "ae_fault e 4 = None" and "ae_fault e 5 = None"
  shows "LookupUserByEmail e m db' = Inr (us_id u, h)"
    and "PlayerByUserID e (us_id u) db' = Inr (pl_id p)"
proof -
  have new: "us_id u \<notin> us_id ` set (ac_users db)" "Some m \<notin> us_email ` set (ac_users db)" "pl_user p = us_id u"
  proof -
    obtain u' p' where d: "db' = db\<lparr>ac_users := ac_users db @ [u'], ac_players := ac_players db @ [p']\<rparr>"
      and f: "pl_user p' = us_id u'" "us_id u' \<notin> us_id ` set (ac_users db)"
        "us_email u' \<noteq> None \<longrightarrow> us_email u' \<notin> us_email ` set (ac_users db)"
      using assms(2) by (auto simp: account_added_def)
    have "u' = u" "p' = p" using arg_cong [OF d, of ac_users] arg_cong [OF d, of ac_players] assms(3) by simp_all
    then show "us_id u \<notin> us_id ` set (ac_users db)" "Some m \<notin> us_email ` set (ac_users db)" "pl_user p = us_id u"
      using f assms(4) by simp_all
  qed
  have "List.find (\<lambda>u. us_email u = Some m) (ac_users db @ [u]) = Some u"
    using new(2) assms(4) by (intro find_append_new) force+
  then show "LookupUserByEmail e m db' = Inr (us_id u, h)"
    using assms(3,5,6,7) by (simp add: LookupUserByEmail_def)
  have "set (map pl_user (ac_players db)) = us_id ` set (ac_users db)" using assms(1) by (simp add: auth_wf_def)
  then have "List.find (\<lambda>p. pl_user p = us_id u) (ac_players db @ [p]) = Some p"
    using new(1,3) by (intro find_append_new) force+
  then show "PlayerByUserID e (us_id u) db' = Inr (pl_id p)"
    using assms(3,8) by (simp add: PlayerByUserID_def)
qed

subsection \<open>Registering and logging in\<close>

text \<open>C24. After a registration with an id pair that is not nil, whoever gives an email of the same normal form and
  the same password logs in as the registered player while the database answers, and a password that bcrypt
  does not match with the stored hash is refused; each of the two access tokens opens the protected routes to
  that player before its expiry, and to nobody from then on.\<close>

theorem account_roundtrip:
  assumes "auth_wf db" and "jwt_doc A" and "\<forall>salt p h. al_hash A salt p = Inr h \<longrightarrow> al_compare A h p"
    and "Register A s salt e now req db = (Inr (tok, pid), db')" and "ae_user e \<noteq> 0" and "ae_player e \<noteq> 0"
    and "normalizeEmail A email = normalizeEmail A (rq_Email req)"
    and "ae_fault e' 4 = None" and "ae_fault e' 5 = None" and "sv_secret s \<noteq> []"
  shows "(\<forall>t. Middleware A (sv_secret s) (sv_issuer s) t (''Bearer '' @ tok) =
            (if t < unix_time (time_Unix (now + sv_ttl s)) then Some pid else None)) \<and>
    (\<exists>tok'. Login A s e' now' email (rq_Password req) db' = (Inr (tok', pid), TouchLastLogin e' (ae_user e) db') \<and>
       (\<forall>t. Middleware A (sv_secret s) (sv_issuer s) t (''Bearer '' @ tok') =
            (if t < unix_time (time_Unix (now' + sv_ttl s)) then Some pid else None))) \<and>
    (\<forall>pw. (\<forall>u \<in> set (ac_users db'). us_id u = ae_user e \<longrightarrow> \<not> al_compare A (the (us_hash u)) pw) \<longrightarrow>
       Login A s e' now' email pw db' = (Inl ErrInvalidCredentials, db'))"
proof -
  obtain m name h where n: "normalizeEmail A (rq_Email req) = Inr m" and h: "al_hash A salt (rq_Password req) = Inr h"
    and pid: "pid = ae_player e" and added: "account_added db db'"
    and db': "db' = db\<lparr>ac_users := ac_users db @ [\<lparr>us_id = ae_user e, us_email = Some m, us_hash = Some h, us_guest = False, us_last_login = None\<rparr>],
        ac_players := ac_players db @ [\<lparr>pl_id = ae_player e, pl_user = ae_user e, pl_name = name, pl_avatar = None, pl_created = ae_now e\<rparr>]\<rparr>"
    and tok: "IssueAccessToken A (sv_secret s) (sv_issuer s) (sv_ttl s) now (ae_user e) (ae_player e) = Inr tok"
    using Register_cases(2) [OF assms(4) refl] by blast
  have look: "LookupUserByEmail e' m db' = Inr (ae_user e, h)" "PlayerByUserID e' (ae_user e) db' = Inr pid"
    using lookup_added [OF assms(1) added db' _ _ _ assms(8,9), of m h] pid by simp_all
  obtain tok' where tok': "IssueAccessToken A (sv_secret s) (sv_issuer s) (sv_ttl s) now' (ae_user e) pid = Inr tok'"
    using Issue_ok [OF assms(2,10)] by blast
  have "al_compare A h (rq_Password req)" using assms(3) h by blast
  then have "Login A s e' now' email (rq_Password req) db' = (Inr (tok', pid), TouchLastLogin e' (ae_user e) db')"
    using n look tok' assms(7) by (simp add: Login_def VerifyPassword_def Let_def)
  moreover have "Login A s e' now' email pw db' = (Inl ErrInvalidCredentials, db')"
    if "\<forall>u \<in> set (ac_users db'). us_id u = ae_user e \<longrightarrow> \<not> al_compare A (the (us_hash u)) pw" for pw
    using that n look(1) assms(7) by (simp add: db' Login_def VerifyPassword_def)
  ultimately show ?thesis
    using Issue_admits [OF assms(2) tok assms(5,6)] Issue_admits [OF assms(2) tok' assms(5)] assms(6) pid by auto
qed

text \<open>C29. Users and players stay in one-to-one correspondence with unique ids and emails, exactly the guests having no
  email, under every registration, login and guest session, whatever fails; and a registration or guest session
  adds one user with its player or changes nothing.\<close>

theorem accounts_invariant:
  assumes "auth_wf db"
  shows "auth_wf (snd (handle_Register A s salt e now body db)) \<and> auth_wf (snd (handle_Login A s e now login db)) \<and>
    auth_wf (snd (handle_Guest A s rnd e now db)) \<and>
    (\<forall>db' \<in> {snd (handle_Register A s salt e now body db), snd (handle_Guest A s rnd e now db)}.
       db' = db \<or> account_added db db')"
proof -
  have r: "snd (handle_Register A s salt e now body db) = db \<or> account_added db (snd (handle_Register A s salt e now body db))"
    using Register_cases(1) [of A s salt e now "the body" db]
    by (auto simp: handle_Register_def split: option.splits prod.splits sum.splits auth_error.splits)
  have g: "snd (handle_Guest A s rnd e now db) = db \<or> account_added db (snd (handle_Guest A s rnd e now db))"
    using CreateGuest_cases
    by (auto simp: handle_Guest_def Guest_def split: option.splits prod.splits sum.splits)
  have l: "snd (handle_Login A s e now login db) = snd (Login A s e now (fst (the login)) (snd (the login)) db) \<or>
      snd (handle_Login A s e now login db) = db"
    by (auto simp: handle_Login_def split: option.splits prod.splits sum.splits auth_error.splits)
  have "auth_wf (snd (handle_Login A s e now login db))"
    using l Login_db [of A s e now "fst (the login)" "snd (the login)" db] TouchLastLogin_wf [OF assms] assms
    by auto
  then show ?thesis using r g account_added_wf [OF assms] assms by auto
qed

text \<open>What \<open>LookupUserByEmail\<close> and \<open>Login\<close> come to.\<close>

definition credentials :: "authlib \<Rightarrow> auth_env \<Rightarrow> string \<Rightarrow> string \<Rightarrow> accounts \<Rightarrow> uuid option" where
  "credentials A e email pw db =
     (case normalizeEmail A email of
        Inl _ \<Rightarrow> None
      | Inr m \<Rightarrow> if ae_fault e 4 \<noteq> None then None
          else (case List.find (\<lambda>u. us_email u = Some m) (ac_users db) of
             None \<Rightarrow> None
           | Some u \<Rightarrow> if us_guest u then None
               else (case us_hash u of None \<Rightarrow> None | Some h \<Rightarrow> if al_compare A h pw then Some (us_id u) else None)))"

lemma LookupUserByEmail_eq:
  "LookupUserByEmail e m db =
     (if ae_fault e 4 \<noteq> None then Inl ErrInvalidCredentials
      else case List.find (\<lambda>u. us_email u = Some m) (ac_users db) of
             None \<Rightarrow> Inl ErrInvalidCredentials
           | Some u \<Rightarrow> if us_guest u then Inl ErrInvalidCredentials
               else (case us_hash u of None \<Rightarrow> Inl ErrInvalidCredentials | Some h \<Rightarrow> Inr (us_id u, h)))"
  by (auto simp: LookupUserByEmail_def Let_def split: option.splits)

lemma Login_refused: "credentials A e email pw db = None \<Longrightarrow> Login A s e now email pw db = (Inl ErrInvalidCredentials, db)"
  by (auto simp: credentials_def Login_def LookupUserByEmail_eq VerifyPassword_def split: sum.splits option.splits if_split_asm)

lemma wrap_error_no_credentials [simp]: "wrap_error w err \<noteq> ErrInvalidCredentials"
  by (cases err) simp_all

lemma PlayerByUserID_no_credentials [simp]: "PlayerByUserID e uid db \<noteq> Inl ErrInvalidCredentials"
  by (auto simp: PlayerByUserID_def split: option.splits)

lemma Login_accepted:
  assumes "credentials A e email pw db = Some uid"
  shows "fst (Login A s e now email pw db) \<noteq> Inl ErrInvalidCredentials"
proof -
  have "\<exists>m h. normalizeEmail A email = Inr m \<and> LookupUserByEmail e m db = Inr (uid, h) \<and> VerifyPassword A h pw = None"
    using assms
    by (auto simp: credentials_def LookupUserByEmail_eq VerifyPassword_def split: sum.splits option.splits if_split_asm)
  then show ?thesis using PlayerByUserID_no_credentials [of e uid db]
    by (auto simp: Login_def Let_def simp del: PlayerByUserID_no_credentials split: sum.splits)
qed

text \<open>C32. A login is answered 401 exactly when its body was read and the email is malformed, the user query fails, there is no user
  of that email or it has no password, or bcrypt refuses the password; it then changes nothing. In particular
  a failing database is reported as invalid credentials, not as an internal error.\<close>

theorem login_refusals:
  "(fst (handle_Login A s e now body db) = HttpError 401 ''invalid credentials'' \<longleftrightarrow>
      (\<exists>email pw. body = Some (email, pw) \<and>
         (case normalizeEmail A email of
            Inl _ \<Rightarrow> True
          | Inr m \<Rightarrow> ae_fault e 4 \<noteq> None \<or>
              (case List.find (\<lambda>u. us_email u = Some m) (ac_users db) of
                 None \<Rightarrow> True
               | Some u \<Rightarrow> us_guest u \<or> (case us_hash u of None \<Rightarrow> True | Some h \<Rightarrow> \<not> al_compare A h pw))))) \<and>
   (fst (handle_Login A s e now body db) = HttpError 401 ''invalid credentials'' \<longrightarrow>
      snd (handle_Login A s e now body db) = db)"
proof (cases body)
  case (Some login)
  obtain email pw where b: "body = Some (email, pw)" using Some by (cases login) simp
  have "(case normalizeEmail A email of
            Inl _ \<Rightarrow> True
          | Inr m \<Rightarrow> ae_fault e 4 \<noteq> None \<or>
              (case List.find (\<lambda>u. us_email u = Some m) (ac_users db) of
                 None \<Rightarrow> True
               | Some u \<Rightarrow> us_guest u \<or> (case us_hash u of None \<Rightarrow> True | Some h \<Rightarrow> \<not> al_compare A h pw))) \<longleftrightarrow>
      credentials A e email pw db = None"
    by (simp add: credentials_def split: sum.split option.split)
  moreover have "fst (handle_Login A s e now body db) = HttpError 401 ''invalid credentials'' \<longleftrightarrow> credentials A e email pw db = None"
    using Login_accepted [of A e email pw db _ s now]
    by (cases "credentials A e email pw db")
      (auto simp: b Login_refused handle_Login_def writeAuthResponse_def split: prod.splits sum.splits auth_error.splits)
  ultimately show ?thesis by (auto simp: b Login_refused handle_Login_def)
qed (simp add: handle_Login_def)

subsection \<open>A concrete library\<close>

text \<open>A token spells out, in unary, the number of its claims, key and issuer.\<close>

definition demo_claims :: "string \<Rightarrow> Claims \<Rightarrow> nat list" where
  "demo_claims secret c = [unat (cl_UserID c), unat (cl_PlayerID c), int_encode (unix_time (time_Unix (cl_ExpiresAt c))),
     list_encode (map of_char secret), list_encode (map of_char (cl_Issuer c))]"

definition demo_auth :: authlib where
  "demo_auth = \<lparr>al_toLower = map fold_ascii,
     al_parseAddress = (\<lambda>s. if CHR ''@'' \<in> set s then Some s else None),
     al_hash = (\<lambda>salt p. if 72 < length p then Inl ''password length exceeds 72 bytes'' else Inr (''$2a$'' @ p)),
     al_compare = (\<lambda>h p. h = ''$2a$'' @ p),
     al_sign = (\<lambda>secret c. Inr (CHR ''t'' # replicate (list_encode (demo_claims secret c)) CHR ''x'')),
     al_parse = (\<lambda>secret issuer now tok.
       case list_decode (length tok - 1) of
         [uid, pid, t, k, i] \<Rightarrow>
           if k = list_encode (map of_char secret) \<and> i = list_encode (map of_char issuer) \<and> now < int_decode t
           then Some \<lparr>cl_UserID = of_nat uid, cl_PlayerID = of_nat pid, cl_Issuer = issuer, cl_Subject = [],
             cl_IssuedAt = 0, cl_ExpiresAt = int_decode t\<rparr>
           else None
       | _ \<Rightarrow> None),
     al_uuidString = (\<lambda>u. [])\<rparr>"

lemma demo_jwt_doc: "jwt_doc demo_auth"
  unfolding jwt_doc_def
  by (auto simp: demo_auth_def demo_claims_def intro!: TrimSpace_none split: option.split)


definition demo_service :: AuthService where
  "demo_service = \<lparr>sv_secret = ''k'', sv_issuer = ''racer'', sv_ttl = 3600 * Second\<rparr>"

definition demo_ok :: "uuid \<Rightarrow> uuid \<Rightarrow> auth_env" where
  "demo_ok u p = \<lparr>ae_fault = (\<lambda>_. None), ae_landed = True, ae_user = u, ae_player = p, ae_now = 0\<rparr>"

definition demo_request :: RegisterRequest where
  "demo_request = \<lparr>rq_Email = ''Ann@x.y'', rq_Password = ''hunter22'', rq_DisplayName = ''Ann''\<rparr>"

lemma demo_trims: "TrimSpace ''Ann@x.y'' = ''Ann@x.y''" "TrimSpace ''ann@X.y'' = ''ann@X.y''" "TrimSpace ''Ann'' = ''Ann''"
  by (rule TrimSpace_none, simp)+

lemma demo_emails:
  "normalizeEmail demo_auth ''Ann@x.y'' = Inr ''ann@x.y''" "normalizeEmail demo_auth ''ann@X.y'' = Inr ''ann@x.y''"
  by (simp_all add: normalizeEmail_def demo_trims demo_auth_def fold_ascii_def Let_def char_of_eq_iff)

definition demo_accounts :: accounts where
  "demo_accounts = \<lparr>ac_users = [\<lparr>us_id = 7, us_email = Some ''ann@x.y'', us_hash = Some ''$2a$hunter22'', us_guest = False, us_last_login = None\<rparr>],
     ac_players = [\<lparr>pl_id = 8, pl_user = 7, pl_name = ''Ann'', pl_avatar = None, pl_created = 0\<rparr>]\<rparr>"

lemma demo_Register:
  assumes "sv_secret s \<noteq> []"
  shows "\<exists>tok. Register demo_auth s 0 (demo_ok 7 8) 0 demo_request \<lparr>ac_users = [], ac_players = []\<rparr> = (Inr (tok, 8), demo_accounts)"
proof -
  obtain tok where "IssueAccessToken demo_auth (sv_secret s) (sv_issuer s) (sv_ttl s) 0 7 8 = Inr tok"
    using Issue_ok [OF demo_jwt_doc assms] by blast
  moreover have "HashPassword demo_auth 0 ''hunter22'' = Inr ''$2a$hunter22''" by (simp add: HashPassword_def demo_auth_def)
  moreover have "CreateUserWithPlayer (demo_ok 7 8) ''ann@x.y'' ''$2a$hunter22'' ''Ann'' \<lparr>ac_users = [], ac_players = []\<rparr> =
      (Inr (7, 8), demo_accounts)"
    by (simp add: CreateUserWithPlayer_def demo_ok_def insert_user_def add_player_commit_def insert_player_def demo_accounts_def)
  ultimately show ?thesis
    by (simp add: Register_def demo_request_def demo_emails validatePassword_def validateDisplayName_def demo_trims Let_def)
qed

theorem account_roundtrip_witness:
  "\<exists>tok tok'. Register demo_auth demo_service 0 (demo_ok 7 8) 0 demo_request \<lparr>ac_users = [], ac_players = []\<rparr> =
      (Inr (tok, 8), demo_accounts) \<and>
    Middleware demo_auth ''k'' ''racer'' 0 (''Bearer '' @ tok) = Some 8 \<and>
    Middleware demo_auth ''k'' ''racer'' (unix_time (time_Unix (3600 * Second))) (''Bearer '' @ tok) = None \<and>
    Login demo_auth demo_service (demo_ok 0 0) 5 ''ann@X.y'' ''hunter22'' demo_accounts =
      (Inr (tok', 8), TouchLastLogin (demo_ok 0 0) 7 demo_accounts) \<and>
    Login demo_auth demo_service (demo_ok 0 0) 5 ''ann@X.y'' ''hunter23'' demo_accounts =
      (Inl ErrInvalidCredentials, demo_accounts)"
proof -
  obtain tok where reg: "Register demo_auth demo_service 0 (demo_ok 7 8) 0 demo_request \<lparr>ac_users = [], ac_players = []\<rparr> =
      (Inr (tok, 8), demo_accounts)"
    using demo_Register [of demo_service] by (auto simp: demo_service_def)
  have wf: "auth_wf \<lparr>ac_users = [], ac_players = []\<rparr>" by (simp add: auth_wf_def map_filter_simps)
  have bcrypt: "\<forall>salt p h. al_hash demo_auth salt p = Inr h \<longrightarrow> al_compare demo_auth h p" by (simp add: demo_auth_def)
  have e: "ae_user (demo_ok 7 8) \<noteq> 0" "ae_player (demo_ok 7 8) \<noteq> 0" "ae_fault (demo_ok 0 0) 4 = None" "ae_fault (demo_ok 0 0) 5 = None"
    "ae_user (demo_ok 7 8) = 7" "sv_secret demo_service \<noteq> []"
    "normalizeEmail demo_auth ''ann@X.y'' = normalizeEmail demo_auth (rq_Email demo_request)"
    by (simp_all add: demo_ok_def demo_service_def demo_request_def demo_emails)
  have p: "sv_secret demo_service = ''k''" "sv_issuer demo_service = ''racer''" "sv_ttl demo_service = 3600 * Second"
      "rq_Password demo_request = ''hunter22''"
    by (simp_all add: demo_service_def demo_request_def)
  have no: "\<forall>u \<in> set (ac_users demo_accounts). us_id u = 7 \<longrightarrow> \<not> al_compare demo_auth (the (us_hash u)) ''hunter23''"
    by (simp add: demo_accounts_def demo_auth_def)
  note r = account_roundtrip [OF wf demo_jwt_doc bcrypt reg e(1,2,7,3,4,6), of 5, unfolded p e(5)]
  have "(\<forall>t. Middleware demo_auth ''k'' ''racer'' t (''Bearer '' @ tok) = (if t < unix_time (time_Unix (0 + 3600 * Second)) then Some 8 else None)) \<and>
    (\<exists>tok'. Login demo_auth demo_service (demo_ok 0 0) 5 ''ann@X.y'' ''hunter22'' demo_accounts =
      (Inr (tok', 8), TouchLastLogin (demo_ok 0 0) 7 demo_accounts)) \<and>
    Login demo_auth demo_service (demo_ok 0 0) 5 ''ann@X.y'' ''hunter23'' demo_accounts = (Inl ErrInvalidCredentials, demo_accounts)"
    using r no by blast
  moreover have "0 < unix_time (time_Unix (3600 * Second))"
    by (simp add: unix_time_def time_Unix_def)
  ultimately show ?thesis using reg by auto
qed

theorem accounts_invariant_witness:
  "auth_wf (snd (handle_Register demo_auth demo_service 0 (demo_ok 7 8) 0 (Some demo_request) \<lparr>ac_users = [], ac_players = []\<rparr>))"
  using accounts_invariant [of "\<lparr>ac_users = [], ac_players = []\<rparr>" demo_auth demo_service 0 "demo_ok 7 8" 0 "Some demo_request"]
  by (simp add: auth_wf_def map_filter_simps)

text \<open>The right password is refused while the database does not answer.\<close>

theorem login_refusals_witness:
  "handle_Login demo_auth demo_service ((demo_ok 0 0)\<lparr>ae_fault := (\<lambda>i. if i = 4 then Some ''timeout'' else None)\<rparr>) 5
      (Some (''ann@X.y'', ''hunter22'')) demo_accounts =
    (HttpError 401 ''invalid credentials'', demo_accounts)"
proof (rule prod_eqI)
  let ?e = "(demo_ok 0 0)\<lparr>ae_fault := (\<lambda>i. if i = 4 then Some ''timeout'' else None)\<rparr>"
  note r = login_refusals [of demo_auth demo_service ?e 5 "Some (''ann@X.y'', ''hunter22'')" demo_accounts]
  show refused: "fst (handle_Login demo_auth demo_service ?e 5 (Some (''ann@X.y'', ''hunter22'')) demo_accounts) =
      fst (HttpError 401 ''invalid credentials'', demo_accounts)"
    using r by (simp add: demo_emails)
  show "snd (handle_Login demo_auth demo_service ?e 5 (Some (''ann@X.y'', ''hunter22'')) demo_accounts) =
      snd (HttpError 401 ''invalid credentials'', demo_accounts)"
    using r refused by simp
qed

end
