(* ===== verification/Catalog.thy ===== *)
theory Catalog
  imports Leaderboard Auth
begin

text \<open>
  The read-only resources of the REST API: \<open>internal/cars\<close>, \<open>internal/tracks\<close>, \<open>internal/garage\<close> and
  \<open>internal/player\<close>, each a query and its handlers. \<open>coll\<close> ranks names in the database's collation;
  \<open>uuid.Parse\<close> is a parameter; JSON columns are kept as text.
\<close>

subsection \<open>Cars and tracks\<close>

record Car =
  car_ID :: uuid
  car_Name :: string
  car_BaseStats :: string
  car_CreatedAt :: gotime

record CatTrack =
  ct_ID :: uuid
  ct_Name :: string
  ct_Layout :: string
  ct_CreatedAt :: gotime

definition cars_List :: "(string \<Rightarrow> int) \<Rightarrow> string option \<Rightarrow> Car list \<Rightarrow> db_error + Car list" where
  "cars_List coll fault cars =
     (case fault of
        Some err \<Rightarrow> Inl (DbFailure (''list cars: '' @ err))
      | None \<Rightarrow> Inr (sort_key (\<lambda>c. coll (car_Name c)) cars))"

definition cars_GetByID :: "string option \<Rightarrow> uuid \<Rightarrow> Car list \<Rightarrow> db_error + Car" where
  "cars_GetByID fault i cars =
     (case fault of
        Some err \<Rightarrow> Inl (DbFailure err)
      | None \<Rightarrow> (case List.find (\<lambda>c. car_ID c = i) cars of None \<Rightarrow> Inl ErrNoRows | Some c \<Rightarrow> Inr c))"

definition handle_cars_List :: "(string \<Rightarrow> int) \<Rightarrow> string option \<Rightarrow> Car list \<Rightarrow> Car list response" where
  "handle_cars_List coll fault cars =
     (case cars_List coll fault cars of Inl _ \<Rightarrow> HttpError 500 ''internal'' | Inr out \<Rightarrow> HttpJSON 200 out)"

definition handle_cars_Get :: "(string \<Rightarrow> uuid option) \<Rightarrow> string option \<Rightarrow> string \<Rightarrow> Car list \<Rightarrow> Car response" where
  "handle_cars_Get parse fault idParam cars =
     (case parse idParam of
        None \<Rightarrow> HttpError 400 ''bad uuid''
      | Some i \<Rightarrow>
          (case cars_GetByID fault i cars of
             Inl ErrNoRows \<Rightarrow> HttpError 404 ''not found''
           | Inl _ \<Rightarrow> HttpError 500 ''internal''
           | Inr c \<Rightarrow> HttpJSON 200 c))"

definition tracks_List :: "(string \<Rightarrow> int) \<Rightarrow> string option \<Rightarrow> CatTrack list \<Rightarrow> db_error + CatTrack list" where
  "tracks_List coll fault tracks =
     (case fault of
        Some err \<Rightarrow> Inl (DbFailure (''list tracks: '' @ err))
      | None \<Rightarrow> Inr (sort_key (\<lambda>t. coll (ct_Name t)) tracks))"

definition tracks_GetByID :: "string option \<Rightarrow> uuid \<Rightarrow> CatTrack list \<Rightarrow> db_error + CatTrack" where
  "tracks_GetByID fault i tracks =
     (case fault of
        Some err \<Rightarrow> Inl (DbFailure err)
      | None \<Rightarrow> (case List.find (\<lambda>t. ct_ID t = i) tracks of None \<Rightarrow> Inl ErrNoRows | Some t \<Rightarrow> Inr t))"

definition handle_tracks_List :: "(string \<Rightarrow> int) \<Rightarrow> string option \<Rightarrow> CatTrack list \<Rightarrow> CatTrack list response" where
  "handle_tracks_List coll fault tracks =
     (case tracks_List coll fault tracks of Inl _ \<Rightarrow> HttpError 500 ''internal'' | Inr out \<Rightarrow> HttpJSON 200 out)"

definition handle_tracks_Get ::
    "(string \<Rightarrow> uuid option) \<Rightarrow> string option \<Rightarrow> string \<Rightarrow> CatTrack list \<Rightarrow> CatTrack response" where
  "handle_tracks_Get parse fault idParam tracks =
     (case parse idParam of
        None \<Rightarrow> HttpError 400 ''bad uuid''
      | Some i \<Rightarrow>
          (case tracks_GetByID fault i tracks of
             Inl ErrNoRows \<Rightarrow> HttpError 404 ''not found''
           | Inl _ \<Rightarrow> HttpError 500 ''internal''
           | Inr t \<Rightarrow> HttpJSON 200 t))"

subsection \<open>The garage\<close>

record player_car =
  pc_id :: uuid
  pc_player :: uuid
  pc_car :: uuid
  pc_acquired :: gotime
  pc_customizations :: string

record GarageEntry =
  ge_PlayerCarID :: uuid
  ge_CarID :: uuid
  ge_Name :: string
  ge_AcquiredAt :: gotime
  ge_Customizations :: string

text \<open>The row of a \<open>player_cars\<close> entry joined with its car.\<close>

definition garage_row :: "Car list \<Rightarrow> uuid \<Rightarrow> player_car \<Rightarrow> GarageEntry option" where
  "garage_row cars playerID own =
     (if pc_player own = playerID then
        (case List.find (\<lambda>c. car_ID c = pc_car own) cars of
           None \<Rightarrow> None
         | Some c \<Rightarrow>
             Some \<lparr>ge_PlayerCarID = pc_id own, ge_CarID = pc_car own, ge_Name = car_Name c,
                   ge_AcquiredAt = pc_acquired own, ge_Customizations = pc_customizations own\<rparr>)
      else None)"

definition garage_ListByPlayer ::
    "string option \<Rightarrow> uuid \<Rightarrow> Car list \<Rightarrow> player_car list \<Rightarrow> db_error + GarageEntry list" where
  "garage_ListByPlayer fault playerID cars owned =
     (case fault of
        Some err \<Rightarrow> Inl (DbFailure (''list garage: '' @ err))
      | None \<Rightarrow> Inr (sort_key ge_AcquiredAt (List.map_filter (garage_row cars playerID) owned)))"

definition handle_garage_List ::
    "string option \<Rightarrow> uuid option \<Rightarrow> Car list \<Rightarrow> player_car list \<Rightarrow> GarageEntry list response" where
  "handle_garage_List fault ctx cars owned =
     (case PlayerIDFromContext ctx of
        None \<Rightarrow> HttpError 401 ''unauthorized''
      | Some playerID \<Rightarrow>
          (case garage_ListByPlayer fault playerID cars owned of
             Inl _ \<Rightarrow> HttpError 500 ''internal''
           | Inr out \<Rightarrow> HttpJSON 200 out))"

subsection \<open>The player's profile\<close>

record Profile =
  pf_PlayerID :: uuid
  pf_UserID :: uuid
  pf_DisplayName :: string
  pf_AvatarURL :: "string option"
  pf_IsGuest :: bool
  pf_CreatedAt :: gotime
  pf_LastLoginAt :: "gotime option"

definition player_GetByID :: "string option \<Rightarrow> uuid \<Rightarrow> accounts \<Rightarrow> auth_error + Profile" where
  "player_GetByID fault playerID db =
     (case fault of
        Some err \<Rightarrow> Inl (AuthFailure (''get player: '' @ err))
      | None \<Rightarrow>
     (case List.find (\<lambda>p. pl_id p = playerID) (ac_players db) of
        None \<Rightarrow> Inl ErrPlayerNotFound
      | Some p \<Rightarrow>
     (case List.find (\<lambda>u. us_id u = pl_user p) (ac_users db) of
        None \<Rightarrow> Inl ErrPlayerNotFound
      | Some u \<Rightarrow>
          Inr \<lparr>pf_PlayerID = pl_id p, pf_UserID = pl_user p, pf_DisplayName = pl_name p, pf_AvatarURL = pl_avatar p,
               pf_IsGuest = us_guest u, pf_CreatedAt = pl_created p, pf_LastLoginAt = us_last_login u\<rparr>)))"

definition handle_Me :: "string option \<Rightarrow> uuid option \<Rightarrow> accounts \<Rightarrow> Profile response" where
  "handle_Me fault ctx db =
     (case PlayerIDFromContext ctx of
        None \<Rightarrow> HttpError 401 ''unauthorized''
      | Some playerID \<Rightarrow>
          (case player_GetByID fault playerID db of
             Inl _ \<Rightarrow> HttpError 404 ''not found''
           | Inr profile \<Rightarrow> HttpJSON 200 profile))"

subsection \<open>A catalog: listing and lookup agree\<close>

text \<open>
  What the two catalogs promise of their queries: without a failure the list holds the rows, in order of
  name, and the lookup finds the row of an id.
\<close>

locale catalog =
  fixes ident :: "'r \<Rightarrow> uuid" and key :: "'r \<Rightarrow> int"
    and query_list :: "string option \<Rightarrow> 'r list \<Rightarrow> db_error + 'r list"
    and query_get :: "string option \<Rightarrow> uuid \<Rightarrow> 'r list \<Rightarrow> db_error + 'r"
  assumes list_ok: "query_list None rows = Inr (sort_key key rows)"
    and list_fault: "\<exists>msg. query_list (Some err) rows = Inl (DbFailure msg)"
    and get_ok: "query_get None i rows = (case List.find (\<lambda>r. ident r = i) rows of None \<Rightarrow> Inl ErrNoRows | Some r \<Rightarrow> Inr r)"
    and get_fault: "\<exists>msg. query_get (Some err) i rows = Inl (DbFailure msg)"
begin

lemma get_listed:
  assumes "distinct (map ident rows)" and "query_list None rows = Inr out"
  shows "query_get None i rows = Inr r \<longleftrightarrow> r \<in> set out \<and> ident r = i"
proof -
  have out: "set out = set rows" using assms(2) by (auto simp: list_ok)
  have "List.find (\<lambda>r. ident r = i) rows = Some r \<longleftrightarrow> r \<in> set rows \<and> ident r = i"
    using assms(1)
  proof (induction rows)
    case (Cons x xs)
    then show ?case by (cases "ident x = i") (auto simp: image_iff)
  qed simp
  then show ?thesis unfolding out get_ok by (auto split: option.split)
qed

lemma get_missing: "query_list None rows = Inr out \<Longrightarrow> query_get None i rows = Inl ErrNoRows \<longleftrightarrow> i \<notin> ident ` set out"
  by (auto simp: list_ok get_ok find_None_iff find_Some_iff split: option.split)

lemma listed_sorted: "query_list None rows = Inr out \<Longrightarrow> sorted (map key out) \<and> mset out = mset rows"
  by (auto simp: list_ok)

end

interpretation cars: catalog car_ID "\<lambda>c. coll (car_Name c)" "cars_List coll" cars_GetByID for coll
  by unfold_locales (simp_all add: cars_List_def cars_GetByID_def)

interpretation tracks: catalog ct_ID "\<lambda>t. coll (ct_Name t)" "tracks_List coll" tracks_GetByID for coll
  by unfold_locales (simp_all add: tracks_List_def tracks_GetByID_def)

text \<open>An item is served under an id exactly when it is listed with it.\<close>

lemma car_pages_agree:
  assumes "distinct (map car_ID cars)" and "handle_cars_List coll None cars = HttpJSON 200 out"
  shows "handle_cars_Get parse None s cars = HttpJSON 200 c \<longleftrightarrow> c \<in> set out \<and> parse s = Some (car_ID c)"
proof -
  have out: "cars_List coll None cars = Inr out" using assms(2) by (simp add: handle_cars_List_def split: sum.splits)
  have "handle_cars_Get parse None s cars = HttpJSON 200 c \<longleftrightarrow>
      (\<exists>i. parse s = Some i \<and> cars_GetByID None i cars = Inr c)"
    by (auto simp: handle_cars_Get_def split: option.splits sum.splits db_error.splits)
  then show ?thesis unfolding cars.get_listed [OF assms(1) out] by auto
qed

lemma track_pages_agree:
  assumes "distinct (map ct_ID tracks)" and "handle_tracks_List coll None tracks = HttpJSON 200 out"
  shows "handle_tracks_Get parse None s tracks = HttpJSON 200 t \<longleftrightarrow> t \<in> set out \<and> parse s = Some (ct_ID t)"
proof -
  have out: "tracks_List coll None tracks = Inr out" using assms(2) by (simp add: handle_tracks_List_def split: sum.splits)
  have "handle_tracks_Get parse None s tracks = HttpJSON 200 t \<longleftrightarrow>
      (\<exists>i. parse s = Some i \<and> tracks_GetByID None i tracks = Inr t)"
    by (auto simp: handle_tracks_Get_def split: option.splits sum.splits db_error.splits)
  then show ?thesis unfolding tracks.get_listed [OF assms(1) out] by auto
qed

text \<open>The profile of a player of the accounts.\<close>

lemma find_distinct: "distinct (map f xs) \<Longrightarrow> x \<in> set xs \<Longrightarrow> List.find (\<lambda>y. f y = f x) xs = Some x"
  by (induction xs) (auto simp: image_iff)

lemma profile_of:
  assumes "auth_wf db" and "p \<in> set (ac_players db)" and "u \<in> set (ac_users db)" and "pl_user p = us_id u"
  shows "player_GetByID None (pl_id p) db = Inr \<lparr>pf_PlayerID = pl_id p, pf_UserID = us_id u, pf_DisplayName = pl_name p,
    pf_AvatarURL = pl_avatar p, pf_IsGuest = us_guest u, pf_CreatedAt = pl_created p, pf_LastLoginAt = us_last_login u\<rparr>"
  using find_distinct [of pl_id "ac_players db" p] find_distinct [of us_id "ac_users db" u] assms
  by (simp add: player_GetByID_def auth_wf_def)

end
