(* ===== verification/GoDuration.thy ===== *)
theory GoDuration
  imports GoFloat GoString
begin

text \<open>
  \<open>time.ParseDuration\<close>, which the configuration reads its durations with: a sign and a sequence of decimal numbers with
  units, as nanoseconds in a signed 64-bit integer. Octets are characters; the two signs for micro are two octets each.
\<close>

text \<open>\<open>leadingInt\<close>: the digits at the head of the text, \<open>None\<close> when they exceed \<open>2 ^ 63\<close>; \<open>leadingFraction\<close>: as many
  digits after the point as fit, with the power of ten to divide by; it never fails.\<close>

fun leadingInt :: "int \<Rightarrow> string \<Rightarrow> (int \<times> string) option" where
  "leadingInt x [] = Some (x, [])"
| "leadingInt x (c # s) =
     (if \<not> is_digit c then Some (x, c # s)
      else if 2 ^ 63 div 10 < x then None
      else let x = 10 * x + (of_char c - 48) in if 2 ^ 63 < x then None else leadingInt x s)"

fun leadingFraction :: "int \<Rightarrow> int \<Rightarrow> bool \<Rightarrow> string \<Rightarrow> int \<times> int \<times> string" where
  "leadingFraction x scale overflow [] = (x, scale, [])"
| "leadingFraction x scale overflow (c # s) =
     (if \<not> is_digit c then (x, scale, c # s)
      else if overflow \<or> (2 ^ 63 - 1) div 10 < x then leadingFraction x scale True s
      else let y = 10 * x + (of_char c - 48)
        in if 2 ^ 63 < y then leadingFraction x scale True s else leadingFraction y (10 * scale) False s)"

definition unitMap :: "(string \<times> int) list" where
  "unitMap = [(''ns'', 1), (''us'', 1000), ([CHR 0xC2, CHR 0xB5, CHR ''s''], 1000), ([CHR 0xCE, CHR 0xBC, CHR ''s''], 1000),
     (''ms'', Millisecond), (''s'', Second), (''m'', 60 * Second), (''h'', 3600 * Second)]"

text \<open>The nanoseconds of a fraction \<open>f / scale\<close> of a unit, computed in \<open>float64\<close> and truncated.\<close>

definition fraction_ns :: "int \<Rightarrow> int \<Rightarrow> int \<Rightarrow> int" where
  "fraction_ns f scale unit =
     (case fmul rnd64 (rnd64 (of_int f)) (rnd64 (of_int unit / of_int scale)) of Fin q \<Rightarrow> \<lfloor>q\<rfloor> | _ \<Rightarrow> 0)"

text \<open>One number with its unit: its nanoseconds and the text left. The sum of the terms is an unsigned 64-bit integer.\<close>

definition duration_term :: "string \<Rightarrow> (int \<times> string) option" where
  "duration_term s =
     (if s = [] \<or> \<not> (hd s = CHR ''.'' \<or> is_digit (hd s)) then None
      else case leadingInt 0 s of
             None \<Rightarrow> None
           | Some (v, s1) \<Rightarrow>
               let pre = length s1 \<noteq> length s;
                   (f, scale, s2) = (if s1 \<noteq> [] \<and> hd s1 = CHR ''.'' then leadingFraction 0 1 False (tl s1) else (0, 1, s1));
                   post = (s1 \<noteq> [] \<and> hd s1 = CHR ''.'' \<and> length s2 \<noteq> length (tl s1));
                   u = takeWhile (\<lambda>c. \<not> (c = CHR ''.'' \<or> is_digit c)) s2
               in if \<not> pre \<and> \<not> post then None
                  else if u = [] then None
                  else case map_of unitMap u of
                         None \<Rightarrow> None
                       | Some unit \<Rightarrow>
                           if 2 ^ 63 div unit < v then None
                           else let ns = v * unit + (if 0 < f then fraction_ns f scale unit else 0)
                             in if 2 ^ 63 < ns then None else Some (ns, drop (length u) s2))"

lemma leadingInt_length: "leadingInt x s = Some (y, s') \<Longrightarrow> length s' \<le> length s"
  by (induction x s rule: leadingInt.induct) (auto simp: Let_def split: if_splits)

lemma leadingFraction_length: "leadingFraction x sc ov s = (y, sc', s') \<Longrightarrow> length s' \<le> length s"
  by (induction x sc ov s rule: leadingFraction.induct) (auto simp: Let_def split: if_splits)

lemma duration_term_length:
  assumes "duration_term s = Some (ns, s')"
  shows "length s' < length s"
proof -
  obtain v s1 where s1: "leadingInt 0 s = Some (v, s1)"
    using assms by (auto simp: duration_term_def split: option.splits if_splits)
  obtain f sc s2 where s2: "(if s1 \<noteq> [] \<and> hd s1 = CHR ''.'' then leadingFraction 0 1 False (tl s1) else (0, 1, s1)) = (f, sc, s2)"
    using prod_cases3 by blast
  let ?u = "takeWhile (\<lambda>c. \<not> (c = CHR ''.'' \<or> is_digit c)) s2"
  have "?u \<noteq> []" "s' = drop (length ?u) s2"
    using assms s1 s2 unfolding duration_term_def Let_def by (auto split: if_splits option.splits)
  moreover have "length s2 \<le> length s1"
    using s2 leadingFraction_length [of 0 1 False "tl s1"] by (fastforce split: if_splits)
  moreover have "length ?u \<le> length s2" by (rule length_takeWhile_le)
  ultimately show ?thesis using leadingInt_length [OF s1] by (cases ?u) auto
qed

function duration_sum :: "int \<Rightarrow> string \<Rightarrow> int option" where
  "duration_sum d s =
     (if s = [] then Some d
      else case duration_term s of
             None \<Rightarrow> None
           | Some (ns, s') \<Rightarrow> let d = (d + ns) mod 2 ^ 64 in if 2 ^ 63 < d then None else duration_sum d s')"
  by pat_completeness auto
termination
  by (relation "measure (\<lambda>(d, s). length s)") (auto dest: duration_term_length)

declare duration_sum.simps [simp del]

definition ParseDuration :: "string \<Rightarrow> duration option" where
  "ParseDuration s =
     (let neg = (s \<noteq> [] \<and> hd s = CHR ''-'');
          s = (if s \<noteq> [] \<and> (hd s = CHR ''-'' \<or> hd s = CHR ''+'') then tl s else s)
      in if s = ''0'' then Some 0
         else if s = [] then None
         else case duration_sum 0 s of
                None \<Rightarrow> None
              | Some d \<Rightarrow> if neg then Some (- d) else if 2 ^ 63 - 1 < d then None else Some d)"

text \<open>A whole number of a unit, as the configuration's examples write it.\<close>

lemma leadingInt_digits:
  assumes "list_all is_digit ds" and "rest = [] \<or> \<not> is_digit (hd rest)" and "0 \<le> x"
    and "foldl (\<lambda>n c. 10 * n + (of_char c - 48)) x ds \<le> 2 ^ 63"
  shows "leadingInt x (ds @ rest) = Some (foldl (\<lambda>n c. 10 * n + (of_char c - 48)) x ds, rest)"
  using assms(1,3,4)
proof (induction ds arbitrary: x)
  case Nil
  then show ?case using assms(2) by (cases rest) auto
next
  case (Cons c ds)
  let ?y = "10 * x + (of_char c - 48)"
  have c: "0 \<le> (of_char c - 48 :: int)" using Cons.prems(1) by (auto simp: is_digit_def) (metis of_nat_of_char of_nat_le_iff of_nat_numeral)
  have mono: "z \<le> foldl (\<lambda>n c. 10 * n + (of_char c - 48)) z ds" if "0 \<le> z" for z :: int
    using that Cons.prems(1)
  proof (induction ds arbitrary: z)
    case (Cons d ds)
    have "0 \<le> (of_char d - 48 :: int)" using Cons.prems(2) by (auto simp: is_digit_def) (metis of_nat_of_char of_nat_le_iff of_nat_numeral)
    then have "z \<le> 10 * z + (of_char d - 48)" "0 \<le> 10 * z + (of_char d - 48)" using Cons.prems(1) by simp_all
    then show ?case using Cons.IH [of "10 * z + (of_char d - 48)"] Cons.prems(2) by simp
  qed simp
  have "?y \<le> 2 ^ 63" using mono [of ?y] Cons.prems(2,3) c by simp
  then have "x \<le> 2 ^ 63 div 10" using c by simp
  then show ?case using Cons.IH [of ?y] Cons.prems c \<open>?y \<le> 2 ^ 63\<close> by (simp add: Let_def)
qed

lemma ParseDuration_whole:
  assumes "(u, unit) \<in> set unitMap" and "0 \<le> n" and "n * unit < 2 ^ 63"
  shows "ParseDuration (itoa n @ u) = Some (n * unit)"
proof -
  have u: "u \<noteq> []" "\<not> is_digit (hd u)" "hd u \<noteq> CHR ''.''" "takeWhile (\<lambda>c. \<not> (c = CHR ''.'' \<or> is_digit c)) u = u"
    "map_of unitMap u = Some unit" "1 \<le> unit"
    using assms(1) by (auto simp: unitMap_def is_digit_def)
  have i: "itoa n = itoa_nat (nat n)" using assms(2) by (simp add: itoa_def)
  have dig: "list_all is_digit (itoa_nat (nat n))" using itoa_nat_digits by (simp add: list_all_iff)
  have ne: "itoa_nat (nat n) \<noteq> []" by (rule itoa_nat_ne)
  then have hd: "is_digit (hd (itoa n @ u))" using dig by (cases "itoa_nat (nat n)") (simp_all add: i)
  have "n * 1 \<le> n * unit" using u(6) assms(2) by (intro mult_left_mono) simp_all
  then have n: "n \<le> 2 ^ 63" using assms(3) by simp
  have lead: "leadingInt 0 (itoa n @ u) = Some (n, u)"
    using leadingInt_digits [OF dig, of u 0] itoa_nat_value [of "nat n"] u(2) n assms(2) by (simp add: i)
  have le: "n \<le> 2 ^ 63 div unit" using zdiv_mono1 [of "n * unit" "2 ^ 63" unit] assms(3) u(6) by simp
  have tw: "takeWhile (\<lambda>c. c \<noteq> CHR ''.'' \<and> \<not> is_digit c) u = u" using u(4) by simp
  have "duration_term (itoa n @ u) = Some (n * unit, [])"
    using hd lead u(1-3,5) le ne assms(3) unfolding duration_term_def by (simp add: Let_def i tw)
  moreover have "0 \<le> n * unit" using assms(2) u(6) by simp
  ultimately have "duration_sum 0 (itoa n @ u) = Some (n * unit)"
    using assms(3) u(1) by (simp add: duration_sum.simps [of 0] duration_sum.simps [of _ "[]"])
  moreover have "hd (itoa n @ u) \<noteq> CHR ''-''" "hd (itoa n @ u) \<noteq> CHR ''+''" using hd by (auto simp: is_digit_def)
  moreover have "itoa n @ u \<noteq> ''0''"
  proof
    assume "itoa n @ u = ''0''"
    then show False using ne u(1) by (auto simp: i append_eq_Cons_conv)
  qed
  ultimately show ?thesis using assms(3) u(1) by (simp add: ParseDuration_def Let_def)
qed

end
