(* ===== verification/Config.thy ===== *)
theory Config
  imports GoDuration
begin

text \<open>
  \<open>internal/config/config.go\<close>: the configuration that the executables read from the environment.
  \<open>strings.ToLower\<close> is the parameter \<open>lower\<close>.
\<close>

subsection \<open>Reading variables\<close>

type_synonym env = "string \<Rightarrow> string option"

definition Getenv :: "env \<Rightarrow> string \<Rightarrow> string" where
  "Getenv env key = (case env key of None \<Rightarrow> [] | Some v \<Rightarrow> v)"

definition getEnv :: "env \<Rightarrow> string \<Rightarrow> string \<Rightarrow> string" where
  "getEnv env key fallback =
     (case env key of None \<Rightarrow> fallback | Some v \<Rightarrow> if v \<noteq> [] then v else fallback)"

definition getEnvInt :: "env \<Rightarrow> string \<Rightarrow> int \<Rightarrow> int" where
  "getEnvInt env key fallback =
     (case env key of
        None \<Rightarrow> fallback
      | Some v \<Rightarrow>
          if v = [] then fallback
          else case Atoi v of None \<Rightarrow> fallback | Some parsed \<Rightarrow> parsed)"

definition getEnvDuration :: "env \<Rightarrow> string \<Rightarrow> duration \<Rightarrow> duration" where
  "getEnvDuration env key fallback =
     (case env key of
        None \<Rightarrow> fallback
      | Some v \<Rightarrow>
          if v = [] then fallback
          else case ParseDuration v of None \<Rightarrow> fallback | Some d \<Rightarrow> d)"

datatype Level = LevelDebug | LevelInfo | LevelWarn | LevelError

definition parseLogLevel :: "(string \<Rightarrow> string) \<Rightarrow> string \<Rightarrow> Level option" where
  "parseLogLevel lower s =
     (let l = lower (TrimSpace s)
      in if l = ''debug'' then Some LevelDebug
         else if l = ''info'' \<or> l = [] then Some LevelInfo
         else if l = ''warn'' \<or> l = ''warning'' then Some LevelWarn
         else if l = ''error'' then Some LevelError
         else None)"

subsection \<open>The configuration\<close>

record Config =
  AppEnv :: string
  LogLevel :: Level
  APIPort :: int
  GameServerPort :: int
  PostgresHost :: string
  PostgresPort :: int
  PostgresDB :: string
  PostgresUser :: string
  PostgresPassword :: string
  PostgresSSLMode :: string
  JWTSecret :: string
  JWTIssuer :: string
  JWTAccessTTL :: duration
  GameServerPublicHost :: string
  GameServerPublicPort :: int
  GameTokenSecret :: string

datatype config_error =
    UnknownLogLevel string
  | PostgresPasswordRequired
  | JWTSecretRequired
  | GameTokenSecretRequired
  | APIPortOutOfRange int
  | GameServerPortOutOfRange int
  | GameServerPublicPortOutOfRange int
  | JWTAccessTTLNotPositive duration

definition read_config :: "env \<Rightarrow> Config" where
  "read_config env =
     \<lparr>AppEnv = getEnv env ''APP_ENV'' ''development'',
      LogLevel = LevelInfo,
      APIPort = getEnvInt env ''API_PORT'' 8080,
      GameServerPort = getEnvInt env ''GAME_SERVER_PORT'' 7000,
      PostgresHost = getEnv env ''POSTGRES_HOST'' ''postgres'',
      PostgresPort = getEnvInt env ''POSTGRES_PORT'' 5432,
      PostgresDB = getEnv env ''POSTGRES_DB'' ''racing_game'',
      PostgresUser = getEnv env ''POSTGRES_USER'' ''racing_user'',
      PostgresPassword = Getenv env ''POSTGRES_PASSWORD'',
      PostgresSSLMode = getEnv env ''POSTGRES_SSLMODE'' ''disable'',
      JWTSecret = Getenv env ''JWT_SECRET'',
      JWTIssuer = getEnv env ''JWT_ISSUER'' ''racing-game-backend'',
      JWTAccessTTL = getEnvDuration env ''JWT_ACCESS_TTL'' (3600 * Second),
      GameServerPublicHost = getEnv env ''GAME_SERVER_PUBLIC_HOST'' ''localhost'',
      GameServerPublicPort = getEnvInt env ''GAME_SERVER_PUBLIC_PORT'' 7000,
      GameTokenSecret = getEnv env ''GAME_TOKEN_SECRET'' ''dev_game_token_secret_change_me''\<rparr>"

definition port_range :: "int \<Rightarrow> bool" where
  "port_range p \<longleftrightarrow> \<not> (p \<le> 0 \<or> 65535 < p)"

definition check_secrets :: "Config \<Rightarrow> config_error option" where
  "check_secrets cfg =
     (if AppEnv cfg \<noteq> ''development'' then
        if PostgresPassword cfg = [] then Some PostgresPasswordRequired
        else if JWTSecret cfg = [] then Some JWTSecretRequired
        else if GameTokenSecret cfg = [] then Some GameTokenSecretRequired
        else None
      else None)"

definition dev_secrets :: "Config \<Rightarrow> Config" where
  "dev_secrets cfg =
     (let cfg = (if PostgresPassword cfg = [] \<and> AppEnv cfg = ''development''
                 then cfg\<lparr>PostgresPassword := ''dev_password''\<rparr> else cfg)
      in if JWTSecret cfg = [] \<and> AppEnv cfg = ''development''
         then cfg\<lparr>JWTSecret := ''dev_jwt_secret_change_me''\<rparr> else cfg)"

definition check_ranges :: "Config \<Rightarrow> config_error option" where
  "check_ranges cfg =
     (if \<not> port_range (APIPort cfg) then Some (APIPortOutOfRange (APIPort cfg))
      else if \<not> port_range (GameServerPort cfg) then Some (GameServerPortOutOfRange (GameServerPort cfg))
      else if \<not> port_range (GameServerPublicPort cfg) then Some (GameServerPublicPortOutOfRange (GameServerPublicPort cfg))
      else if JWTAccessTTL cfg \<le> 0 then Some (JWTAccessTTLNotPositive (JWTAccessTTL cfg))
      else None)"

definition Load :: "(string \<Rightarrow> string) \<Rightarrow> env \<Rightarrow> config_error + Config" where
  "Load lower env =
     (let cfg = read_config env; lvl = getEnv env ''LOG_LEVEL'' ''info''
      in case parseLogLevel lower lvl of
           None \<Rightarrow> Inl (UnknownLogLevel lvl)
         | Some l \<Rightarrow>
             (let cfg = cfg\<lparr>LogLevel := l\<rparr>
              in case check_secrets cfg of
                   Some err \<Rightarrow> Inl err
                 | None \<Rightarrow>
                     (let cfg = dev_secrets cfg
                      in case check_ranges cfg of Some err \<Rightarrow> Inl err | None \<Rightarrow> Inr cfg)))"

text \<open>\<open>None\<close> is \<open>os.Exit(1)\<close>.\<close>

definition MustLoad :: "(string \<Rightarrow> string) \<Rightarrow> env \<Rightarrow> Config option" where
  "MustLoad lower env =
     (case Load lower env of Inl _ \<Rightarrow> None | Inr cfg \<Rightarrow> Some cfg)"

definition DatabaseURL :: "Config \<Rightarrow> string" where
  "DatabaseURL c =
     ''postgres://'' @ PostgresUser c @ '':'' @ PostgresPassword c @ ''@'' @ PostgresHost c @ '':'' @
     itoa (PostgresPort c) @ ''/'' @ PostgresDB c @ ''?sslmode='' @ PostgresSSLMode c"

definition PostgresReadyTimeout :: duration where
  "PostgresReadyTimeout = 30 * Second"

subsection \<open>Lemmas\<close>

lemma getEnv_nonempty: "fallback \<noteq> [] \<Longrightarrow> getEnv env key fallback \<noteq> []"
  by (simp add: getEnv_def split: option.split)

lemma dev_secrets_simps [simp]:
  "APIPort (dev_secrets cfg) = APIPort cfg" "GameServerPort (dev_secrets cfg) = GameServerPort cfg"
  "GameServerPublicPort (dev_secrets cfg) = GameServerPublicPort cfg" "JWTAccessTTL (dev_secrets cfg) = JWTAccessTTL cfg"
  "GameTokenSecret (dev_secrets cfg) = GameTokenSecret cfg" "AppEnv (dev_secrets cfg) = AppEnv cfg"
  "PostgresPassword (dev_secrets cfg) =
     (if PostgresPassword cfg = [] \<and> AppEnv cfg = ''development'' then ''dev_password'' else PostgresPassword cfg)"
  "JWTSecret (dev_secrets cfg) =
     (if JWTSecret cfg = [] \<and> AppEnv cfg = ''development'' then ''dev_jwt_secret_change_me'' else JWTSecret cfg)"
  by (auto simp: dev_secrets_def Let_def)

lemma check_ranges_dev [simp]: "check_ranges (dev_secrets cfg) = check_ranges cfg"
  by (simp add: check_ranges_def)

lemma check_ranges_LogLevel [simp]: "check_ranges (cfg\<lparr>LogLevel := l\<rparr>) = check_ranges cfg"
  by (simp add: check_ranges_def)

lemma check_secrets_LogLevel [simp]: "check_secrets (cfg\<lparr>LogLevel := l\<rparr>) = check_secrets cfg"
  by (simp add: check_secrets_def)

lemma GameTokenSecret_read: "GameTokenSecret (read_config env) \<noteq> []"
  by (simp add: read_config_def getEnv_nonempty)

lemma check_ranges_None: "check_ranges cfg = None \<longleftrightarrow>
  1 \<le> APIPort cfg \<and> APIPort cfg \<le> 65535 \<and> 1 \<le> GameServerPort cfg \<and> GameServerPort cfg \<le> 65535 \<and>
  1 \<le> GameServerPublicPort cfg \<and> GameServerPublicPort cfg \<le> 65535 \<and> 0 < JWTAccessTTL cfg"
  by (auto simp: check_ranges_def port_range_def)

lemma check_secrets_None: "check_secrets (read_config env) = None \<longleftrightarrow>
  getEnv env ''APP_ENV'' ''development'' = ''development'' \<or>
  Getenv env ''POSTGRES_PASSWORD'' \<noteq> [] \<and> Getenv env ''JWT_SECRET'' \<noteq> []"
  using GameTokenSecret_read [of env] by (simp add: check_secrets_def) (auto simp: read_config_def)

lemma Load_Inr: "Load lower env = Inr cfg \<longleftrightarrow>
  (\<exists>l. parseLogLevel lower (getEnv env ''LOG_LEVEL'' ''info'') = Some l \<and>
     check_secrets (read_config env) = None \<and> check_ranges (read_config env) = None \<and>
     cfg = dev_secrets ((read_config env)\<lparr>LogLevel := l\<rparr>))"
  by (auto simp: Load_def Let_def split: option.split)

lemma Load_token_secret:
  "Load lower env = Inr cfg \<Longrightarrow> GameTokenSecret cfg = getEnv env ''GAME_TOKEN_SECRET'' ''dev_game_token_secret_change_me''"
  by (auto simp: Load_Inr dev_secrets_def Let_def read_config_def)

subsection \<open>Properties\<close>

text \<open>C28. A configuration is loaded exactly when the log level is known, outside development both \<open>POSTGRES_PASSWORD\<close> and
  \<open>JWT_SECRET\<close> are set, the ports are ports and the token lifetime is positive; then no secret is empty, and outside
  development the first two are those of the environment. A lifetime written as a whole number of a unit is that one. The check of the game token secret never fires: left
  unset it is the development default in every environment.\<close>

theorem Load_outcomes:
  "((\<exists>cfg. Load lower env = Inr cfg) \<longleftrightarrow>
      parseLogLevel lower (getEnv env ''LOG_LEVEL'' ''info'') \<noteq> None \<and>
      (getEnv env ''APP_ENV'' ''development'' = ''development'' \<or>
       Getenv env ''POSTGRES_PASSWORD'' \<noteq> [] \<and> Getenv env ''JWT_SECRET'' \<noteq> []) \<and>
      getEnvInt env ''API_PORT'' 8080 \<in> {1..65535} \<and> getEnvInt env ''GAME_SERVER_PORT'' 7000 \<in> {1..65535} \<and>
      getEnvInt env ''GAME_SERVER_PUBLIC_PORT'' 7000 \<in> {1..65535} \<and>
      0 < getEnvDuration env ''JWT_ACCESS_TTL'' (3600 * Second)) \<and>
   (\<forall>cfg. Load lower env = Inr cfg \<longrightarrow>
      PostgresPassword cfg \<noteq> [] \<and> JWTSecret cfg \<noteq> [] \<and> GameTokenSecret cfg \<noteq> [] \<and>
      (AppEnv cfg \<noteq> ''development'' \<longrightarrow>
         env ''POSTGRES_PASSWORD'' = Some (PostgresPassword cfg) \<and> env ''JWT_SECRET'' = Some (JWTSecret cfg)) \<and>
      (env ''GAME_TOKEN_SECRET'' = None \<longrightarrow> GameTokenSecret cfg = ''dev_game_token_secret_change_me'') \<and>
      (\<forall>u unit n. (u, unit) \<in> set unitMap \<and> 0 \<le> n \<and> n * unit < 2 ^ 63 \<and> env ''JWT_ACCESS_TTL'' = Some (itoa n @ u) \<longrightarrow>
         JWTAccessTTL cfg = n * unit)) \<and>
   Load lower env \<noteq> Inl GameTokenSecretRequired"
proof (intro conjI allI impI)
  let ?c = "read_config env"
  show "(\<exists>cfg. Load lower env = Inr cfg) \<longleftrightarrow>
      parseLogLevel lower (getEnv env ''LOG_LEVEL'' ''info'') \<noteq> None \<and>
      (getEnv env ''APP_ENV'' ''development'' = ''development'' \<or>
       Getenv env ''POSTGRES_PASSWORD'' \<noteq> [] \<and> Getenv env ''JWT_SECRET'' \<noteq> []) \<and>
      getEnvInt env ''API_PORT'' 8080 \<in> {1..65535} \<and> getEnvInt env ''GAME_SERVER_PORT'' 7000 \<in> {1..65535} \<and>
      getEnvInt env ''GAME_SERVER_PUBLIC_PORT'' 7000 \<in> {1..65535} \<and>
      0 < getEnvDuration env ''JWT_ACCESS_TTL'' (3600 * Second)"
    unfolding Load_Inr check_secrets_None check_ranges_None by (auto simp: read_config_def)
  show "Load lower env \<noteq> Inl GameTokenSecretRequired"
    using GameTokenSecret_read [of env]
    by (auto simp: Load_def Let_def check_secrets_def check_ranges_def split: option.split)
  fix cfg assume "Load lower env = Inr cfg"
  then obtain l where sec: "check_secrets ?c = None" and cfg: "cfg = dev_secrets (?c\<lparr>LogLevel := l\<rparr>)"
    unfolding Load_Inr by blast
  show "PostgresPassword cfg \<noteq> []" "JWTSecret cfg \<noteq> []"
    using sec by (auto simp: cfg check_secrets_def split: if_splits)
  show "GameTokenSecret cfg \<noteq> []" by (simp add: cfg GameTokenSecret_read)
  show "GameTokenSecret cfg = ''dev_game_token_secret_change_me''" if "env ''GAME_TOKEN_SECRET'' = None"
    using that by (simp add: cfg read_config_def getEnv_def)
  show "JWTAccessTTL cfg = n * unit" if "(u, unit) \<in> set unitMap \<and> 0 \<le> n \<and> n * unit < 2 ^ 63 \<and> env ''JWT_ACCESS_TTL'' = Some (itoa n @ u)"
    for u unit n
  proof -
    have "u \<noteq> []" using that by (auto simp: unitMap_def)
    then show ?thesis using that ParseDuration_whole [of u unit n] by (simp add: cfg read_config_def getEnvDuration_def)
  qed
  assume "AppEnv cfg \<noteq> ''development''"
  then show "env ''POSTGRES_PASSWORD'' = Some (PostgresPassword cfg)" "env ''JWT_SECRET'' = Some (JWTSecret cfg)"
    using sec by (auto simp: cfg check_secrets_None) (auto simp: read_config_def Getenv_def split: option.splits)
qed

theorem Load_outcomes_witness:
  "\<not> (\<exists>cfg. Load id [''APP_ENV'' \<mapsto> ''production'', ''JWT_SECRET'' \<mapsto> ''k''] = Inr cfg)"
  using Load_outcomes [of id "[''APP_ENV'' \<mapsto> ''production'', ''JWT_SECRET'' \<mapsto> ''k'']"]
  by (auto simp: getEnv_def Getenv_def)

text \<open>The parts of the database URL are not escaped: two configurations with different passwords and hosts share one URL.\<close>

lemma DatabaseURL_ambiguous:
  "DatabaseURL (cfg\<lparr>PostgresPassword := ''a'', PostgresHost := ''b@c''\<rparr>) =
   DatabaseURL (cfg\<lparr>PostgresPassword := ''a@b'', PostgresHost := ''c''\<rparr>)"
  by (simp add: DatabaseURL_def)

end
