(* ===== verification/Router.thy ===== *)
theory Router
  imports Catalog RaceHistory Matchmaking Config
begin

text \<open>
  The REST server: \<open>internal/api/router.go\<close>, \<open>internal/api/handlers\<close>, \<open>internal/api/middleware\<close> and the wiring in
  \<open>cmd/api/main.go\<close>. A request carries the segments of its path, cleaned and unescaped; the JSON
  bodies are what the decoder makes of them. \<open>http.ServeMux\<close> is modelled for patterns with a method,
  literal segments and \<open>{id}\<close>.
\<close>

subsection \<open>The dependencies\<close>

record RouterDeps =
  de_DB :: bool
  de_AuthService :: "AuthService option"
  de_Matchmaking :: "MatchService option"
  de_JWTSecret :: string
  de_JWTIssuer :: string

text \<open>The wiring of \<open>main\<close>; \<open>dbUp\<close> says whether \<open>database.New\<close> succeeds at startup.\<close>

definition api_deps :: "Config \<Rightarrow> bool \<Rightarrow> RouterDeps" where
  "api_deps cfg dbUp =
     \<lparr>de_DB = dbUp,
      de_AuthService = (if dbUp
        then Some \<lparr>sv_secret = JWTSecret cfg, sv_issuer = JWTIssuer cfg, sv_ttl = JWTAccessTTL cfg\<rparr> else None),
      de_Matchmaking = (if dbUp
        then Some \<lparr>ms_gameHost = GameServerPublicHost cfg, ms_gamePort = GameServerPublicPort cfg,
                   ms_tokenSecret = GameTokenSecret cfg\<rparr> else None),
      de_JWTSecret = JWTSecret cfg, de_JWTIssuer = JWTIssuer cfg\<rparr>"

subsection \<open>Health and placeholders\<close>

record HealthResponse =
  he_Status :: string
  he_Service :: string
  he_Database :: string

text \<open>\<open>healthy\<close> is whether \<open>HealthCheck\<close> succeeds within its two seconds.\<close>

definition Health :: "RouterDeps \<Rightarrow> bool \<Rightarrow> HealthResponse response" where
  "Health deps healthy =
     HttpJSON 200 \<lparr>he_Status = ''ok'', he_Service = ''backend-api'',
       he_Database = (if de_DB deps then if healthy then ''ok'' else ''down'' else ''skipped'')\<rparr>"

record NotImplementedJSON =
  ni_Error :: string
  ni_Path :: string

definition Stub :: "string \<Rightarrow> NotImplementedJSON response" where
  "Stub path = HttpJSON 501 \<lparr>ni_Error = ''not implemented'', ni_Path = path\<rparr>"

subsection \<open>Patterns\<close>

datatype seg = Lit string | Wild

datatype endpoint =
    EHealth | ERegister | ELogin | EGuest | EMe | ECars | ECar | EGarage | ETracks | ETrack
  | EJoin | EPlayerRaces | ELeaderboard | ERace | EStub string

record route =
  rt_method :: string
  rt_path :: "seg list"
  rt_guarded :: bool
  rt_endpoint :: endpoint

fun split_path :: "string \<Rightarrow> string \<Rightarrow> string list" where
  "split_path acc [] = [rev acc]"
| "split_path acc (c # cs) = (if c = CHR ''/'' then rev acc # split_path [] cs else split_path (c # acc) cs)"

definition pattern :: "string \<Rightarrow> seg list" where
  "pattern p = map (\<lambda>s. if s = ''{id}'' then Wild else Lit s) (tl (split_path [] p))"

text \<open>\<open>mux.HandleFunc\<close> with a plain handler, and \<open>mux.Handle\<close> with one behind the middleware.\<close>

definition public :: "string \<Rightarrow> string \<Rightarrow> endpoint \<Rightarrow> route" where
  "public m p e = \<lparr>rt_method = m, rt_path = pattern p, rt_guarded = False, rt_endpoint = e\<rparr>"

definition guarded :: "string \<Rightarrow> string \<Rightarrow> endpoint \<Rightarrow> route" where
  "guarded m p e = \<lparr>rt_method = m, rt_path = pattern p, rt_guarded = True, rt_endpoint = e\<rparr>"

definition stub_route :: "string \<Rightarrow> string \<Rightarrow> route" where
  "stub_route m p = public m p (EStub p)"

text \<open>
  \<open>covers p q\<close>: every path of the pattern \<open>q\<close> is one of \<open>p\<close>. Two patterns conflict if they have a
  path in common and neither covers the other alone.
\<close>

fun covers :: "seg list \<Rightarrow> seg list \<Rightarrow> bool" where
  "covers [] [] = True"
| "covers (Wild # p) (_ # q) = covers p q"
| "covers (Lit a # p) (Lit b # q) = (a = b \<and> covers p q)"
| "covers _ _ = False"

fun meets :: "seg list \<Rightarrow> seg list \<Rightarrow> bool" where
  "meets [] [] = True"
| "meets (Lit a # p) (Lit b # q) = (a = b \<and> meets p q)"
| "meets (_ # p) (_ # q) = meets p q"
| "meets _ _ = False"

definition conflict :: "route \<Rightarrow> route \<Rightarrow> bool" where
  "conflict r r' \<longleftrightarrow> rt_method r = rt_method r' \<and> meets (rt_path r) (rt_path r') \<and>
     covers (rt_path r) (rt_path r') = covers (rt_path r') (rt_path r)"

text \<open>Registration panics on a conflict.\<close>

fun mux_register :: "route list \<Rightarrow> route list \<Rightarrow> route list option" where
  "mux_register regs [] = Some regs"
| "mux_register regs (r # rs) =
     (if list_ex (conflict r) regs then None else mux_register (regs @ [r]) rs)"

subsection \<open>The router\<close>

text \<open>What \<open>NewRouter\<close> registers, in its order, by which of its dependencies are there.\<close>

definition route_table :: "bool \<Rightarrow> bool \<Rightarrow> bool \<Rightarrow> bool \<Rightarrow> route list" where
  "route_table hasDB hasAuth hasMatch hasSecret =
     (let real = hasDB \<and> hasSecret
      in [public ''GET'' ''/api/v1/health'' EHealth] @
      (if hasAuth then
         [public ''POST'' ''/api/v1/auth/register'' ERegister,
          public ''POST'' ''/api/v1/auth/login'' ELogin,
          public ''POST'' ''/api/v1/auth/guest'' EGuest]
       else
         [stub_route ''POST'' ''/api/v1/auth/register'',
          stub_route ''POST'' ''/api/v1/auth/login'',
          stub_route ''POST'' ''/api/v1/auth/guest'']) @
      (if real then
         [guarded ''GET'' ''/api/v1/players/me'' EMe,
          guarded ''GET'' ''/api/v1/cars'' ECars,
          guarded ''GET'' ''/api/v1/cars/{id}'' ECar,
          guarded ''GET'' ''/api/v1/garage'' EGarage,
          guarded ''GET'' ''/api/v1/tracks'' ETracks,
          guarded ''GET'' ''/api/v1/tracks/{id}'' ETrack]
       else []) @
      (if hasMatch \<and> hasSecret then
         [guarded ''POST'' ''/api/v1/matchmaking/join'' EJoin]
       else []) @
      (if real then
         [guarded ''GET'' ''/api/v1/players/me/races'' EPlayerRaces,
          guarded ''GET'' ''/api/v1/leaderboard'' ELeaderboard,
          guarded ''GET'' ''/api/v1/races/{id}'' ERace]
       else []) @
      concat (map (\<lambda>p. [stub_route ''GET'' p, stub_route ''POST'' p]) [''/api/v1/players'', ''/api/v1/races'']) @
      [stub_route ''GET'' ''/api/v1/matchmaking'', stub_route ''POST'' ''/api/v1/matchmaking''] @
      (if \<not> hasMatch then
         [stub_route ''GET'' ''/api/v1/matchmaking/join'', stub_route ''POST'' ''/api/v1/matchmaking/join'']
       else []) @
      (if \<not> hasDB \<or> \<not> hasSecret then
         map (stub_route ''GET'') [''/api/v1/players/me/races'', ''/api/v1/leaderboard'']
       else []))"

definition NewRouter :: "RouterDeps \<Rightarrow> route list option" where
  "NewRouter deps = mux_register []
     (route_table (de_DB deps) (de_AuthService deps \<noteq> None) (de_Matchmaking deps \<noteq> None) (de_JWTSecret deps \<noteq> []))"

text \<open>\<open>Some id\<close> if the path has the pattern; \<open>id\<close> is \<open>PathValue("id")\<close>. A wildcard takes no empty segment.\<close>

fun match_path :: "seg list \<Rightarrow> string list \<Rightarrow> string \<Rightarrow> string option" where
  "match_path [] [] i = Some i"
| "match_path (Lit a # p) (s # ss) i = (if a = s then match_path p ss i else None)"
| "match_path (Wild # p) (s # ss) i = (if s \<noteq> [] then match_path p ss s else None)"
| "match_path _ _ i = None"

definition serves :: "string \<Rightarrow> string list \<Rightarrow> route \<Rightarrow> bool" where
  "serves m path r \<longleftrightarrow>
     (rt_method r = m \<or> rt_method r = ''GET'' \<and> m = ''HEAD'') \<and> match_path (rt_path r) path [] \<noteq> None"

text \<open>The most specific of the patterns that a request has.\<close>

definition mux_find :: "route list \<Rightarrow> string \<Rightarrow> string list \<Rightarrow> route option" where
  "mux_find routes m path =
     List.find (\<lambda>r. serves m path r \<and> list_all (\<lambda>r'. serves m path r' \<longrightarrow> covers (rt_path r') (rt_path r)) routes) routes"

subsection \<open>Serving a request\<close>

record http_req =
  hr_method :: string
  hr_path :: "string list"
  hr_Authorization :: string
  hr_query :: "string \<Rightarrow> string"
  hr_register :: "RegisterRequest option"
  hr_login :: "(string \<times> string) option"

record apilib =
  al_auth :: authlib
  al_token :: tokenlib
  al_uuidParse :: "string \<Rightarrow> uuid option"
  al_parseNano :: "string \<Rightarrow> gotime option"
  al_parsePlain :: "string \<Rightarrow> gotime option"
  al_coll :: "string \<Rightarrow> int"

text \<open>What a request meets: the clock, random draws, and the failures and row orders of its queries.\<close>

record call_env =
  ce_now :: gotime
  ce_auth :: auth_env
  ce_salt :: nat
  ce_random :: "bytes option"
  ce_healthy :: bool
  ce_fault :: "string option"
  ce_fault2 :: "string option"
  ce_order :: "uuid list"
  ce_match_fault :: fault
  ce_match_id :: uuid

record api_state =
  st_accounts :: accounts
  st_assignments :: "Assignment list"
  st_cars :: "Car list"
  st_tracks :: "CatTrack list"
  st_owned :: "player_car list"
  st_tables :: tables

text \<open>The race tables, with the players and tracks that their queries join.\<close>

definition joined_tables :: "api_state \<Rightarrow> tables" where
  "joined_tables st =
     (st_tables st)\<lparr>t_players := map (\<lambda>p. (pl_id p, pl_name p)) (ac_players (st_accounts st)),
                    t_tracks := map (\<lambda>t. (ct_ID t, ct_Name t)) (st_tracks st)\<rparr>"

datatype api_body =
    BHealth HealthResponse
  | BStub NotImplementedJSON
  | BAuth AuthResponse
  | BProfile Profile
  | BCars "Car list"
  | BCar Car
  | BGarage "GarageEntry list"
  | BTracks "CatTrack list"
  | BTrack CatTrack
  | BMatch MatchInfo
  | BHistory PlayerHistoryPage
  | BBoard LbResponse
  | BRace RaceDetail

fun map_response :: "('a \<Rightarrow> 'b) \<Rightarrow> 'a response \<Rightarrow> 'b response" where
  "map_response f (HttpError n msg) = HttpError n msg"
| "map_response f (HttpJSON n v) = HttpJSON n (f v)"

text \<open>A route's handler; \<open>ctx\<close> is the player the middleware attached, \<open>i\<close> the path's \<open>{id}\<close>.\<close>

fun endpoint_call ::
    "apilib \<Rightarrow> RouterDeps \<Rightarrow> call_env \<Rightarrow> http_req \<Rightarrow> uuid option \<Rightarrow> string \<Rightarrow> endpoint \<Rightarrow> api_state \<Rightarrow>
     api_body response \<times> api_state" where
  "endpoint_call L deps ce req ctx i EHealth st = (map_response BHealth (Health deps (ce_healthy ce)), st)"
| "endpoint_call L deps ce req ctx i ERegister st =
     (let (r, db) = handle_Register (al_auth L) (the (de_AuthService deps)) (ce_salt ce) (ce_auth ce) (ce_now ce)
                      (hr_register req) (st_accounts st)
      in (map_response BAuth r, st\<lparr>st_accounts := db\<rparr>))"
| "endpoint_call L deps ce req ctx i ELogin st =
     (let (r, db) = handle_Login (al_auth L) (the (de_AuthService deps)) (ce_auth ce) (ce_now ce)
                      (hr_login req) (st_accounts st)
      in (map_response BAuth r, st\<lparr>st_accounts := db\<rparr>))"
| "endpoint_call L deps ce req ctx i EGuest st =
     (let (r, db) = handle_Guest (al_auth L) (the (de_AuthService deps)) (ce_random ce) (ce_auth ce) (ce_now ce)
                      (st_accounts st)
      in (map_response BAuth r, st\<lparr>st_accounts := db\<rparr>))"
| "endpoint_call L deps ce req ctx i EMe st = (map_response BProfile (handle_Me (ce_fault ce) ctx (st_accounts st)), st)"
| "endpoint_call L deps ce req ctx i ECars st =
     (map_response BCars (handle_cars_List (al_coll L) (ce_fault ce) (st_cars st)), st)"
| "endpoint_call L deps ce req ctx i ECar st =
     (map_response BCar (handle_cars_Get (al_uuidParse L) (ce_fault ce) i (st_cars st)), st)"
| "endpoint_call L deps ce req ctx i EGarage st =
     (map_response BGarage (handle_garage_List (ce_fault ce) ctx (st_cars st) (st_owned st)), st)"
| "endpoint_call L deps ce req ctx i ETracks st =
     (map_response BTracks (handle_tracks_List (al_coll L) (ce_fault ce) (st_tracks st)), st)"
| "endpoint_call L deps ce req ctx i ETrack st =
     (map_response BTrack (handle_tracks_Get (al_uuidParse L) (ce_fault ce) i (st_tracks st)), st)"
| "endpoint_call L deps ce req ctx i EJoin st =
     (let (r, db) = handle_Join (al_token L) (the (de_Matchmaking deps)) (ce_match_fault ce) (ce_order ce) (ce_match_id ce)
                      (ce_now ce) ctx (st_assignments st)
      in (map_response BMatch r, st\<lparr>st_assignments := db\<rparr>))"
| "endpoint_call L deps ce req ctx i EPlayerRaces st =
     (map_response BHistory (handle_PlayerRaces (al_parseNano L) (al_parsePlain L) (ce_fault ce) (ce_order ce) ctx
        (hr_query req ''limit'') (hr_query req ''cursor'') (joined_tables st)), st)"
| "endpoint_call L deps ce req ctx i ELeaderboard st =
     (map_response BBoard (handle_Top (al_uuidParse L) (ce_fault ce) (ce_fault2 ce) (ce_order ce) ctx
        (hr_query req ''trackId'') (hr_query req ''limit'') (joined_tables st)), st)"
| "endpoint_call L deps ce req ctx i ERace st =
     (map_response BRace (handle_Race (al_uuidParse L) (ce_fault ce) (ce_fault2 ce) (ce_order ce) ctx i (joined_tables st)), st)"
| "endpoint_call L deps ce req ctx i (EStub p) st = (map_response BStub (Stub p), st)"

text \<open>A route behind the middleware answers 401 before its handler is reached.\<close>

definition route_call ::
    "apilib \<Rightarrow> RouterDeps \<Rightarrow> call_env \<Rightarrow> http_req \<Rightarrow> string \<Rightarrow> route \<Rightarrow> api_state \<Rightarrow> api_body response \<times> api_state" where
  "route_call L deps ce req i r st =
     (if rt_guarded r then
        (case Middleware (al_auth L) (de_JWTSecret deps) (de_JWTIssuer deps) (ce_now ce) (hr_Authorization req) of
           None \<Rightarrow> (HttpError 401 ''unauthorized'', st)
         | Some pid \<Rightarrow> endpoint_call L deps ce req (Some pid) i (rt_endpoint r) st)
      else endpoint_call L deps ce req None i (rt_endpoint r) st)"

definition mux_serve ::
    "route list \<Rightarrow> apilib \<Rightarrow> RouterDeps \<Rightarrow> call_env \<Rightarrow> http_req \<Rightarrow> api_state \<Rightarrow> api_body response \<times> api_state" where
  "mux_serve routes L deps ce req st =
     (case mux_find routes (hr_method req) (hr_path req) of
        Some r \<Rightarrow> route_call L deps ce req (the (match_path (rt_path r) (hr_path req) [])) r st
      | None \<Rightarrow>
          if list_ex (\<lambda>r. match_path (rt_path r) (hr_path req) [] \<noteq> None) routes
          then (HttpError 405 ''Method Not Allowed'', st)
          else (HttpError 404 ''404 page not found'', st))"

subsection \<open>Logging\<close>

text \<open>
  What a handler does to its \<open>ResponseWriter\<close>. \<open>sr_sent\<close> is the status that \<open>net/http\<close> sends: that of the
  first \<open>WriteHeader\<close>, or 200 with the first \<open>Write\<close>.
\<close>

datatype writer_call = CWriteHeader nat | CWrite nat

record statusRecorder =
  sr_status :: nat
  sr_bytes :: nat
  sr_sent :: "nat option"

fun recorder_call :: "writer_call \<Rightarrow> statusRecorder \<Rightarrow> statusRecorder" where
  "recorder_call (CWriteHeader code) s =
     s\<lparr>sr_status := code, sr_sent := (case sr_sent s of None \<Rightarrow> Some code | Some c \<Rightarrow> Some c)\<rparr>"
| "recorder_call (CWrite n) s =
     (let s = (if sr_status s = 0 then s\<lparr>sr_status := 200\<rparr> else s)
      in s\<lparr>sr_bytes := sr_bytes s + n, sr_sent := (case sr_sent s of None \<Rightarrow> Some 200 | Some c \<Rightarrow> Some c)\<rparr>)"

text \<open>The handlers that call \<open>WriteHeader\<close> before they encode.\<close>

fun explicit_status :: "api_body \<Rightarrow> bool" where
  "explicit_status (BHealth _) = True"
| "explicit_status (BStub _) = True"
| "explicit_status (BAuth _) = True"
| "explicit_status _ = False"

definition reply_calls :: "nat \<Rightarrow> api_body response \<Rightarrow> writer_call list" where
  "reply_calls bodyLen r =
     (case r of
        HttpError n _ \<Rightarrow> [CWriteHeader n, CWrite bodyLen]
      | HttpJSON n b \<Rightarrow> if explicit_status b then [CWriteHeader n, CWrite bodyLen] else [CWrite bodyLen])"

definition recorded :: "nat \<Rightarrow> api_body response \<Rightarrow> statusRecorder" where
  "recorded bodyLen r = fold recorder_call (reply_calls bodyLen r) \<lparr>sr_status = 200, sr_bytes = 0, sr_sent = None\<rparr>"

record log_entry =
  le_method :: string
  le_path :: "string list"
  le_status :: nat
  le_bytes :: nat

type_synonym handler =
  "http_req \<Rightarrow> api_state \<times> log_entry list \<Rightarrow> api_body response \<times> api_state \<times> log_entry list"

text \<open>\<open>bodyLen\<close> is the length of the reply's body.\<close>

definition RequestLogger :: "(api_body response \<Rightarrow> nat) \<Rightarrow> handler \<Rightarrow> handler" where
  "RequestLogger bodyLen next req s =
     (let (r, st, logs) = next req s; w = recorded (bodyLen r) r
      in (r, st, logs @ [\<lparr>le_method = hr_method req, le_path = hr_path req, le_status = sr_status w, le_bytes = sr_bytes w\<rparr>]))"

definition Chain :: "handler \<Rightarrow> (handler \<Rightarrow> handler) list \<Rightarrow> handler" where
  "Chain h mws = foldr (\<lambda>mw h. mw h) mws h"

subsection \<open>The server\<close>

definition mux_handler :: "route list \<Rightarrow> apilib \<Rightarrow> RouterDeps \<Rightarrow> call_env \<Rightarrow> handler" where
  "mux_handler routes L deps ce req s = (let (r, st) = mux_serve routes L deps ce req (fst s) in (r, st, snd s))"

text \<open>\<open>None\<close> is a panic while the routes are registered.\<close>

definition api_serve ::
    "apilib \<Rightarrow> (api_body response \<Rightarrow> nat) \<Rightarrow> RouterDeps \<Rightarrow> call_env \<Rightarrow> http_req \<Rightarrow> api_state \<times> log_entry list \<Rightarrow>
     (api_body response \<times> api_state \<times> log_entry list) option" where
  "api_serve L bodyLen deps ce req s =
     map_option (\<lambda>routes. Chain (mux_handler routes L deps ce) [RequestLogger bodyLen] req s) (NewRouter deps)"

subsection \<open>The routes\<close>

abbreviation "all_tables P \<equiv> list_all (\<lambda>d. list_all (\<lambda>a. list_all (\<lambda>m. list_all (\<lambda>s. P (route_table d a m s)) [True, False])
   [True, False]) [True, False]) [True, False]"

definition apart :: "route \<Rightarrow> route \<Rightarrow> bool" where
  "apart r r' \<longleftrightarrow> \<not> (rt_method r = rt_method r' \<and> meets (rt_path r) (rt_path r'))"

fun all_apart :: "route list \<Rightarrow> bool" where
  "all_apart [] = True"
| "all_apart (r # rs) = (list_all (apart r) rs \<and> all_apart rs)"

lemma route_table_apart: "all_apart (route_table d a m s) \<and> list_all (\<lambda>r. rt_method r \<in> {''GET'', ''POST''}) (route_table d a m s)"
proof -
  have "all_tables (\<lambda>t. all_apart t \<and> list_all (\<lambda>r. rt_method r \<in> {''GET'', ''POST''}) t)" by code_simp
  then show ?thesis by (cases d; cases a; cases m; cases s) simp_all
qed

lemma meets_sym: "meets p q = meets q p"
  by (induction p q rule: meets.induct) auto

lemma match_meets: "match_path p ss i \<noteq> None \<Longrightarrow> match_path q ss j \<noteq> None \<Longrightarrow> meets p q"
proof (induction p ss i arbitrary: q j rule: match_path.induct)
  case (2 a p s ss i)
  then show ?case by (cases "(q, s # ss, j)" rule: match_path.cases) (auto split: if_splits)
next
  case (3 p s ss i)
  then show ?case by (cases "(q, s # ss, j)" rule: match_path.cases) (auto split: if_splits)
qed (auto elim: match_path.elims)

lemma mux_register_apart: "all_apart (regs @ rs) \<Longrightarrow> mux_register regs rs = Some (regs @ rs)"
proof (induction rs arbitrary: regs)
  case (Cons r rs)
  have "all_apart (regs @ r # rs) \<Longrightarrow> \<not> list_ex (conflict r) regs" for regs
    by (induction regs) (auto simp: apart_def conflict_def meets_sym)
  then show ?case using Cons.IH [of "regs @ [r]"] Cons.prems by simp
qed simp

lemma NewRouter_eq:
  "NewRouter deps = Some (route_table (de_DB deps) (de_AuthService deps \<noteq> None) (de_Matchmaking deps \<noteq> None) (de_JWTSecret deps \<noteq> []))"
  using mux_register_apart [of "[]"] route_table_apart unfolding NewRouter_def by simp

lemma filter_apart:
  assumes "all_apart rs" and "\<And>r r'. r \<in> set rs \<Longrightarrow> r' \<in> set rs \<Longrightarrow> P r \<Longrightarrow> P r' \<Longrightarrow> \<not> apart r r'"
  shows "length (filter P rs) \<le> 1"
  using assms
proof (induction rs)
  case (Cons r rs)
  then have "P r \<Longrightarrow> filter P rs = []" by (fastforce simp: list_all_iff filter_empty_conv)
  then show ?case using Cons by auto
qed simp

lemma served_once:
  assumes "NewRouter deps = Some routes"
  shows "length (filter (serves m path) routes) \<le> 1"
proof (rule filter_apart)
  show "all_apart routes" using assms route_table_apart by (auto simp: NewRouter_eq)
  fix r r' assume r: "r \<in> set routes" "r' \<in> set routes" "serves m path r" "serves m path r'"
  have "\<forall>r \<in> set routes. rt_method r = ''GET'' \<or> rt_method r = ''POST''"
  proof -
    have "routes = route_table (de_DB deps) (de_AuthService deps \<noteq> None) (de_Matchmaking deps \<noteq> None) (de_JWTSecret deps \<noteq> [])"
      using assms by (simp add: NewRouter_eq)
    then have "list_all (\<lambda>r. rt_method r \<in> {''GET'', ''POST''}) routes" using route_table_apart by blast
    then show ?thesis by (simp add: list_all_iff)
  qed
  then have "rt_method r = rt_method r'" using r by (auto simp: serves_def)
  moreover have "meets (rt_path r) (rt_path r')" using r by (auto intro!: match_meets simp: serves_def)
  ultimately show "\<not> apart r r'" by (simp add: apart_def)
qed

lemma mux_find_Some: "mux_find routes m path = Some r \<Longrightarrow> r \<in> set routes \<and> serves m path r"
  by (auto simp: mux_find_def find_Some_iff)

lemma covers_refl: "covers p p"
proof (induction p)
  case (Cons a p)
  then show ?case by (cases a) simp_all
qed simp

lemma mux_find_served:
  assumes "NewRouter deps = Some routes" and "r \<in> set routes" and "serves m path r"
  shows "mux_find routes m path = Some r"
proof -
  have "r' = r" if "r' \<in> set routes" "serves m path r'" for r'
  proof -
    have "{r, r'} \<subseteq> set (filter (serves m path) routes)" using assms that by auto
    then show ?thesis using served_once [OF assms(1), of m path]
      by (cases "filter (serves m path) routes") auto
  qed
  then have only: "\<And>r'. r' \<in> set routes \<Longrightarrow> serves m path r' \<longleftrightarrow> r' = r" using assms(3) by blast
  have find: "List.find P xs = Some r" if "\<And>y. y \<in> set xs \<Longrightarrow> P y \<longleftrightarrow> y = r" "r \<in> set xs" for P and xs :: "route list"
    using that by (induction xs) auto
  show ?thesis unfolding mux_find_def using only assms(2) covers_refl by (intro find) (auto simp: list_all_iff)
qed


lemma Chain1: "Chain h [mw] = mw h"
  by (simp add: Chain_def)

text \<open>What \<open>api_serve\<close> comes to: the mux's reply, and one line of log.\<close>

lemma api_serve_eq:
  assumes "NewRouter deps = Some routes"
  shows "api_serve L bodyLen deps ce req (st, logs) =
    (let (r, st') = mux_serve routes L deps ce req st
     in Some (r, st', logs @ [\<lparr>le_method = hr_method req, le_path = hr_path req,
          le_status = sr_status (recorded (bodyLen r) r), le_bytes = sr_bytes (recorded (bodyLen r) r)\<rparr>]))"
  by (simp add: api_serve_def assms Chain1 RequestLogger_def mux_handler_def case_prod_unfold Let_def)

text \<open>The handlers that do not call \<open>WriteHeader\<close> answer 200 when they do not report an error.\<close>

fun plain_200 :: "api_body response \<Rightarrow> bool" where
  "plain_200 (HttpError n msg) = True"
| "plain_200 (HttpJSON n b) = (explicit_status b \<or> n = 200)"

lemma recorded_status:
  assumes "plain_200 r" and "status_of r \<noteq> 0"
  shows "sr_status (recorded len r) = status_of r \<and> sr_sent (recorded len r) = Some (status_of r) \<and> sr_bytes (recorded len r) = len"
  using assms by (cases r) (auto simp: recorded_def reply_calls_def Let_def)

text \<open>The two kinds of handlers: those that set their status, and those that answer 200 or an error.\<close>

fun reply_ok :: "'a response \<Rightarrow> bool" where
  "reply_ok (HttpError n msg) = (n \<noteq> 0)"
| "reply_ok (HttpJSON n v) = (n = 200)"

lemma plain_map:
  "reply_ok r \<Longrightarrow> plain_200 (map_response f r) \<and> status_of (map_response f r) \<noteq> 0"
  "status_of r \<noteq> 0 \<Longrightarrow> \<forall>v. explicit_status (f v) \<Longrightarrow> plain_200 (map_response f r) \<and> status_of (map_response f r) \<noteq> 0"
  by (cases r; simp)+

lemma handlers_ok:
  "reply_ok (handle_Me fl ctx db)"
  "reply_ok (handle_cars_List coll fl cars)" "reply_ok (handle_cars_Get parse fl i cars)"
  "reply_ok (handle_tracks_List coll fl trs)" "reply_ok (handle_tracks_Get parse fl i trs)"
  "reply_ok (handle_garage_List fl ctx cars owned)"
  "reply_ok (handle_PlayerRaces pn pp fl ord ctx lm cur db')"
  "reply_ok (handle_Top parse fl fl2 ord ctx tid lm db')"
  "reply_ok (handle_Race parse fl fl2 ord ctx i db')"
  "reply_ok (fst (handle_Join T sv mf ord new now ctx asg))"
  by (auto simp: handle_Me_def handle_cars_List_def handle_cars_Get_def handle_tracks_List_def handle_tracks_Get_def
      handle_garage_List_def handle_PlayerRaces_def handle_Top_def handle_Race_def handle_Join_def
      split: option.split sum.split db_error.split prod.split)

lemma auth_handlers_status:
  "status_of (fst (handle_Register A s salt e now body db)) \<noteq> 0" "status_of (fst (handle_Login A s e now login db)) \<noteq> 0"
  "status_of (fst (handle_Guest A s rnd e now db)) \<noteq> 0" "status_of (Health deps h) \<noteq> 0" "status_of (Stub p) \<noteq> 0"
  by (auto simp: handle_Register_def handle_Login_def handle_Guest_def writeAuthResponse_def Health_def Stub_def
      split: option.split sum.split prod.split auth_error.split)

lemma endpoint_reply:
  "plain_200 (fst (endpoint_call L deps ce req ctx i e st)) \<and> status_of (fst (endpoint_call L deps ce req ctx i e st)) \<noteq> 0"
  by (cases e) (simp_all add: case_prod_unfold Let_def plain_map(2) auth_handlers_status plain_map(1) handlers_ok)

lemma mux_reply:
  "plain_200 (fst (mux_serve routes L deps ce req st)) \<and> status_of (fst (mux_serve routes L deps ce req st)) \<noteq> 0"
  using endpoint_reply by (auto simp: mux_serve_def route_call_def split: option.split)

subsection \<open>Properties\<close>

text \<open>C27. The routes of the API never conflict, so setting up the server never panics, and every request is served by at most one
  route, which is the one the server picks.\<close>

theorem routes_unambiguous:
  "\<exists>routes. NewRouter deps = Some routes \<and>
    (\<forall>m path. case filter (serves m path) routes of
       [] \<Rightarrow> mux_find routes m path = None
     | r # rs \<Rightarrow> rs = [] \<and> mux_find routes m path = Some r)"
proof -
  obtain routes where routes: "NewRouter deps = Some routes" using NewRouter_eq by blast
  have "case filter (serves m path) routes of
       [] \<Rightarrow> mux_find routes m path = None
     | r # rs \<Rightarrow> rs = [] \<and> mux_find routes m path = Some r" for m path
  proof (cases "filter (serves m path) routes")
    case Nil
    then have "mux_find routes m path = None" using mux_find_Some by (cases "mux_find routes m path") (fastforce simp: filter_empty_conv)+
    then show ?thesis using Nil by simp
  next
    case (Cons r rs)
    then have "r \<in> set (filter (serves m path) routes)" by simp
    then have "r \<in> set routes" "serves m path r" by simp_all
    then show ?thesis using mux_find_served [OF routes] served_once [OF routes, of m path] Cons by simp
  qed
  then show ?thesis using routes by blast
qed

text \<open>Each request leaves one line in the log, with its method and path, the length of the reply and the status that the
  client is sent.\<close>

theorem requests_are_logged:
  "\<exists>r st' e. api_serve L bodyLen deps ce req (st, logs) = Some (r, st', logs @ [e]) \<and>
    le_method e = hr_method req \<and> le_path e = hr_path req \<and> le_bytes e = bodyLen r \<and>
    le_status e = status_of r \<and> sr_sent (recorded (bodyLen r) r) = Some (le_status e)"
proof -
  obtain routes where routes: "NewRouter deps = Some routes" using NewRouter_eq by blast
  then show ?thesis
    using mux_reply [of routes L deps ce req st] recorded_status [of "fst (mux_serve routes L deps ce req st)"]
    by (cases "mux_serve routes L deps ce req st") (simp add: api_serve_eq [OF routes])
qed

subsection \<open>Who sees what\<close>

text \<open>What a reply may show: a profile, a garage and a history are those of the player of the access token, and
  nothing but health, placeholders and new access tokens is shown without one.\<close>

fun may_see :: "uuid option \<Rightarrow> api_state \<Rightarrow> api_body \<Rightarrow> bool" where
  "may_see who st (BHealth _) = True"
| "may_see who st (BStub _) = True"
| "may_see who st (BAuth _) = True"
| "may_see who st (BProfile p) = (who = Some (pf_PlayerID p))"
| "may_see who st (BGarage es) = (\<exists>pid. who = Some pid \<and>
     list_all (\<lambda>e. list_ex (\<lambda>own. pc_player own = pid \<and> pc_id own = ge_PlayerCarID e) (st_owned st)) es)"
| "may_see who st (BHistory page) = (\<exists>pid. who = Some pid \<and> set (hp_Races page) \<subseteq> all_rows pid (joined_tables st))"
| "may_see who st _ = (who \<noteq> None)"

lemma Me_own: "handle_Me fl (Some pid) db = HttpJSON n pf \<Longrightarrow> pf_PlayerID pf = pid"
  by (auto simp: handle_Me_def player_GetByID_def PlayerIDFromContext_def find_Some_iff split: option.splits sum.splits if_splits)

lemma garage_own:
  assumes "handle_garage_List fl (Some pid) cars owned = HttpJSON n es" and "e \<in> set es"
  shows "\<exists>own \<in> set owned. pc_player own = pid \<and> pc_id own = ge_PlayerCarID e"
proof -
  have "e \<in> set (List.map_filter (garage_row cars pid) owned)"
    using assms by (auto simp: handle_garage_List_def garage_ListByPlayer_def PlayerIDFromContext_def
        split: option.splits sum.splits if_splits)
  then obtain own where "own \<in> set owned" "garage_row cars pid own = Some e" by (auto simp: set_map_filter_Some)
  then show ?thesis by (auto simp: garage_row_def split: if_splits option.splits)
qed

lemma history_own:
  assumes "handle_PlayerRaces pn pp fl ord (Some pid) lm cur db = HttpJSON n page"
  shows "set (hp_Races page) \<subseteq> all_rows pid db"
proof
  fix x assume x: "x \<in> set (hp_Races page)"
  obtain lim c where "ListByPlayer fl ord pid c lim db = Inr page"
    using assms by (auto simp: handle_PlayerRaces_def PlayerIDFromContext_def split: option.splits sum.splits if_splits)
  then have "set (hp_Races page) \<subseteq> set (history_rows ord pid c db)"
    by (auto simp: ListByPlayer_def Let_def split: option.splits dest: in_set_takeD)
  then show "x \<in> all_rows pid db" using x
    by (auto simp: history_rows_def all_rows_def set_map_filter_Some)
qed

lemma map_response_JSON: "map_response f r = HttpJSON n b \<longleftrightarrow> (\<exists>v. r = HttpJSON n v \<and> b = f v)"
  by (cases r) auto

lemma guarded_see:
  assumes "endpoint_call L deps ce req (Some pid) i e st = (HttpJSON n b, st')"
  shows "may_see (Some pid) st b"
  using assms
  by (cases e) (auto simp: map_response_JSON case_prod_unfold Let_def list_all_iff list_ex_iff
      dest: Me_own garage_own history_own)

lemma public_endpoints: "list_all (\<lambda>r. rt_guarded r \<or>
   (case rt_endpoint r of EHealth \<Rightarrow> True | ERegister \<Rightarrow> True | ELogin \<Rightarrow> True | EGuest \<Rightarrow> True | EStub p \<Rightarrow> True | _ \<Rightarrow> False))
   (route_table d a m s)"
  by (cases d; cases a; cases m; cases s; simp add: route_table_def public_def guarded_def stub_route_def)

lemma public_see:
  assumes "endpoint_call L deps ce req None i e st = (HttpJSON n b, st')"
    and "case e of EHealth \<Rightarrow> True | ERegister \<Rightarrow> True | ELogin \<Rightarrow> True | EGuest \<Rightarrow> True | EStub p \<Rightarrow> True | _ \<Rightarrow> False"
  shows "may_see who st b"
  using assms by (cases e) (auto simp: map_response_JSON case_prod_unfold Let_def)

lemma endpoint_state:
  "\<exists>acc asg. snd (endpoint_call L deps ce req ctx i e st) = st\<lparr>st_accounts := acc, st_assignments := asg\<rparr> \<and>
    (e \<notin> {ERegister, ELogin, EGuest} \<longrightarrow> acc = st_accounts st) \<and> (e \<noteq> EJoin \<longrightarrow> asg = st_assignments st)"
  by (cases e) (auto simp: case_prod_unfold Let_def intro: exI [of _ "st_accounts st"] exI [of _ "st_assignments st"])


lemma Join_assignment:
  assumes "handle_Join T sv mf ord new now (Some pid) db = (r, db')"
  shows "db' = db \<or> (\<exists>a. db' = db @ [a] \<and> as_player a = pid)"
  using assms by (auto simp: handle_Join_def Join_def CreateAssignment_def PlayerIDFromContext_def
      split: option.splits sum.splits if_splits prod.splits)

text \<open>The routes that write.\<close>

definition account_paths :: "string list list" where
  "account_paths = map (\<lambda>s. [''api'', ''v1'', ''auth'', s]) [''register'', ''login'', ''guest'']"

definition join_path :: "string list" where
  "join_path = [''api'', ''v1'', ''matchmaking'', ''join'']"

definition write_route :: "route \<Rightarrow> bool" where
  "write_route r \<longleftrightarrow>
     (rt_endpoint r \<in> {ERegister, ELogin, EGuest} \<longrightarrow>
        \<not> rt_guarded r \<and> rt_method r = ''POST'' \<and> rt_path r \<in> set (map (map Lit) account_paths)) \<and>
     (rt_endpoint r = EJoin \<longrightarrow> rt_guarded r \<and> rt_method r = ''POST'' \<and> rt_path r = map Lit join_path)"

lemma write_routes: "r \<in> set (route_table d a m s) \<Longrightarrow> write_route r"
proof -
  have "all_tables (list_all write_route)" by code_simp
  then have "list_all write_route (route_table d a m s)" by (cases d; cases a; cases m; cases s) simp_all
  then show "r \<in> set (route_table d a m s) \<Longrightarrow> write_route r" by (simp add: list_all_iff)
qed

lemma match_literal: "match_path (map Lit p) ss i \<noteq> None \<longleftrightarrow> ss = p"
proof (induction p arbitrary: ss)
  case Nil
  then show ?case by (cases ss) simp_all
next
  case (Cons a p)
  then show ?case by (cases ss) auto
qed

lemma route_writes:
  assumes "mux_find (route_table d a m s) (hr_method req) (hr_path req) = Some rt"
  shows "rt_endpoint rt \<in> {ERegister, ELogin, EGuest} \<Longrightarrow>
      \<not> rt_guarded rt \<and> hr_method req = ''POST'' \<and> hr_path req \<in> set account_paths"
    and "rt_endpoint rt = EJoin \<Longrightarrow> rt_guarded rt \<and> hr_method req = ''POST'' \<and> hr_path req = join_path"
proof -
  note rt = mux_find_Some [OF assms]
  have "write_route rt" using rt write_routes by blast
  moreover have "(rt_method rt = hr_method req \<or> rt_method rt = ''GET'' \<and> hr_method req = ''HEAD'') \<and>
      match_path (rt_path rt) (hr_path req) [] \<noteq> None" using rt by (simp add: serves_def)
  ultimately have w: "write_route rt" "rt_method rt = ''POST'' \<Longrightarrow> hr_method req = ''POST''"
    "rt_path rt = map Lit q \<Longrightarrow> hr_path req = q" for q
    using match_literal by auto
  show "\<not> rt_guarded rt \<and> hr_method req = ''POST'' \<and> hr_path req \<in> set account_paths"
    if e: "rt_endpoint rt \<in> {ERegister, ELogin, EGuest}"
  proof -
    have r: "\<not> rt_guarded rt" "rt_method rt = ''POST''" "rt_path rt \<in> map Lit ` set account_paths"
      using w(1) e unfolding write_route_def set_map by blast+
    then obtain q where "rt_path rt = map Lit q" "q \<in> set account_paths" by blast
    then show ?thesis using r(1,2) w(2,3) by simp
  qed
  show "rt_guarded rt \<and> hr_method req = ''POST'' \<and> hr_path req = join_path" if "rt_endpoint rt = EJoin"
    using w that unfolding write_route_def by blast
qed

text \<open>C26. A reply shows only what its access token entitles to: a profile, a garage or a history only to the player the
  token names, the catalogs, leaderboards and races only to a player. And whatever the request, nothing changes but the accounts and the
  assignments: the accounts only by a POST to one of the three authentication paths, whose routes are outside the middleware; the
  assignments only by a POST to the matchmaking path behind it, which leaves all that were there in place and adds
  at most one, the caller's own.\<close>

theorem replies_respect_tokens:
  assumes "api_serve L bodyLen deps ce req (st, logs) = Some (r, st', logs')"
    and "who = Middleware (al_auth L) (de_JWTSecret deps) (de_JWTIssuer deps) (ce_now ce) (hr_Authorization req)"
  shows "(case r of HttpError n msg \<Rightarrow> True | HttpJSON n b \<Rightarrow> may_see who st b) \<and>
    (\<exists>acc asg. st' = st\<lparr>st_accounts := acc, st_assignments := asg\<rparr> \<and>
       (acc = st_accounts st \<or>
        asg = st_assignments st \<and> hr_method req = ''POST'' \<and> hr_path req \<in> set account_paths \<and>
        (\<exists>rt. mux_find (the (NewRouter deps)) (hr_method req) (hr_path req) = Some rt \<and> \<not> rt_guarded rt)) \<and>
       (asg = st_assignments st \<or>
        (\<exists>a. asg = st_assignments st @ [a] \<and> who = Some (as_player a)) \<and>
        acc = st_accounts st \<and> hr_method req = ''POST'' \<and> hr_path req = join_path))"
proof -
  let ?t = "route_table (de_DB deps) (de_AuthService deps \<noteq> None) (de_Matchmaking deps \<noteq> None) (de_JWTSecret deps \<noteq> [])"
  have serve: "mux_serve ?t L deps ce req st = (r, st')" and router: "the (NewRouter deps) = ?t"
    using assms(1) by (simp_all add: api_serve_eq [OF NewRouter_eq] NewRouter_eq Let_def split: prod.splits)
  have quiet: "?thesis" if "st' = st" and "case r of HttpError n msg \<Rightarrow> True | HttpJSON n b \<Rightarrow> may_see who st b"
    using that by (intro conjI exI [of _ "st_accounts st"] exI [of _ "st_assignments st"]) simp_all
  show ?thesis
  proof (cases "mux_find ?t (hr_method req) (hr_path req)")
    case None
    then show ?thesis using serve by (intro quiet) (auto simp: mux_serve_def split: if_splits)
  next
    case (Some rt)
    obtain i where call: "route_call L deps ce req i rt st = (r, st')" using serve Some by (simp add: mux_serve_def)
    note writes = route_writes [OF Some]
    show ?thesis
    proof (cases "rt_guarded rt \<and> who = None")
      case True
      then show ?thesis using call assms(2) by (intro quiet) (auto simp: route_call_def)
    next
      case False
      define ctx where "ctx = (if rt_guarded rt then who else None)"
      have e: "endpoint_call L deps ce req ctx i (rt_endpoint rt) st = (r, st')"
        using call False unfolding ctx_def route_call_def assms(2) [symmetric] by (auto split: if_splits option.splits)
      have see: "case r of HttpError n msg \<Rightarrow> True | HttpJSON n b \<Rightarrow> may_see who st b"
      proof (cases "rt_guarded rt")
        case True
        then obtain pid where "who = Some pid" using False by auto
        then show ?thesis using guarded_see e True by (auto simp: ctx_def split: response.split)
      next
        case public: False
        then have "case rt_endpoint rt of EHealth \<Rightarrow> True | ERegister \<Rightarrow> True | ELogin \<Rightarrow> True | EGuest \<Rightarrow> True | EStub p \<Rightarrow> True | _ \<Rightarrow> False"
          using public_endpoints [unfolded list_all_iff] mux_find_Some [OF Some] by blast
        from public_see [OF _ this] show ?thesis using e public by (auto simp: ctx_def split: response.split)
      qed
      obtain acc asg where st': "st' = st\<lparr>st_accounts := acc, st_assignments := asg\<rparr>"
        "rt_endpoint rt \<notin> {ERegister, ELogin, EGuest} \<longrightarrow> acc = st_accounts st" "rt_endpoint rt \<noteq> EJoin \<longrightarrow> asg = st_assignments st"
        using endpoint_state [of L deps ce req ctx i "rt_endpoint rt" st] e by auto
      have own: "asg = st_assignments st \<or> (\<exists>a. asg = st_assignments st @ [a] \<and> who = Some (as_player a))" if j: "rt_endpoint rt = EJoin"
      proof -
        obtain pid where pid: "ctx = Some pid" "who = Some pid" using writes(2) [OF j] False by (auto simp: ctx_def)
        let ?j = "handle_Join (al_token L) (the (de_Matchmaking deps)) (ce_match_fault ce) (ce_order ce)
            (ce_match_id ce) (ce_now ce) (Some pid) (st_assignments st)"
        have "st' = st\<lparr>st_assignments := snd ?j\<rparr>" using e by (simp add: j pid(1) Let_def case_prod_unfold)
        from arg_cong [OF this, of st_assignments] have "asg = snd ?j" using st'(1) by simp
        then show ?thesis using Join_assignment [OF prod.collapse [symmetric]] pid(2) by fastforce
      qed
      have accounts: "acc = st_accounts st \<or> asg = st_assignments st \<and> hr_method req = ''POST'' \<and>
          hr_path req \<in> set account_paths \<and> \<not> rt_guarded rt"
        using st'(2,3) writes(1) by (cases "rt_endpoint rt \<in> {ERegister, ELogin, EGuest}") auto
      have assignments: "asg = st_assignments st \<or> (\<exists>a. asg = st_assignments st @ [a] \<and> who = Some (as_player a)) \<and>
          acc = st_accounts st \<and> hr_method req = ''POST'' \<and> hr_path req = join_path"
        using st'(2,3) writes(2) own by (cases "rt_endpoint rt = EJoin") auto
      show ?thesis
        by (intro conjI see exI [of _ acc] exI [of _ asg] st'(1) assignments) (use accounts Some router in auto)
    qed
  qed
qed

subsection \<open>A session\<close>

lemma session_routes:
  "mux_find (route_table True True True True) ''POST'' [''api'', ''v1'', ''auth'', ''register''] =
     Some (public ''POST'' ''/api/v1/auth/register'' ERegister)"
  "mux_find (route_table True True True True) ''GET'' [''api'', ''v1'', ''players'', ''me''] =
     Some (guarded ''GET'' ''/api/v1/players/me'' EMe)"
  by code_simp+

lemma up_router:
  assumes "JWTSecret cfg \<noteq> []"
  shows "NewRouter (api_deps cfg True) = Some (route_table True True True True)"
  using assms by (simp add: NewRouter_eq api_deps_def)

lemma handle_Register_200:
  assumes "handle_Register A s salt e now body db = (HttpJSON n a, db')"
  shows "\<exists>req tok pid. body = Some req \<and> Register A s salt e now req db = (Inr (tok, pid), db') \<and> ar_AccessToken a = tok"
  using assms by (auto simp: handle_Register_def writeAuthResponse_def split: option.splits prod.splits sum.splits auth_error.splits)

lemma Register_name:
  assumes "Register A s salt e now req db = (Inr ids, db')"
  shows "\<exists>p \<in> set (ac_players db'). \<exists>u \<in> set (ac_users db'). pl_id p = ae_player e \<and> us_id u = ae_user e \<and> pl_user p = us_id u \<and>
    pl_name p = TrimSpace (rq_DisplayName req) \<and> \<not> us_guest u"
proof -
  obtain email h name where "validateDisplayName (rq_DisplayName req) = Inr name"
    and c: "CreateUserWithPlayer e email h name db = (Inr (ae_user e, ae_player e), db')"
    using assms CreateUserWithPlayer_cases(2) [OF _ refl]
    by (fastforce simp: Register_def split: sum.splits option.splits prod.splits)
  then show ?thesis using CreateUserWithPlayer_cases(2) [OF c refl]
    by (auto simp: validateDisplayName_def Let_def split: if_splits)
qed

text \<open>C25. With any configuration that loads and the database up, whoever registers through the API can read the new player's
  profile with the access token of the reply until it expires: its ids, the trimmed display name, and not a guest.\<close>

theorem registered_player_sees_profile:
  assumes "Load lower env = Inr cfg" and "deps = api_deps cfg True" and "jwt_doc (al_auth L)" and "auth_wf (st_accounts st)"
    and "ae_user (ce_auth ce) \<noteq> 0" and "ae_player (ce_auth ce) \<noteq> 0"
    and "hr_method req = ''POST''" and "hr_path req = [''api'', ''v1'', ''auth'', ''register'']"
    and "api_serve L bodyLen deps ce req (st, logs) = Some (HttpJSON n (BAuth a), st', logs')"
    and "hr_method req' = ''GET''" and "hr_path req' = [''api'', ''v1'', ''players'', ''me'']"
    and "hr_Authorization req' = ''Bearer '' @ ar_AccessToken a"
    and "ce_now ce' < unix_time (time_Unix (ce_now ce + JWTAccessTTL cfg))" and "ce_fault ce' = None"
  shows "\<exists>p e. api_serve L bodyLen deps ce' req' (st', logs') = Some (HttpJSON 200 (BProfile p), st', logs' @ [e]) \<and>
    pf_PlayerID p = ae_player (ce_auth ce) \<and> pf_UserID p = ae_user (ce_auth ce) \<and> \<not> pf_IsGuest p \<and>
    pf_DisplayName p = TrimSpace (rq_DisplayName (the (hr_register req)))"
proof -
  let ?s = "\<lparr>sv_secret = JWTSecret cfg, sv_issuer = JWTIssuer cfg, sv_ttl = JWTAccessTTL cfg\<rparr>"
  have "JWTSecret cfg \<noteq> []" using Load_Inr [of lower env cfg] assms(1) by (auto simp: check_secrets_def split: if_splits)
  then have up: "NewRouter deps = Some (route_table True True True True)" using up_router assms(2) by simp
  have deps: "de_AuthService deps = Some ?s" "de_JWTSecret deps = sv_secret ?s" "de_JWTIssuer deps = sv_issuer ?s"
    by (simp_all add: assms(2) api_deps_def)
  obtain db where reg: "handle_Register (al_auth L) ?s (ce_salt ce) (ce_auth ce) (ce_now ce) (hr_register req) (st_accounts st) =
      (HttpJSON n a, db)" and st': "st' = st\<lparr>st_accounts := db\<rparr>"
    using assms(9) by (auto simp: api_serve_eq [OF up] mux_serve_def assms(7,8) session_routes route_call_def public_def deps(1)
        Let_def map_response_JSON split: prod.splits)
  then obtain rq pid where rq: "hr_register req = Some rq" and
    ok: "Register (al_auth L) ?s (ce_salt ce) (ce_auth ce) (ce_now ce) rq (st_accounts st) = (Inr (ar_AccessToken a, pid), db)"
    using handle_Register_200 by blast
  note c = Register_cases(2) [OF ok refl]
  then have pid: "pid = ae_player (ce_auth ce)" and wf: "auth_wf db"
    and tok: "IssueAccessToken (al_auth L) (sv_secret ?s) (sv_issuer ?s) (sv_ttl ?s) (ce_now ce) (ae_user (ce_auth ce)) (ae_player (ce_auth ce)) =
      Inr (ar_AccessToken a)"
    using account_added_wf [OF assms(4)] by blast+
  have mw: "Middleware (al_auth L) (de_JWTSecret deps) (de_JWTIssuer deps) (ce_now ce') (hr_Authorization req') = Some pid"
    using Issue_admits [OF assms(3) tok assms(5,6)] assms(12,13) by (simp add: deps pid)
  obtain p u where pu: "p \<in> set (ac_players db)" "u \<in> set (ac_users db)" "pl_user p = us_id u" "pl_id p = pid"
    and fields: "us_id u = ae_user (ce_auth ce)" "pl_name p = TrimSpace (rq_DisplayName rq)" "\<not> us_guest u"
    using Register_name [OF ok] pid by blast
  have "handle_Me None (Some pid) db = HttpJSON 200 \<lparr>pf_PlayerID = pid, pf_UserID = us_id u, pf_DisplayName = pl_name p,
      pf_AvatarURL = pl_avatar p, pf_IsGuest = us_guest u, pf_CreatedAt = pl_created p, pf_LastLoginAt = us_last_login u\<rparr>"
    using profile_of [OF wf pu(1-3)] pu(4) assms(6) by (simp add: handle_Me_def PlayerIDFromContext_def pid)
  then show ?thesis
    using fields pid
    by (simp add: api_serve_eq [OF up] mux_serve_def assms(10,11,14) session_routes route_call_def mw rq st')
      (simp add: guarded_def mw assms(14))
qed

text \<open>The development configuration, and a server on empty tables.\<close>

definition demo_cfg :: Config where
  "demo_cfg = dev_secrets ((read_config Map.empty)\<lparr>LogLevel := LevelInfo\<rparr>)"

lemma demo_cfg_loads: "Load id Map.empty = Inr demo_cfg"
proof -
  have "TrimSpace ''info'' = ''info''" by (rule TrimSpace_none) simp
  then show ?thesis
    unfolding Load_Inr demo_cfg_def check_secrets_None check_ranges_None
    by (simp add: parseLogLevel_def getEnv_def read_config_def getEnvInt_def getEnvDuration_def)
qed

lemma demo_cfg_fields:
  "JWTSecret demo_cfg = ''dev_jwt_secret_change_me''" "JWTAccessTTL demo_cfg = 3600 * Second"
  by (simp_all add: demo_cfg_def read_config_def Getenv_def getEnv_def getEnvDuration_def)

definition demo_api :: apilib where
  "demo_api = \<lparr>al_auth = demo_auth, al_token = demo_tokenlib, al_uuidParse = (\<lambda>_. None), al_parseNano = (\<lambda>_. None),
     al_parsePlain = (\<lambda>_. None), al_coll = (\<lambda>_. 0)\<rparr>"

definition demo_call :: call_env where
  "demo_call = \<lparr>ce_now = 0, ce_auth = demo_ok 7 8, ce_salt = 0, ce_random = None, ce_healthy = True, ce_fault = None,
     ce_fault2 = None, ce_order = [], ce_match_fault = (\<lambda>_. None), ce_match_id = 1\<rparr>"

definition demo_start :: api_state where
  "demo_start = \<lparr>st_accounts = \<lparr>ac_users = [], ac_players = []\<rparr>, st_assignments = [], st_cars = [], st_tracks = [],
     st_owned = [], st_tables = demo_board\<rparr>"

definition demo_http :: "string \<Rightarrow> string list \<Rightarrow> string \<Rightarrow> http_req" where
  "demo_http m path auth = \<lparr>hr_method = m, hr_path = path, hr_Authorization = auth, hr_query = (\<lambda>_. []),
     hr_register = Some demo_request, hr_login = None\<rparr>"

lemma demo_post:
  "\<exists>a st' logs'. api_serve demo_api (\<lambda>_. 0) (api_deps demo_cfg True) demo_call
     (demo_http ''POST'' [''api'', ''v1'', ''auth'', ''register''] []) (demo_start, []) = Some (HttpJSON 200 (BAuth a), st', logs')"
proof -
  have up: "NewRouter (api_deps demo_cfg True) = Some (route_table True True True True)"
    by (rule up_router) (simp add: demo_cfg_fields)
  let ?s = "\<lparr>sv_secret = JWTSecret demo_cfg, sv_issuer = JWTIssuer demo_cfg, sv_ttl = JWTAccessTTL demo_cfg\<rparr>"
  have "sv_secret ?s \<noteq> []" by (simp add: demo_cfg_fields)
  then obtain tok where "Register demo_auth ?s 0 (demo_ok 7 8) 0 demo_request \<lparr>ac_users = [], ac_players = []\<rparr> = (Inr (tok, 8), demo_accounts)"
    using demo_Register [of ?s] by blast
  then show ?thesis
    unfolding api_serve_eq [OF up]
    by (simp add: mux_serve_def demo_http_def session_routes route_call_def public_def api_deps_def
        demo_api_def demo_call_def demo_start_def handle_Register_def writeAuthResponse_def)
qed


text \<open>The session: the new player reads its own profile.\<close>

theorem registered_player_sees_profile_witness:
  "\<exists>a st' logs' p e. api_serve demo_api (\<lambda>_. 0) (api_deps demo_cfg True) demo_call
      (demo_http ''POST'' [''api'', ''v1'', ''auth'', ''register''] []) (demo_start, []) = Some (HttpJSON 200 (BAuth a), st', logs') \<and>
    api_serve demo_api (\<lambda>_. 0) (api_deps demo_cfg True) demo_call
      (demo_http ''GET'' [''api'', ''v1'', ''players'', ''me''] (''Bearer '' @ ar_AccessToken a)) (st', logs') =
      Some (HttpJSON 200 (BProfile p), st', logs' @ [e]) \<and> pf_PlayerID p = 8 \<and> pf_DisplayName p = ''Ann''"
proof -
  obtain a st' logs' where post: "api_serve demo_api (\<lambda>_. 0) (api_deps demo_cfg True) demo_call
     (demo_http ''POST'' [''api'', ''v1'', ''auth'', ''register''] []) (demo_start, []) = Some (HttpJSON 200 (BAuth a), st', logs')"
    using demo_post by blast
  let ?req = "demo_http ''GET'' [''api'', ''v1'', ''players'', ''me''] (''Bearer '' @ ar_AccessToken a)"
  have profile: "\<exists>p e. api_serve demo_api (\<lambda>_. 0) (api_deps demo_cfg True) demo_call ?req (st', logs') =
      Some (HttpJSON 200 (BProfile p), st', logs' @ [e]) \<and>
    pf_PlayerID p = ae_player (ce_auth demo_call) \<and> pf_UserID p = ae_user (ce_auth demo_call) \<and> \<not> pf_IsGuest p \<and>
    pf_DisplayName p = TrimSpace (rq_DisplayName (the (hr_register (demo_http ''POST'' [''api'', ''v1'', ''auth'', ''register''] []))))"
  proof (rule registered_player_sees_profile [OF demo_cfg_loads refl _ _ _ _ _ _ post])
    show "jwt_doc (al_auth demo_api)" by (simp add: demo_api_def demo_jwt_doc)
    show "auth_wf (st_accounts demo_start)" by (simp add: demo_start_def auth_wf_def map_filter_simps)
    show "ce_now demo_call < unix_time (time_Unix (ce_now demo_call + JWTAccessTTL demo_cfg))"
      by (simp add: demo_call_def demo_cfg_fields unix_time_def time_Unix_def)
  qed (simp_all add: demo_call_def demo_ok_def demo_http_def)
  have demo: "ae_player (ce_auth demo_call) = 8"
    "TrimSpace (rq_DisplayName (the (hr_register (demo_http ''POST'' [''api'', ''v1'', ''auth'', ''register''] [])))) = ''Ann''"
    by (simp_all add: demo_call_def demo_ok_def demo_http_def demo_request_def demo_trims)
  from profile obtain p e where "api_serve demo_api (\<lambda>_. 0) (api_deps demo_cfg True) demo_call ?req (st', logs') =
      Some (HttpJSON 200 (BProfile p), st', logs' @ [e])" "pf_PlayerID p = 8" "pf_DisplayName p = ''Ann''"
    unfolding demo by (elim exE conjE) (rule that)
  note p = this
  show ?thesis
    by (rule exI [of _ a], rule exI [of _ st'], rule exI [of _ logs'], rule exI [of _ p], rule exI [of _ e],
        rule conjI [OF post conjI [OF p(1) conjI [OF p(2,3)]]])
qed

theorem replies_respect_tokens_witness:
  "\<exists>a st' logs' acc. api_serve demo_api (\<lambda>_. 0) (api_deps demo_cfg True) demo_call
      (demo_http ''POST'' [''api'', ''v1'', ''auth'', ''register''] []) (demo_start, []) = Some (HttpJSON 200 (BAuth a), st', logs') \<and>
    st' = demo_start\<lparr>st_accounts := acc\<rparr>"
proof -
  obtain a st' logs' where post: "api_serve demo_api (\<lambda>_. 0) (api_deps demo_cfg True) demo_call
     (demo_http ''POST'' [''api'', ''v1'', ''auth'', ''register''] []) (demo_start, []) = Some (HttpJSON 200 (BAuth a), st', logs')"
    using demo_post by blast
  have other: "hr_path (demo_http ''POST'' [''api'', ''v1'', ''auth'', ''register''] []) \<noteq> join_path"
    by (simp add: demo_http_def join_path_def)
  obtain acc asg where "st' = demo_start\<lparr>st_accounts := acc, st_assignments := asg\<rparr>" "asg = st_assignments demo_start"
    using conjunct2 [OF replies_respect_tokens [OF post refl]] other by (elim exE conjE) (rule that, assumption, argo)
  then have "st' = demo_start\<lparr>st_accounts := acc\<rparr>" by simp
  then show ?thesis by (intro exI [of _ a] exI [of _ st'] exI [of _ logs'] exI [of _ acc] conjI post)
qed

end
