(* ===== verification/Startup.thy ===== *)
theory Startup
  imports Router GameServer
begin

text \<open>
  How the two servers start and stop: \<open>internal/database/database.go\<close>, the socket in
  \<open>internal/networking/server.go\<close>, and the \<open>main\<close> functions of \<open>cmd/api\<close> and \<open>cmd/game-server\<close>. A run is the list of
  what it does to the outside, in order; what the outside answers are arguments. Logging is left out.
\<close>

subsection \<open>The connection pool\<close>

record pool_config =
  pg_URL :: string
  pg_MaxConns :: int
  pg_MinConns :: int
  pg_MaxConnLifetime :: duration
  pg_MaxConnIdleTime :: duration
  pg_HealthCheckPeriod :: duration

datatype event =
    PoolOpened pool_config
  | PoolClosed
  | HttpListens int RouterDeps
  | HttpShutDown
  | SocketBound int
  | SocketClosed
  | Exit nat

text \<open>
  What the database driver answers: \<open>pgxpool.ParseConfig\<close>, \<open>pgxpool.NewWithConfig\<close> and the ping within
  the time allowed; an error is its message.
\<close>

record dblib =
  pg_parse :: "string \<Rightarrow> string + pool_config"
  pg_open :: "pool_config \<Rightarrow> string option"
  pg_ping :: "pool_config \<Rightarrow> string option"

definition database_New :: "dblib \<Rightarrow> Config option \<Rightarrow> event list \<times> (string + pool_config)" where
  "database_New D cfg =
     (case cfg of
        None \<Rightarrow> ([], Inl ''database: nil config'')
      | Some cfg \<Rightarrow>
     (case pg_parse D (DatabaseURL cfg) of
        Inl err \<Rightarrow> ([], Inl (''parse pgx config: '' @ err))
      | Inr pcfg \<Rightarrow>
          let pcfg = pcfg\<lparr>pg_MaxConns := 10, pg_MinConns := 2, pg_MaxConnLifetime := 3600 * Second,
                          pg_MaxConnIdleTime := 600 * Second, pg_HealthCheckPeriod := 30 * Second\<rparr>
          in case pg_open D pcfg of
               Some err \<Rightarrow> ([], Inl (''open pgxpool: '' @ err))
             | None \<Rightarrow>
                 (case pg_ping D pcfg of
                    Some err \<Rightarrow> ([PoolOpened pcfg, PoolClosed], Inl (''ping postgres: '' @ err))
                  | None \<Rightarrow> ([PoolOpened pcfg], Inr pcfg))))"

text \<open>\<open>Close\<close> and \<open>HealthCheck\<close> of a pool that may be nil.\<close>

definition database_Close :: "pool_config option \<Rightarrow> event list" where
  "database_Close p = (case p of None \<Rightarrow> [] | Some _ \<Rightarrow> [PoolClosed])"

definition HealthCheck :: "dblib \<Rightarrow> pool_config option \<Rightarrow> string option" where
  "HealthCheck D p =
     (case p of None \<Rightarrow> Some ''database: pool not initialized'' | Some pcfg \<Rightarrow> pg_ping D pcfg)"

subsection \<open>The API server\<close>

text \<open>
  What ends \<open>main\<close>'s wait: the listener cannot be opened; it is opened and fails later; it returns without an error; or a
  signal arrives, when \<open>Signalled b\<close> says whether the goroutine has opened the listener by then.
\<close>

datatype serve_end = ListenFailed | ServeFailed | ServeEnded | Signalled bool

fun listening :: "serve_end \<Rightarrow> bool" where
  "listening ListenFailed = False"
| "listening (Signalled b) = b"
| "listening _ = True"

definition cleanupAndExit :: "pool_config option \<Rightarrow> nat \<Rightarrow> event list" where
  "cleanupAndExit p code = database_Close p @ [Exit code]"

definition api_main ::
    "dblib \<Rightarrow> (string \<Rightarrow> string) \<Rightarrow> env \<Rightarrow> serve_end \<Rightarrow> event list" where
  "api_main D lower env ending =
     (case MustLoad lower env of
        None \<Rightarrow> [Exit 1]
      | Some cfg \<Rightarrow>
          let (opened, res) = database_New D (Some cfg);
              pool = (case res of Inl _ \<Rightarrow> None | Inr p \<Rightarrow> Some p)
          in opened @ (if listening ending then [HttpListens (APIPort cfg) (api_deps cfg (pool \<noteq> None))] else []) @
             (if ending = ListenFailed \<or> ending = ServeFailed then cleanupAndExit pool 1
              else HttpShutDown # cleanupAndExit pool 0))"

subsection \<open>The socket\<close>

record UDPServer =
  us_Port :: int
  us_Open :: bool
  us_Done :: bool
  us_Dispatcher :: bool

text \<open>\<open>bindErr\<close> is what \<open>net.ListenUDP\<close> reports.\<close>

definition NewUDPServer :: "bool \<Rightarrow> string option \<Rightarrow> int \<Rightarrow> string + UDPServer" where
  "NewUDPServer hasLog bindErr port =
     (if \<not> hasLog then Inl ''networking: nil logger''
      else case bindErr of
        Some err \<Rightarrow> Inl (''listen udp: '' @ err)
      | None \<Rightarrow> Inr \<lparr>us_Port = port, us_Open = True, us_Done = False, us_Dispatcher = False\<rparr>)"

definition SetDispatcher :: "UDPServer \<Rightarrow> UDPServer" where
  "SetDispatcher s = s\<lparr>us_Dispatcher := True\<rparr>"

text \<open>\<open>True\<close> is an error of \<open>conn.Close\<close>: the socket was closed before.\<close>

definition UDPServer_Close :: "UDPServer \<Rightarrow> bool \<times> UDPServer" where
  "UDPServer_Close s =
     (let s = (if us_Done s then s else s\<lparr>us_Done := True\<rparr>)
      in (\<not> us_Open s, s\<lparr>us_Open := False\<rparr>))"

subsection \<open>The game server\<close>

text \<open>
  How \<open>Serve\<close> comes to an end, by what its calls of the dispatcher do in turn, in \<open>main\<close>'s own goroutine: they return, and the loop ends when it is told
  to stop; or one panics; or one never returns (\<open>None\<close>), for the mutex of a race whose tick hangs.
\<close>

datatype serve_outcome = ServeReturns | ServePanics | ServeBlocks

fun serve_outcome_of :: "bytes go option list \<Rightarrow> serve_outcome" where
  "serve_outcome_of [] = ServeReturns"
| "serve_outcome_of (Some (Returns out) # calls) = serve_outcome_of calls"
| "serve_outcome_of (Some (Panics msg) # calls) = ServePanics"
| "serve_outcome_of (None # calls) = ServeBlocks"

text \<open>
  The end of \<open>main\<close>. A panic runs the deferred \<open>pool.Close()\<close> but not the \<open>srv.Close()\<close> below \<open>Serve\<close>, and the runtime
  ends the process with status 2.
\<close>

definition game_exit :: "pool_config \<Rightarrow> UDPServer \<Rightarrow> serve_outcome \<Rightarrow> event list" where
  "game_exit pool srv how =
     (case how of
        ServeReturns \<Rightarrow>
          (if fst (UDPServer_Close srv) then [] else [SocketClosed]) @ database_Close (Some pool) @ [Exit 0]
      | ServePanics \<Rightarrow> database_Close (Some pool) @ [Exit 2]
      | ServeBlocks \<Rightarrow> [])"

text \<open>\<open>os.Exit\<close> skips the deferred \<open>pool.Close()\<close>.\<close>

definition game_main ::
    "dblib \<Rightarrow> (string \<Rightarrow> string) \<Rightarrow> env \<Rightarrow> string option \<Rightarrow> bytes go option list \<Rightarrow> event list" where
  "game_main D lower env bindErr calls =
     (case MustLoad lower env of
        None \<Rightarrow> [Exit 1]
      | Some cfg \<Rightarrow>
     (case database_New D (Some cfg) of
        (opened, Inl _) \<Rightarrow> opened @ [Exit 1]
      | (opened, Inr pool) \<Rightarrow>
          (case NewUDPServer True bindErr (GameServerPort cfg) of
             Inl _ \<Rightarrow> opened @ [Exit 1]
           | Inr srv \<Rightarrow>
               let srv = SetDispatcher srv
               in opened @ [SocketBound (us_Port srv)] @ game_exit pool srv (serve_outcome_of calls))))"

subsection \<open>Lemmas\<close>

definition opens :: "event list \<Rightarrow> nat" where
  "opens es = length (filter (\<lambda>e. \<exists>p. e = PoolOpened p) es)"

definition closes :: "event list \<Rightarrow> nat" where
  "closes es = length (filter (\<lambda>e. e = PoolClosed) es)"

lemma opens_simps [simp]:
  "opens [] = 0" "opens (PoolOpened p # es) = Suc (opens es)" "opens (PoolClosed # es) = opens es"
  "opens (HttpListens n d # es) = opens es" "opens (HttpShutDown # es) = opens es"
  "opens (SocketBound n # es) = opens es" "opens (SocketClosed # es) = opens es" "opens (Exit c # es) = opens es"
  by (simp_all add: opens_def)

lemma closes_simps [simp]:
  "closes [] = 0" "closes (PoolOpened p # es) = closes es" "closes (PoolClosed # es) = Suc (closes es)"
  "closes (HttpListens n d # es) = closes es" "closes (HttpShutDown # es) = closes es"
  "closes (SocketBound n # es) = closes es" "closes (SocketClosed # es) = closes es" "closes (Exit c # es) = closes es"
  by (simp_all add: closes_def)

definition db_up :: "dblib \<Rightarrow> Config \<Rightarrow> bool" where
  "db_up D cfg \<longleftrightarrow> (\<exists>p. snd (database_New D (Some cfg)) = Inr p)"

lemma database_New_cases:
  obtains (down) err where "database_New D (Some cfg) = ([], Inl err)" "\<not> db_up D cfg"
  | (unreachable) p err where "database_New D (Some cfg) = ([PoolOpened p, PoolClosed], Inl err)" "\<not> db_up D cfg"
  | (up) p where "database_New D (Some cfg) = ([PoolOpened p], Inr p)" "db_up D cfg"
    "pg_MaxConns p = 10"
  by (cases "database_New D (Some cfg)") (auto simp: database_New_def db_up_def Let_def split: sum.splits option.splits)

subsection \<open>Properties\<close>

text \<open>C39. How the servers start and stop, once their configuration loads. The API tries its port with or without a database: when the
  listener opens, it listens on the configured port with the routes of what it has; it exits with 1 when the listener
  fails, then or later, and with 0 otherwise, its pool closed. The game server listens only with a database and its port, on the
  configured one, and exits with 1 without them. Once it listens, it exits with 0, socket and pool closed, when told to stop; with 2, the pool closed but
  not the socket, when a call of the dispatcher panics; and never, whatever it is told, when one
  waits for ever. A pool stays open only in that case and when the game server's port is taken.\<close>

theorem servers_start_and_stop:
  assumes "Load lower env = Inr cfg"
  shows "(let es = api_main D lower env ending in
      (\<forall>port deps. HttpListens port deps \<in> set es \<longleftrightarrow>
         listening ending \<and> port = APIPort cfg \<and> deps = api_deps cfg (db_up D cfg)) \<and>
      opens es = closes es \<and>
      (\<exists>fs. es = fs @ [Exit (if ending = ListenFailed \<or> ending = ServeFailed then 1 else 0)] \<and> (\<forall>c. Exit c \<notin> set fs))) \<and>
    (let es = game_main D lower env bindErr calls; up = (db_up D cfg \<and> bindErr = None); how = serve_outcome_of calls in
      (\<forall>port. SocketBound port \<in> set es \<longleftrightarrow> up \<and> port = GameServerPort cfg) \<and>
      (SocketClosed \<in> set es \<longleftrightarrow> up \<and> how = ServeReturns) \<and>
      opens es = closes es + (if db_up D cfg \<and> (bindErr \<noteq> None \<or> how = ServeBlocks) then 1 else 0) \<and>
      (if up \<and> how = ServeBlocks then \<forall>c. Exit c \<notin> set es
       else \<exists>fs. es = fs @ [Exit (if \<not> up then 1 else if how = ServePanics then 2 else 0)] \<and> (\<forall>c. Exit c \<notin> set fs)))"
proof -
  have m: "MustLoad lower env = Some cfg" using assms by (simp add: MustLoad_def)
  note defs = m Let_def cleanupAndExit_def database_Close_def NewUDPServer_def SetDispatcher_def game_exit_def UDPServer_Close_def
  have api: "let es = api_main D lower env ending in
      (\<forall>port deps. HttpListens port deps \<in> set es \<longleftrightarrow>
         listening ending \<and> port = APIPort cfg \<and> deps = api_deps cfg (db_up D cfg)) \<and>
      opens es = closes es \<and>
      (\<exists>fs. es = fs @ [Exit (if ending = ListenFailed \<or> ending = ServeFailed then 1 else 0)] \<and> (\<forall>c. Exit c \<notin> set fs))"
    by (cases rule: database_New_cases [of D cfg]; cases ending) (auto simp: api_main_def defs)
  have game: "let es = game_main D lower env bindErr calls; up = (db_up D cfg \<and> bindErr = None); how = serve_outcome_of calls in
      (\<forall>port. SocketBound port \<in> set es \<longleftrightarrow> up \<and> port = GameServerPort cfg) \<and>
      (SocketClosed \<in> set es \<longleftrightarrow> up \<and> how = ServeReturns) \<and>
      opens es = closes es + (if db_up D cfg \<and> (bindErr \<noteq> None \<or> how = ServeBlocks) then 1 else 0) \<and>
      (if up \<and> how = ServeBlocks then \<forall>c. Exit c \<notin> set es
       else \<exists>fs. es = fs @ [Exit (if \<not> up then 1 else if how = ServePanics then 2 else 0)] \<and> (\<forall>c. Exit c \<notin> set fs))"
    by (cases rule: database_New_cases [of D cfg]; cases bindErr; cases "serve_outcome_of calls") (auto simp: game_main_def defs)
  show ?thesis using api game by (rule conjI)
qed

definition demo_dblib :: dblib where
  "demo_dblib = \<lparr>pg_parse = (\<lambda>u. Inr \<lparr>pg_URL = u, pg_MaxConns = 4, pg_MinConns = 0, pg_MaxConnLifetime = 0,
      pg_MaxConnIdleTime = 0, pg_HealthCheckPeriod = 0\<rparr>), pg_open = (\<lambda>_. None), pg_ping = (\<lambda>_. None)\<rparr>"

lemma demo_db_up: "db_up demo_dblib cfg"
  by (simp add: db_up_def database_New_def demo_dblib_def Let_def)

text \<open>A game server whose port is taken, one whose second datagram makes the dispatcher panic, and one that waits for a hung race; an API server that is told to stop, and
  one whose port is taken.\<close>

theorem servers_start_and_stop_witness:
  "opens (game_main demo_dblib id Map.empty (Some ''in use'') []) =
     Suc (closes (game_main demo_dblib id Map.empty (Some ''in use'') [])) \<and>
   (\<exists>fs. game_main demo_dblib id Map.empty None [Some (Returns [1]), Some (Panics ''nil'')] = fs @ [Exit 2]) \<and>
   (\<forall>c. Exit c \<notin> set (game_main demo_dblib id Map.empty None [None])) \<and>
   HttpListens 8080 (api_deps demo_cfg True) \<in> set (api_main demo_dblib id Map.empty (Signalled True)) \<and>
   HttpListens 8080 (api_deps demo_cfg True) \<notin> set (api_main demo_dblib id Map.empty ListenFailed)"
proof -
  have "APIPort demo_cfg = 8080" by (simp add: demo_cfg_def read_config_def getEnvInt_def)
  then show ?thesis
    using servers_start_and_stop [OF demo_cfg_loads, of demo_dblib "Signalled True" "Some ''in use''" "[]"]
      servers_start_and_stop [OF demo_cfg_loads, of demo_dblib ListenFailed None "[Some (Returns [1]), Some (Panics ''nil'')]"]
      servers_start_and_stop [OF demo_cfg_loads, of demo_dblib ListenFailed None "[None]"] demo_db_up
    by (auto simp: Let_def)
qed

end
