(* ===== verification/Play.thy ===== *)
theory Play
  imports Router Dispatcher
begin

text \<open>
  The two servers together: matchmaking over the REST API (\<open>cmd/api\<close>) and the join at the game server
  (\<open>cmd/game-server\<close>), which share the assignments table and the secret of the game tokens.
\<close>

subsection \<open>Entering a race\<close>

lemma join_route:
  "mux_find (route_table True True True True) ''POST'' [''api'', ''v1'', ''matchmaking'', ''join''] =
     Some (guarded ''POST'' ''/api/v1/matchmaking/join'' EJoin)"
  by code_simp

text \<open>A match a player can still enter: its race is not over and not full, or there is none yet and its track is known.\<close>

definition has_room :: "world \<Rightarrow> uuid \<Rightarrow> Manager \<Rightarrow> bool" where
  "has_room w matchID m \<longleftrightarrow>
     (case ByMatch matchID m of
        (Some r, _) \<Rightarrow> status (heap m ! r) \<noteq> StatusFinished \<and> int (gm_len (players (heap m ! r))) < MaxPlayers (heap m ! r)
      | (None, known) \<Rightarrow> \<not> known \<and> (\<exists>track. w_trackFn w matchID = Inr track))"

lemma AddPlayer_room:
  "status r \<noteq> StatusFinished \<Longrightarrow> int (gm_len (players r)) < MaxPlayers r \<Longrightarrow> fst (AddPlayer pid spec now now' r)"
  by (simp add: AddPlayer_def split: option.split)

lemma New_room: "status (New rid track hz laps mp now) \<noteq> StatusFinished"
  "int (gm_len (players (New rid track hz laps mp now))) < MaxPlayers (New rid track hz laps mp now)"
  by (simp_all add: New_def DefaultMaxPlayers_def gm_len_def)

lemma join_race_room:
  assumes "status (heap m ! p) \<noteq> StatusFinished" and "int (gm_len (players (heap m ! p))) < MaxPlayers (heap m ! p)"
  shows "\<exists>m'. join_race p pid now m = (Returns (Inr p), m')"
  using AddPlayer_room [OF assms, of pid DefaultSpec now now] by (simp add: join_race_def case_prod_unfold Let_def)

lemma has_room_registers:
  assumes "has_room w matchID m"
  shows "\<exists>r m'. RegisterPlayer (w_trackFn w) (w_newID w) (w_now w) matchID pid m = (Returns (Inr r), m') \<and>
    ByMatch matchID m' = (Some r, True)"
proof (cases rule: RegisterPlayer_cases [of matchID m "w_trackFn w" "w_newID w" "w_now w" pid])
  case (1 p)
  then obtain m' where "join_race p pid (w_now w) m = (Returns (Inr p), m')"
    using join_race_room [of m p pid "w_now w"] assms by (auto simp: has_room_def)
  then show ?thesis using 1 join_race_ByMatch by metis
next
  case (created track)
  let ?m = "snd (NewRace (w_trackFn w) (w_newID w) (w_now w) matchID m)"
  let ?p = "length (heap m)"
  have "status (heap ?m ! ?p) \<noteq> StatusFinished \<and> int (gm_len (players (heap ?m ! ?p))) < MaxPlayers (heap ?m ! ?p)"
    using New_room created(2) by (simp add: NewRace_def Let_def)
  then obtain m' where "join_race ?p pid (w_now w) ?m = (Returns (Inr ?p), m')"
    using join_race_room by blast
  then show ?thesis using created(3) join_race_ByMatch NewRace_match [where trackFn = "w_trackFn w" and matchID = matchID, OF created(2)] by metis
qed (use assms in \<open>auto simp: has_room_def\<close>)

subsection \<open>From the ticket to the race\<close>

text \<open>C6. Two servers that are configured with the same game token secret and share a working database work together: whoever is given a match by the REST
  server is, with the token of that reply and until it expires, let into the match's race by the game server, whoever
  asks first and from wherever, and the token is then spent; under any other match or player it is refused. Two conditions are
  not the servers' to keep: no earlier assignment carries the same token (one would if the player had been given the match before in the same
  second), and the match can still be entered (\<open>has_room\<close>): its race is neither over nor full nor
  dropped by the watcher, or it has none yet and its track is known.\<close>

theorem matched_player_races:
  assumes "Load lower env = Inr cfg" and "Load lower' env' = Inr gcfg"
    and "env' ''GAME_TOKEN_SECRET'' = env ''GAME_TOKEN_SECRET''"
    and "hr_method req = ''POST''" and "hr_path req = [''api'', ''v1'', ''matchmaking'', ''join'']"
    and "api_serve L bodyLen (api_deps cfg True) ce req (st, logs) = Some (HttpJSON n (BMatch info), st', logs')"
    and "\<forall>a \<in> set (st_assignments st). as_token a \<noteq> mi_GameToken info"
    and "game_wf g" and "g_ver g = st_assignments st'" and "now \<le> mi_ExpiresAt info"
    and "has_room w (mi_MatchID info) (g_mgr g)"
    and "verify = repo_verify (al_token L) (GameTokenSecret gcfg)"
  shows "\<exists>pid. Middleware (al_auth L) (JWTSecret cfg) (JWTIssuer cfg) (ce_now ce) (hr_Authorization req) = Some pid \<and>
    (\<forall>P payload jr from. as_join P payload = Some jr \<and> join_ids P jr = Some (mi_MatchID info, pid) \<and>
        jr_GameToken jr = mi_GameToken info \<longrightarrow>
      (\<exists>r g'. Handle P verify (pick, no_fault, now) w payload from g =
          (Returns (marshalJoinResp P True [] (uuidString P (raceID (heap (g_mgr g') ! r))) (initialTick (w_now w))), g') \<and>
        ByMatch (mi_MatchID info) (g_mgr g') = (Some r, True) \<and> has_player r pid (g_mgr g') \<and>
        spent_token (mi_MatchID info) pid (mi_GameToken info) (g_ver g'))) \<and>
    (\<forall>m' p' e. (m', p') \<noteq> (mi_MatchID info, pid) \<longrightarrow> fst (verify m' p' (mi_GameToken info) e (g_ver g)) \<noteq> None)"
proof -
  let ?ms = "\<lparr>ms_gameHost = GameServerPublicHost cfg, ms_gamePort = GameServerPublicPort cfg, ms_tokenSecret = GameTokenSecret cfg\<rparr>"
  have "JWTSecret cfg \<noteq> []" using Load_Inr [of lower env cfg] assms(1) by (auto simp: check_secrets_def split: if_splits)
  note up = up_router [OF this]
  have secret: "GameTokenSecret gcfg = ms_tokenSecret ?ms"
    using Load_token_secret [OF assms(1)] Load_token_secret [OF assms(2)] assms(3) by (simp add: getEnv_def)
  have deps: "de_Matchmaking (api_deps cfg True) = Some ?ms" "de_JWTSecret (api_deps cfg True) = JWTSecret cfg"
    "de_JWTIssuer (api_deps cfg True) = JWTIssuer cfg" by (simp_all add: api_deps_def)
  obtain pid db where mw: "Middleware (al_auth L) (JWTSecret cfg) (JWTIssuer cfg) (ce_now ce) (hr_Authorization req) = Some pid"
    and h: "handle_Join (al_token L) ?ms (ce_match_fault ce) (ce_order ce) (ce_match_id ce) (ce_now ce) (Some pid)
      (st_assignments st) = (HttpJSON n info, db)" and st': "st' = st\<lparr>st_assignments := db\<rparr>"
    using assms(6) by (auto simp: api_serve_eq [OF up] mux_serve_def assms(4,5) join_route route_call_def guarded_def
        deps Let_def map_response_JSON split: prod.splits option.splits)
  have j: "Join (al_token L) ?ms (ce_match_fault ce) (ce_order ce) (ce_match_id ce) (ce_now ce) pid (st_assignments st) = (Inr info, db)"
    using h by (auto simp: handle_Join_def PlayerIDFromContext_def split: option.splits prod.splits sum.splits if_splits)
  note t = joined_token [OF j assms(7)]
  have ver: "g_ver g = db" using assms(9) st' by simp
  have accept: "fst (verify (mi_MatchID info) pid (mi_GameToken info) (pick, no_fault, now) (g_ver g)) = None"
    using t assms(10) by (simp add: assms(12) secret ver repo_verify_eq VerifyAndConsume_def verify_select_def verify_update_def no_fault_def)
  have thief: "fst (verify m' p' (mi_GameToken info) e (g_ver g)) \<noteq> None" if "(m', p') \<noteq> (mi_MatchID info, pid)" for m' p' e
  proof (cases e)
    case (fields pick fault now)
    then show ?thesis using t(3) [of pick m' p'] that
      by (auto simp: assms(12) secret ver repo_verify_eq VerifyAndConsume_def verify_select_def split: option.split sum.split)
  qed
  have "\<exists>r g'. Handle P verify (pick, no_fault, now) w payload from g =
          (Returns (marshalJoinResp P True [] (uuidString P (raceID (heap (g_mgr g') ! r))) (initialTick (w_now w))), g') \<and>
        ByMatch (mi_MatchID info) (g_mgr g') = (Some r, True) \<and> has_player r pid (g_mgr g') \<and>
        spent_token (mi_MatchID info) pid (mi_GameToken info) (g_ver g')"
    if "as_join P payload = Some jr" "join_ids P jr = Some (mi_MatchID info, pid)" "jr_GameToken jr = mi_GameToken info"
    for P payload jr "from"
  proof -
    obtain v where v: "verify (mi_MatchID info) pid (mi_GameToken info) (pick, no_fault, now) (g_ver g) = (None, v)"
      using accept by (metis prod.collapse)
    obtain r mg where reg: "RegisterPlayer (w_trackFn w) (w_newID w) (w_now w) (mi_MatchID info) pid (g_mgr g) = (Returns (Inr r), mg)"
      "ByMatch (mi_MatchID info) mg = (Some r, True)" using has_room_registers [OF assms(11)] by blast
    have "has_player r pid mg" using reg.register_joins [OF _ reg(1)] assms(8) by (simp add: game_wf_def)
    moreover have "spent_token (mi_MatchID info) pid (mi_GameToken info) v"
      using repo.accept_spends v unfolding assms(12) by blast
    ultimately show ?thesis using reg(2)
      by (intro exI [of _ r] exI [of _ "g\<lparr>g_ver := v, g_mgr := mg, g_sess := SetRace pid (Some r) (snd (BindAddr from pid (g_sess g)))\<rparr>"])
        (simp add: Handle_eq that handleJoin_eq [OF that(2)] v reg(1))
  qed
  then show ?thesis using mw thief by blast
qed

text \<open>The player 9 asks for a match on empty tables, is given match 5, and joins from the address \<open>a\<close>.\<close>

definition demo_match_call :: call_env where
  "demo_match_call = demo_call\<lparr>ce_match_id := 5\<rparr>"

definition demo_ticket :: MatchInfo where
  "demo_ticket = \<lparr>mi_MatchID = 5, mi_GameServerHost = ''localhost'', mi_GameServerPort = 7000,
     mi_GameToken = token_of (GameTokenSecret demo_cfg) [1], mi_ExpiresAt = unix_time (time_Unix 0 + 300)\<rparr>"

definition ticket_proto :: protolib where
  "ticket_proto = demo_proto\<lparr>unmarshalJoin := (\<lambda>b. Some \<lparr>jr_MatchId = ''five'', jr_PlayerId = ''nine'',
     jr_GameToken = mi_GameToken demo_ticket\<rparr>)\<rparr>"

lemma demo_ticket_given:
  "\<exists>asg. Join demo_tokenlib \<lparr>ms_gameHost = GameServerPublicHost demo_cfg, ms_gamePort = GameServerPublicPort demo_cfg,
      ms_tokenSecret = GameTokenSecret demo_cfg\<rparr> (\<lambda>_. None) [] 5 0 9 [] = (Inr demo_ticket, asg)"
proof -
  have cfg: "GameServerPublicHost demo_cfg = ''localhost''" "GameServerPublicPort demo_cfg = 7000" "GameTokenSecret demo_cfg \<noteq> []"
    by (simp_all add: demo_cfg_def dev_secrets_def Let_def read_config_def getEnv_def getEnvInt_def)
  have "time_Unix 300000000000 = time_Unix 0 + 300" using time_Unix_add [of 0 300] by simp
  then show ?thesis
    by (simp add: Join_def cfg findOrCreateMatch_def open_matches_def first_open_def SignGameToken_def Let_def
        demo_ticket_def token_of_def CreateAssignment_def demo_tokenlib_def TokenTTL_def time_Unix_def [of 0] unix_epoch_def)
qed

theorem matched_player_races_witness:
  "\<exists>auth st' logs' r g'. api_serve demo_api (\<lambda>_. 0) (api_deps demo_cfg True) demo_match_call
      (demo_http ''POST'' [''api'', ''v1'', ''matchmaking'', ''join''] auth) (demo_start, []) =
        Some (HttpJSON 200 (BMatch demo_ticket), st', logs') \<and>
    Handle ticket_proto (repo_verify demo_tokenlib (GameTokenSecret demo_cfg)) (0, no_fault, 50) demo_world [1] ''a''
      (demo_game (st_assignments st')) = (Returns [1], g') \<and> has_player r 9 (g_mgr g')"
proof -
  let ?ms = "\<lparr>ms_gameHost = GameServerPublicHost demo_cfg, ms_gamePort = GameServerPublicPort demo_cfg, ms_tokenSecret = GameTokenSecret demo_cfg\<rparr>"
  let ?req = "\<lambda>auth. demo_http ''POST'' [''api'', ''v1'', ''matchmaking'', ''join''] auth"
  have up: "NewRouter (api_deps demo_cfg True) = Some (route_table True True True True)"
    by (rule up_router) (simp add: demo_cfg_fields)
  have "JWTSecret demo_cfg \<noteq> []" by (simp add: demo_cfg_fields)
  then obtain tok where tok: "IssueAccessToken demo_auth (JWTSecret demo_cfg) (JWTIssuer demo_cfg) (JWTAccessTTL demo_cfg) 0 7 9 = Inr tok"
    by (simp add: IssueAccessToken_def demo_auth_def)
  have mw: "Middleware demo_auth (JWTSecret demo_cfg) (JWTIssuer demo_cfg) 0 (''Bearer '' @ tok) = Some 9"
    using Issue_admits [OF demo_jwt_doc tok, of 0] by (simp add: demo_cfg_fields unix_time_def time_Unix_def)
  obtain asg where j: "Join demo_tokenlib ?ms (\<lambda>_. None) [] 5 0 9 [] = (Inr demo_ticket, asg)" using demo_ticket_given by blast
  have deps: "de_Matchmaking (api_deps demo_cfg True) = Some ?ms" "de_JWTSecret (api_deps demo_cfg True) = JWTSecret demo_cfg"
    "de_JWTIssuer (api_deps demo_cfg True) = JWTIssuer demo_cfg" by (simp_all add: api_deps_def)
  have api: "\<exists>logs'. api_serve demo_api (\<lambda>_. 0) (api_deps demo_cfg True) demo_match_call (?req (''Bearer '' @ tok)) (demo_start, []) =
      Some (HttpJSON 200 (BMatch demo_ticket), demo_start\<lparr>st_assignments := asg\<rparr>, logs')"
    unfolding api_serve_eq [OF up]
    by (simp add: mux_serve_def demo_http_def join_route route_call_def guarded_def deps mw [simplified] demo_api_def demo_match_call_def
        demo_call_def demo_start_def handle_Join_def PlayerIDFromContext_def j)
  then obtain logs' where api: "api_serve demo_api (\<lambda>_. 0) (api_deps demo_cfg True) demo_match_call (?req (''Bearer '' @ tok)) (demo_start, []) =
      Some (HttpJSON 200 (BMatch demo_ticket), demo_start\<lparr>st_assignments := asg\<rparr>, logs')" ..
  have mid: "mi_MatchID demo_ticket = 5" and exp: "(50 :: int) \<le> mi_ExpiresAt demo_ticket"
    by (simp_all add: demo_ticket_def unix_time_def time_Unix_def)
  have room: "has_room demo_world (mi_MatchID demo_ticket) (g_mgr (demo_game asg))" unfolding mid
    by (simp add: has_room_def demo_world_def demo_game_def ByMatch_def NewManager_def buildTrackLookup_def)
  let ?V = "repo_verify (al_token demo_api) (GameTokenSecret demo_cfg)"
  let ?G = "demo_game (st_assignments (demo_start\<lparr>st_assignments := asg\<rparr>))"
  have "hr_method (?req (''Bearer '' @ tok)) = ''POST''" "hr_path (?req (''Bearer '' @ tok)) = [''api'', ''v1'', ''matchmaking'', ''join'']"
    "\<forall>a \<in> set (st_assignments demo_start). as_token a \<noteq> mi_GameToken demo_ticket" "game_wf ?G"
    "g_ver ?G = st_assignments (demo_start\<lparr>st_assignments := asg\<rparr>)" "has_room demo_world (mi_MatchID demo_ticket) (g_mgr ?G)"
    using room by (simp_all add: demo_http_def demo_start_def) (simp_all add: demo_game_def)
  note m = matched_player_races [OF demo_cfg_loads demo_cfg_loads refl this(1,2) api this(3-5) exp this(6) refl, of 0]
  obtain pid where pid: "Middleware (al_auth demo_api) (JWTSecret demo_cfg) (JWTIssuer demo_cfg) (ce_now demo_match_call)
      (hr_Authorization (?req (''Bearer '' @ tok))) = Some pid"
    and joins: "\<And>P payload jr from. as_join P payload = Some jr \<and> join_ids P jr = Some (mi_MatchID demo_ticket, pid) \<and>
        jr_GameToken jr = mi_GameToken demo_ticket \<Longrightarrow>
      \<exists>r g'. Handle P ?V (0, no_fault, 50) demo_world payload from ?G =
          (Returns (marshalJoinResp P True [] (uuidString P (raceID (heap (g_mgr g') ! r))) (initialTick (w_now demo_world))), g') \<and>
        ByMatch (mi_MatchID demo_ticket) (g_mgr g') = (Some r, True) \<and> has_player r pid (g_mgr g') \<and>
        spent_token (mi_MatchID demo_ticket) pid (mi_GameToken demo_ticket) (g_ver g')"
    using m by (elim exE conjE) (rule that, assumption, blast)
  have "pid = 9" using pid mw by (simp add: demo_api_def demo_match_call_def demo_call_def demo_http_def)
  moreover have "mi_GameToken demo_ticket \<noteq> []" by (simp add: demo_ticket_def token_of_def)
  ultimately have "as_join ticket_proto [1] = Some \<lparr>jr_MatchId = ''five'', jr_PlayerId = ''nine'', jr_GameToken = mi_GameToken demo_ticket\<rparr> \<and>
      join_ids ticket_proto \<lparr>jr_MatchId = ''five'', jr_PlayerId = ''nine'', jr_GameToken = mi_GameToken demo_ticket\<rparr> =
        Some (mi_MatchID demo_ticket, pid)"
    by (simp add: as_join_def join_ids_def ticket_proto_def demo_proto_def mid)
  then obtain r g' where g': "Handle ticket_proto ?V (0, no_fault, 50) demo_world [1] ''a'' ?G =
      (Returns (marshalJoinResp ticket_proto True [] (uuidString ticket_proto (raceID (heap (g_mgr g') ! r))) (initialTick (w_now demo_world))), g')"
    and "has_player r pid (g_mgr g')"
    using joins [of ticket_proto "[1]" _ "''a''"] by fastforce
  moreover have "marshalJoinResp ticket_proto True [] rid tick = [1]" for rid tick
    by (simp add: marshalJoinResp_def ticket_proto_def demo_proto_def)
  moreover have "al_token demo_api = demo_tokenlib" by (simp add: demo_api_def)
  ultimately show ?thesis using api \<open>pid = 9\<close> by metis
qed

end
