(* ===== verification/Spec2Isabelle.thy ===== *)
theory Spec2Isabelle
  imports RaceProps Ledger Client Startup Play
begin

section \<open>Verification of the racing game backend\<close>

text \<open>
  The repository holds three executables and the tables between them. \<open>cmd/api\<close> is a REST server:
  accounts and access tokens, the catalogue of cars and tracks, garage and profile, matchmaking, which hands out
  signed game tokens, the leaderboard and the race history. \<open>cmd/game-server\<close> is a UDP server: a datagram holds
  a frame, the frame a protobuf message; a join names a match, a player and a game token, and once the token is
  accepted the player is registered in the match's race; an input is queued in the sender's race. Each race
  is a goroutine that ticks its cars, and when it is over its standings are written to PostgreSQL, where the REST
  server reads them. \<open>cmd/udp-client\<close> is the developers' client. The two servers share nothing but the database
  and the secret that signs game tokens.

  \<^bold>\<open>Theories and the code they model\<close>

  \<^item> \<open>Prelude\<close>, \<open>GoString\<close>, \<open>GoFloat\<close>, \<open>GoDuration\<close>, \<open>Containers\<close>: what the code uses of Go. Machine integers are words
    or integers with the range written out, times are nanoseconds, a panic and a call that never returns are outcomes,
    \<open>float64\<close> and \<open>float32\<close> are rationals rounded to nearest even with infinities and NaN, Go maps are
    association lists with distinct keys (the visiting order of \<open>range\<close> is an argument), channels are bounded queues.
    Their contracts are the locales \<open>float_format\<close>, \<open>go_map\<close> and \<open>go_chan\<close>.
  \<^item> \<open>Track\<close>, \<open>RaceTypes\<close>, \<open>Physics\<close>, \<open>Race\<close>, \<open>RaceLoop\<close>, \<open>Manager\<close>: \<open>internal/race\<close>. \<open>Race\<close> is the
    struct and what happens to it under its mutex; \<open>RaceLoop\<close> is \<open>Race.Run\<close> as a machine \<open>run_step\<close> that stops
    wherever another goroutine can act, and \<open>sys_step\<close> interleaves the others; \<open>Manager\<close> is the registry of races, which are
    indices into a heap. \<open>RaceProps\<close> holds the properties of one race, \<open>RaceRun\<close> runs races by evaluation for their witnesses.
  \<^item> \<open>Framing\<close>: \<open>internal/protoframing\<close> and the read loop of \<open>networking/server.go\<close> (locale \<open>framing_codec\<close>).
  \<^item> \<open>Hmac\<close>, \<open>Token\<close>, \<open>Matchmaking\<close>: \<open>internal/matchmaking\<close>: HMAC-SHA256, signing and checking game tokens (locales \<open>text_codec\<close>,
    \<open>token_verifier\<close>), the assignments table, \<open>MatchService.Join\<close> and its handler.
  \<^item> \<open>NetAddr\<close>, \<open>Dispatcher\<close>, \<open>Broadcast\<close>, \<open>GameServer\<close>: \<open>internal/networking\<close> and \<open>cmd/game-server\<close>: the text
    form of addresses, sessions, handling a datagram, subscriptions (locale \<open>subscriber_table\<close>), and the whole server as one state \<open>Server\<close> with the step
    function \<open>server_step\<close>. Laws of registration are the locale \<open>race_registry\<close>.
  \<^item> \<open>Results\<close>, \<open>Storage\<close>, \<open>Ledger\<close>: \<open>internal/results\<close>, \<open>persistRace\<close>, and the tables they write (locale
    \<open>atomic_writer\<close>), in every state of the game server.
  \<^item> \<open>Http\<close>, \<open>Auth\<close>, \<open>Catalog\<close>, \<open>Leaderboard\<close>, \<open>RaceHistory\<close>, \<open>Router\<close>: the REST server: \<open>internal/auth\<close>,
    \<open>cars\<close>, \<open>tracks\<close>, \<open>garage\<close>, \<open>player\<close>, \<open>leaderboard\<close>, \<open>racehistory\<close>, and \<open>internal/api\<close>, where
    \<open>api_serve\<close> composes the logging middleware, the multiplexer, the access token middleware and the handlers.
  \<^item> \<open>Config\<close>, \<open>Startup\<close>, \<open>Client\<close>: \<open>internal/config\<close>, \<open>internal/database\<close>, the two \<open>main\<close> functions, and
    \<open>cmd/udp-client\<close>.
  \<^item> \<open>Play\<close>: the REST server and the game server together, from the reply of matchmaking to the place in a race.
    Catalogues of cars and of tracks share the locale \<open>catalog\<close>.
\<close>

text \<open>
  \<^bold>\<open>What is shown\<close>

  \<^item> A race. The loop refines a four-phase abstract race, also inside the whole server; a player finishes after
    exactly the checkpoints of its laps; results are exact, places unique, and do not depend on map order; with
    finite bounded inputs no step hangs, and a cancelled loop returns. Infinite steering is shown to hang a race for ever, NaN to
    keep it from ending.
  \<^item> Who plays. A player matched by the REST server gets into the match's race, unless that is over or full. A token that no earlier assignment carries is accepted for its match and player until it expires, once; only players with an accepted token are
    ever in a race; inputs reach only the sender's own race. Two servers can both accept one token. A join that
    comes after its race was cleaned up makes the server panic.
  \<^item> What is sent and stored. Frames round-trip; the read loop sends exactly what the dispatcher replies, each to its sender, and the client reads the very response; a snapshot reaches each
    subscriber once, at the address it joined from; standings are stored completely or not at all, as the race had them. In the whole server the tables are
    a ledger of its races: no rows before a race's callback, then its final standings or nothing, and no row of anything else is
    touched; with a working database a finisher is in its history and on the leaderboard. The tables stay well typed.
  \<^item> The REST server. Users and players correspond one to one; a registered player can log in and read its own profile;
    a reply shows only what the caller's access token entitles to; the leaderboard is a ranking, the pages of the
    history cover it; which configurations load, and how both servers start and stop, a panic or a hung race included.

  \<^bold>\<open>Parameters and hypotheses\<close>

  What is not in the repository is an argument of the definitions that use it: \<open>math.Cos\<close>, \<open>math.Sin\<close>
  and \<open>math.Hypot\<close> (\<open>mathlib\<close>), the protobuf library (\<open>protolib\<close>, \<open>clientlib\<close>), the JSON of tokens
  (\<open>tokenlib\<close>), bcrypt, JWT and \<open>mail.ParseAddress\<close> (\<open>authlib\<close>), the database driver (\<open>dblib\<close>), and
  \<open>strings.ToLower\<close>, \<open>time.Parse\<close> and \<open>uuid.Parse\<close>. Where a
  property relies on one of them, the documented behaviour is a predicate (\<open>hypot_doc\<close>, \<open>pb_doc\<close> and
  the like) among its premises, and its witness gives an instance. A database is the list or map of its rows; each statement
  may fail, which of several rows is returned and in which order is an argument, and the answer of a commit may be lost.

  \<^bold>\<open>Loops\<close>

  The loops of \<open>wrapAngle\<close> are \<open>partial_function (option)\<close>, since they need not end; that they do for the values of a race with
  bounded inputs is proved with explicit bounds. \<open>strings.TrimSpace\<close> and the readers of IPv6
  addresses and durations end because each step shortens the text; every other loop is structural. Following history pages
  takes a number of pages; a number that is enough is part of the property.

  \<^bold>\<open>Not modelled\<close>

  \<open>internal/protocol/gamepb\<close> is generated code. Log output, printed text, and the transfer of bytes
  by sockets and signals by the operating system are I/O: their results are arguments. Of the migrations only columns, keys and foreign keys
  matter and are part of the tables. Tests, the container set-up and the proxy configuration hold no logic of the
  program. Times of day are readings handed to the steps, so nothing is said about real-time behaviour.
\<close>

end
